(* ===== verification/Prelude.thy ===== *)
theory Prelude
  imports Main
begin

text \<open>
  Shared vocabulary of the development: the collections the component theories feed, the
  Go integer conversions, and the list and option lemmas that several components use.

  Go's \<^verbatim>\<open>int\<close> and \<^verbatim>\<open>int64\<close> are 64-bit two's complement. They are modelled by \<^typ>\<open>int\<close>; an
  arithmetic operation whose operands the code does not bound is wrapped by \<open>go_int\<close>, which
  is the value Go's operation yields. Counters that only ever grow by the length of a slice
  (event counts, ticks, sequence numbers) are left unwrapped: reaching \<open>2 ^ 63\<close> by such
  steps is outside any execution.
\<close>

named_theorems model_defs "definitions a component unfolds as one group"
named_theorems inv_intros "introduction rules for the components' invariants"

definition go_int :: "int \<Rightarrow> int" where
  "go_int x = (x + 2 ^ 63) mod 2 ^ 64 - 2 ^ 63"

definition go_int32 :: "int \<Rightarrow> int" where
  "go_int32 x = (x + 2 ^ 31) mod 2 ^ 32 - 2 ^ 31"

definition max_int64 :: int where
  "max_int64 = 2 ^ 63 - 1"

definition in_int64 :: "int \<Rightarrow> bool" where
  "in_int64 x \<longleftrightarrow> - (2 ^ 63) \<le> x \<and> x < 2 ^ 63"

definition in_int32 :: "int \<Rightarrow> bool" where
  "in_int32 x \<longleftrightarrow> - (2 ^ 31) \<le> x \<and> x < 2 ^ 31"

lemma go_int_id [simp]: "in_int64 x \<Longrightarrow> go_int x = x"
  by (simp add: go_int_def in_int64_def)

lemma go_int_range: "in_int64 (go_int x)"
proof -
  have "0 \<le> (x + 2 ^ 63) mod 2 ^ 64" and "(x + 2 ^ 63) mod 2 ^ 64 < (2::int) ^ 64"
    by simp_all
  then show ?thesis by (simp add: go_int_def in_int64_def)
qed

lemma go_int_overflow: "2 ^ 63 \<le> x \<Longrightarrow> x < 2 ^ 63 + 2 ^ 64 \<Longrightarrow> go_int x = x - 2 ^ 64"
  using mod_pos_geq [of "2 ^ 64" "x + 2 ^ 63"] by (simp add: go_int_def)

lemma go_int32_id [simp]: "in_int32 x \<Longrightarrow> go_int32 x = x"
  by (simp add: go_int32_def in_int32_def)

lemma go_int32_range: "in_int32 (go_int32 x)"
proof -
  have "0 \<le> (x + 2 ^ 31) mod 2 ^ 32" and "(x + 2 ^ 31) mod 2 ^ 32 < (2::int) ^ 32"
    by simp_all
  then show ?thesis by (simp add: go_int32_def in_int32_def)
qed

text \<open>Results: \<^verbatim>\<open>(T, error)\<close> in Go, with \<open>Inl\<close> for a non-nil error.\<close>

fun is_ok :: "'e + 'a \<Rightarrow> bool" where
  "is_ok (Inl _) = False"
| "is_ok (Inr _) = True"

lemma is_ok_iff: "is_ok r \<longleftrightarrow> (\<exists>v. r = Inr v)"
  by (cases r) auto

text \<open>Running a list of inputs through a state transformer, in order.\<close>

fun run_list :: "('s \<Rightarrow> 'a \<Rightarrow> 's) \<Rightarrow> 's \<Rightarrow> 'a list \<Rightarrow> 's" where
  "run_list f s [] = s"
| "run_list f s (x # xs) = run_list f (f s x) xs"

lemma run_list_append: "run_list f s (xs @ ys) = run_list f (run_list f s xs) ys"
  by (induction xs arbitrary: s) auto

lemma run_list_invariant:
  assumes "\<And>s x. P s \<Longrightarrow> x \<in> set xs \<Longrightarrow> P (f s x)" and "P s"
  shows "P (run_list f s xs)"
  using assms by (induction xs arbitrary: s) auto

lemma list_update_same_map:
  assumes "i < length xs" and "f y = f (xs ! i)"
  shows "map f (xs[i := y]) = map f xs"
  using assms by (metis list_update_id map_update)

lemma sum_list_map_update:
  fixes f :: "'a \<Rightarrow> int"
  assumes "i < length xs"
  shows "sum_list (map f (xs[i := y])) = sum_list (map f xs) - f (xs ! i) + f y"
  using assms by (induction xs arbitrary: i) (auto split: nat.splits)

lemma map_of_zip_upt:
  assumes "distinct ks" and "i < length ks"
  shows "map_of (zip ks [0..<length ks]) (ks ! i) = Some i"
  using assms by (simp add: map_of_zip_nth)

lemma take_drop_split: "n \<le> length xs \<Longrightarrow> take n xs @ drop n xs = xs"
  by simp

lemma drop_nth_Cons: "n < length xs \<Longrightarrow> drop n xs = xs ! n # drop (Suc n) xs"
  by (rule Cons_nth_drop_Suc [symmetric])

end
