(* ===== verification/Go_Errors.thy ===== *)
theory Go_Errors
  imports Prelude
begin

text \<open>
  Go errors as values. The code builds errors with \<^verbatim>\<open>fmt.Errorf\<close>, wraps with \<^verbatim>\<open>%w\<close> and
  classifies with \<^verbatim>\<open>errors.Is\<close>, never by message text. An error is therefore kept as the
  format it was built from: a list of pieces, each a literal, a printed value or a wrapped
  error. Rendering the pieces to text is not needed by any decision the code takes.
\<close>

datatype sentinel =
    ErrInvalidControls | ErrInvalidEvent
  | ErrOffsetOutOfRange | ErrStrandedSnapshot | ErrNoRunState
  | ErrRunNotFound | ErrRunExists | ErrRunFinished | ErrRunClosed | ErrRegistryDown
  | ErrRunHasHistory | ErrCorruptLog

text \<open>The event-spine package's own sentinels, and any other failure it reports.\<close>

datatype spine_error = ErrEndOfLog | ErrNotFound | ErrNoSnapshot | ErrNoGroup | SpineFailure string

datatype go_error =
    Sentinel sentinel
  | Spine spine_error
  | Lib string
  | Errorf "piece list"
  | Joined "go_error list"
and piece = T string | D int | Q string | W go_error

fun errors_is :: "go_error \<Rightarrow> go_error \<Rightarrow> bool"
  and piece_is :: "piece \<Rightarrow> go_error \<Rightarrow> bool" where
  "errors_is (Errorf ps) t = (Errorf ps = t \<or> list_ex (\<lambda>p. piece_is p t) ps)"
| "errors_is (Joined es) t = (Joined es = t \<or> list_ex (\<lambda>e. errors_is e t) es)"
| "errors_is e t = (e = t)"
| "piece_is (W e) t = errors_is e t"
| "piece_is _ t = False"

definition errors_join :: "go_error list \<Rightarrow> go_error option" where
  "errors_join es = (if es = [] then None else Some (Joined es))"

lemma errors_join_None [simp]: "errors_join es = None \<longleftrightarrow> es = []"
  by (simp add: errors_join_def)

lemma errors_is_refl: "errors_is e e"
  by (cases e) auto

lemma errors_is_wrap: "errors_is e t \<Longrightarrow> W e \<in> set ps \<Longrightarrow> errors_is (Errorf ps) t"
  by (force simp: list_ex_iff)

end
