(* ===== verification/Go_Text.thy ===== *)
theory Go_Text
  imports Prelude
begin

text \<open>
  The parts of \<^verbatim>\<open>fmt\<close> and \<^verbatim>\<open>strconv\<close> the program prints and parses identifiers with:
  \<^verbatim>\<open>%d\<close>, the zero-padded \<^verbatim>\<open>%0Nd\<close>, and \<^verbatim>\<open>strconv.Atoi\<close> / \<^verbatim>\<open>strconv.ParseInt(s, 10, 64)\<close>. A Go
  string is a sequence of bytes, modelled as \<^typ>\<open>string\<close>.
\<close>

definition digit :: "nat \<Rightarrow> char" where
  "digit d = ''0123456789'' ! d"

definition is_digit :: "char \<Rightarrow> bool" where
  "is_digit c \<longleftrightarrow> c \<in> set ''0123456789''"

definition digit_val :: "char \<Rightarrow> nat" where
  "digit_val c = of_char c - 48"

fun dec_nat :: "nat \<Rightarrow> string" where
  "dec_nat n = (if n < 10 then [digit n] else dec_nat (n div 10) @ [digit (n mod 10)])"

declare dec_nat.simps [simp del]

definition zero_pad :: "nat \<Rightarrow> string \<Rightarrow> string" where
  "zero_pad w s = replicate (w - length s) (CHR ''0'') @ s"

definition fmt_d :: "int \<Rightarrow> string" where
  "fmt_d n = (if n < 0 then CHR ''-'' # dec_nat (nat (- n)) else dec_nat (nat n))"

definition fmt_0d :: "nat \<Rightarrow> int \<Rightarrow> string" where
  "fmt_0d w n =
     (if n < 0 then CHR ''-'' # zero_pad (w - 1) (dec_nat (nat (- n)))
      else zero_pad w (dec_nat (nat n)))"

fun read_digits :: "nat \<Rightarrow> string \<Rightarrow> nat option" where
  "read_digits acc [] = Some acc"
| "read_digits acc (c # cs) =
     (if is_digit c then read_digits (10 * acc + digit_val c) cs else None)"

definition parse_nat :: "string \<Rightarrow> nat option" where
  "parse_nat s = (if s = [] then None else read_digits 0 s)"

definition atoi :: "string \<Rightarrow> int option" where
  "atoi s =
     (let (neg, body) =
        (case s of [] \<Rightarrow> (False, [])
         | c # cs \<Rightarrow> if c = CHR ''-'' then (True, cs)
                   else if c = CHR ''+'' then (False, cs) else (False, s))
      in case parse_nat body of
           None \<Rightarrow> None
         | Some n \<Rightarrow> (let v = (if neg then - int n else int n)
                     in if in_int64 v then Some v else None))"

subsection \<open>Digits\<close>

lemma less_10_cases: "d < 10 \<Longrightarrow> d \<in> {0,1,2,3,4,5,6,7,8,9::nat}"
  by (auto simp: less_Suc_eq numeral_eq_Suc)

lemma digit_is_digit [simp]: "d < 10 \<Longrightarrow> is_digit (digit d)"
  using less_10_cases [of d] by (auto simp: digit_def is_digit_def)

lemma digit_val_digit [simp]: "d < 10 \<Longrightarrow> digit_val (digit d) = d"
  using less_10_cases [of d] by (auto simp: digit_def digit_val_def)

lemma is_digit_zero [simp]: "is_digit (CHR ''0'')" "digit_val (CHR ''0'') = 0"
  by (simp_all add: is_digit_def digit_val_def)

lemma read_digits_append:
  "read_digits a (s @ t) = (case read_digits a s of None \<Rightarrow> None | Some b \<Rightarrow> read_digits b t)"
  by (induction s arbitrary: a) auto

lemma read_digits_zeros [simp]: "read_digits 0 (replicate k (CHR ''0'') @ s) = read_digits 0 s"
  by (induction k) auto

lemma dec_nat_nonempty [simp]: "dec_nat n \<noteq> []"
  by (subst dec_nat.simps) simp

lemma dec_nat_digits: "\<forall>c \<in> set (dec_nat n). is_digit c"
proof (induction n rule: dec_nat.induct)
  case (1 n)
  then show ?case by (subst dec_nat.simps) auto
qed

lemma read_dec_nat: "read_digits 0 (dec_nat n) = Some n"
proof (induction n rule: dec_nat.induct)
  case (1 n)
  show ?case
  proof (cases "n < 10")
    case True
    then show ?thesis by (subst dec_nat.simps) simp
  next
    case False
    with 1 have "read_digits 0 (dec_nat (n div 10)) = Some (n div 10)" by simp
    with False show ?thesis
      by (subst dec_nat.simps) (simp add: read_digits_append)
  qed
qed

lemma parse_nat_zero_pad: "parse_nat (zero_pad w (dec_nat n)) = Some n"
  by (simp add: parse_nat_def zero_pad_def read_dec_nat)

lemma parse_nat_dec: "parse_nat (dec_nat n) = Some n"
  by (simp add: parse_nat_def read_dec_nat)

lemma digit_not_sign: "is_digit c \<Longrightarrow> c \<noteq> CHR ''-'' \<and> c \<noteq> CHR ''+''"
  by (auto simp: is_digit_def)

lemma hd_zero_pad_digit: "is_digit (hd (zero_pad w (dec_nat n)))"
proof (cases "w - length (dec_nat n)")
  case 0
  then show ?thesis using dec_nat_digits [of n] by (simp add: zero_pad_def)
next
  case (Suc k)
  then show ?thesis by (simp add: zero_pad_def)
qed

lemma atoi_unsigned:
  assumes "s \<noteq> []" and "is_digit (hd s)" and "parse_nat s = Some n" and "in_int64 (int n)"
  shows "atoi s = Some (int n)"
  using assms digit_not_sign [of "hd s"] by (cases s) (auto simp: atoi_def)

lemma atoi_fmt_0d: "0 \<le> n \<Longrightarrow> in_int64 n \<Longrightarrow> atoi (fmt_0d w n) = Some n"
  using atoi_unsigned [OF _ hd_zero_pad_digit parse_nat_zero_pad, of w "nat n"]
  by (simp add: fmt_0d_def zero_pad_def)

lemma dec_nat_digit_hd: "is_digit (hd (dec_nat n))"
  using dec_nat_digits [of n] hd_in_set [OF dec_nat_nonempty] by blast

lemma atoi_fmt_d: "in_int64 n \<Longrightarrow> atoi (fmt_d n) = Some n"
proof (cases "n < 0")
  case True
  assume "in_int64 n"
  with True show ?thesis by (simp add: fmt_d_def atoi_def parse_nat_dec)
next
  case False
  assume "in_int64 n"
  with False show ?thesis
    using atoi_unsigned [OF dec_nat_nonempty dec_nat_digit_hd parse_nat_dec, of "nat n"]
    by (simp add: fmt_d_def)
qed

lemma fmt_0d_inj:
  assumes "0 \<le> m" "0 \<le> n" "fmt_0d w m = fmt_0d w n"
  shows "m = n"
proof -
  have "parse_nat (fmt_0d w m) = Some (nat m)" "parse_nat (fmt_0d w n) = Some (nat n)"
    using assms(1,2) by (simp_all add: fmt_0d_def parse_nat_zero_pad)
  with assms(3) have "nat m = nat n" by simp
  with assms(1,2) show ?thesis by simp
qed

lemma fmt_d_inj: "fmt_d m = fmt_d n \<Longrightarrow> m = n"
proof -
  have digs: "\<And>k. CHR ''-'' # s \<noteq> dec_nat k" for s
    using dec_nat_digits by (metis digit_not_sign list.set_intros(1))
  have inj: "\<And>j k. dec_nat j = dec_nat k \<Longrightarrow> j = k"
    by (metis option.inject parse_nat_dec)
  assume "fmt_d m = fmt_d n"
  then show ?thesis
    using digs digs [symmetric] inj by (auto simp: fmt_d_def split: if_splits dest!: inj)
qed

end
