(* ===== verification/Events.thy ===== *)
theory Events
  imports Go_Errors Go_Text
begin

text \<open>
  \<^verbatim>\<open>internal/event/event.go\<close>: the event envelope, its validation and the key the processor
  deduplicates on. A \<^verbatim>\<open>Type\<close> is a wire string; \<^verbatim>\<open>time.Time\<close> is an instant, with \<open>0\<close> for the
  zero time.
\<close>

definition schema_version :: int where "schema_version = 1"

type_synonym event_type = string

definition type_rain :: event_type where "type_rain = ''rain''"
definition type_growth :: event_type where "type_growth = ''growth''"
definition type_pest :: event_type where "type_pest = ''pest''"
definition type_control_changed :: event_type where "type_control_changed = ''control_changed''"
definition type_run_state_changed :: event_type where
  "type_run_state_changed = ''run_state_changed''"

lemmas type_defs = type_rain_def type_growth_def type_pest_def type_control_changed_def
  type_run_state_changed_def

definition type_valid :: "event_type \<Rightarrow> bool" where
  "type_valid t \<longleftrightarrow> t = type_rain \<or> t = type_growth \<or> t = type_pest \<or>
     t = type_control_changed \<or> t = type_run_state_changed"

record payload =
  Amount :: int
  Revision :: int

record event =
  EventID :: string
  Type :: event_type
  SchemaVersion :: int
  RunID :: string
  EntityID :: string
  PartitionKey :: string
  Sequence :: int
  OccurredAt :: int
  RecordedAt :: int
  Attempt :: int
  Payload :: payload

definition is_organism_event :: "event \<Rightarrow> bool" where
  "is_organism_event e \<longleftrightarrow> Type e = type_rain \<or> Type e = type_growth \<or> Type e = type_pest"

definition invalid_event :: "piece list \<Rightarrow> go_error" where
  "invalid_event ps = Errorf (W (Sentinel ErrInvalidEvent) # ps)"

definition validate_event :: "event \<Rightarrow> go_error option" where
  "validate_event e =
     (if EventID e = '''' then Some (invalid_event [T '': event_id is required''])
      else if \<not> type_valid (Type e) then
        Some (invalid_event [T '': unknown event_type '', Q (Type e)])
      else if SchemaVersion e \<le> 0 then
        Some (invalid_event [T '': schema_version must be positive, got '', D (SchemaVersion e)])
      else if RunID e = '''' then Some (invalid_event [T '': run_id is required''])
      else if Sequence e < 0 then
        Some (invalid_event [T '': sequence must not be negative, got '', D (Sequence e)])
      else if OccurredAt e < 0 then
        Some (invalid_event [T '': occurred_at must not be negative, got '', D (OccurredAt e)])
      else if Attempt e < 1 then
        Some (invalid_event [T '': attempt must be at least 1, got '', D (Attempt e)])
      else if is_organism_event e \<and> EntityID e = '''' then
        Some (invalid_event [T '': entity_id is required for '', T (Type e)])
      else None)"

definition idempotency_key :: "event \<Rightarrow> string" where
  "idempotency_key e =
     (if Type e = type_control_changed \<or> Type e = type_run_state_changed
      then RunID e @ '':'' @ Type e @ '':'' @ fmt_d (Revision (Payload e))
      else EventID e)"

definition event_ok :: "event \<Rightarrow> bool" where
  "event_ok e \<longleftrightarrow> EventID e \<noteq> '''' \<and> type_valid (Type e) \<and> 0 < SchemaVersion e \<and> RunID e \<noteq> '''' \<and>
     0 \<le> Sequence e \<and> 0 \<le> OccurredAt e \<and> 1 \<le> Attempt e \<and>
     (is_organism_event e \<longrightarrow> EntityID e \<noteq> '''')"

lemma validate_event_None_iff: "validate_event e = None \<longleftrightarrow> event_ok e"
  by (auto simp: validate_event_def event_ok_def)

lemma validate_event_error:
  "validate_event e = Some err \<Longrightarrow> errors_is err (Sentinel ErrInvalidEvent)"
  by (auto simp: validate_event_def invalid_event_def split: if_splits)

text \<open>The attempt number and the recording time decide neither validity nor the key.\<close>

lemma idempotency_key_redelivery [simp]:
  "idempotency_key (e\<lparr>Attempt := a\<rparr>) = idempotency_key e"
  by (simp add: idempotency_key_def)

lemma event_ok_redelivery: "event_ok e \<Longrightarrow> 1 \<le> a \<Longrightarrow> event_ok (e\<lparr>Attempt := a\<rparr>)"
  by (simp add: event_ok_def is_organism_event_def)

lemma organism_event_key: "is_organism_event e \<Longrightarrow> idempotency_key e = EventID e"
  by (auto simp: is_organism_event_def idempotency_key_def type_defs)

lemma control_key_inj:
  assumes "Type e = type_control_changed" "Type f = type_control_changed" "RunID e = RunID f"
    and "idempotency_key e = idempotency_key f"
  shows "Revision (Payload e) = Revision (Payload f)"
  using assms by (auto simp: idempotency_key_def dest: fmt_d_inj)

end
