(* ===== verification/Sha256.thy ===== *)
theory Sha256
  imports Prelude "HOL-Library.Word"
begin

unbundle bit_operations_syntax

text \<open>
  \<^verbatim>\<open>crypto/sha256\<close> and \<^verbatim>\<open>hex.EncodeToString\<close>, which the garden fingerprint is made with: the
  hash of FIPS 180-4 on a byte string, big-endian, and lower-case hexadecimal.
\<close>

type_synonym u32 = "32 word"

definition sha_k :: "u32 list" where
  "sha_k = [
    1116352408, 1899447441, 3049323471, 3921009573, 961987163, 1508970993, 2453635748, 2870763221,
    3624381080, 310598401, 607225278, 1426881987, 1925078388, 2162078206, 2614888103, 3248222580,
    3835390401, 4022224774, 264347078, 604807628, 770255983, 1249150122, 1555081692, 1996064986,
    2554220882, 2821834349, 2952996808, 3210313671, 3336571891, 3584528711, 113926993, 338241895,
    666307205, 773529912, 1294757372, 1396182291, 1695183700, 1986661051, 2177026350, 2456956037,
    2730485921, 2820302411, 3259730800, 3345764771, 3516065817, 3600352804, 4094571909, 275423344,
    430227734, 506948616, 659060556, 883997877, 958139571, 1322822218, 1537002063, 1747873779,
    1955562222, 2024104815, 2227730452, 2361852424, 2428436474, 2756734187, 3204031479, 3329325298]"

definition sha_init :: "u32 list" where
  "sha_init = [1779033703, 3144134277, 1013904242, 2773480762,
               1359893119, 2600822924, 528734635, 1541459225]"

definition rotr :: "nat \<Rightarrow> u32 \<Rightarrow> u32" where
  "rotr n x = drop_bit n x OR push_bit (32 - n) x"

definition small_sigma0 :: "u32 \<Rightarrow> u32" where
  "small_sigma0 x = rotr 7 x XOR rotr 18 x XOR drop_bit 3 x"

definition small_sigma1 :: "u32 \<Rightarrow> u32" where
  "small_sigma1 x = rotr 17 x XOR rotr 19 x XOR drop_bit 10 x"

definition big_sigma0 :: "u32 \<Rightarrow> u32" where
  "big_sigma0 x = rotr 2 x XOR rotr 13 x XOR rotr 22 x"

definition big_sigma1 :: "u32 \<Rightarrow> u32" where
  "big_sigma1 x = rotr 6 x XOR rotr 11 x XOR rotr 25 x"

text \<open>The message schedule keeps the last sixteen words, newest last.\<close>

fun schedule :: "nat \<Rightarrow> u32 list \<Rightarrow> u32 list" where
  "schedule 0 ws = ws"
| "schedule (Suc n) ws =
     schedule n (ws @ [let t = length ws in
        small_sigma1 (ws ! (t - 2)) + ws ! (t - 7) + small_sigma0 (ws ! (t - 15)) + ws ! (t - 16)])"

definition sha_round :: "u32 list \<Rightarrow> u32 \<times> u32 \<Rightarrow> u32 list" where
  "sha_round s kw =
     (case s of
        [a, b, c, d, e, f, g, h] \<Rightarrow>
          (let ch = (e AND f) XOR (NOT e AND g);
               t1 = h + big_sigma1 e + ch + fst kw + snd kw;
               maj = (a AND b) XOR (a AND c) XOR (b AND c);
               t2 = big_sigma0 a + maj
           in [t1 + t2, a, b, c, d + t1, e, f, g])
      | _ \<Rightarrow> s)"

definition compress :: "u32 list \<Rightarrow> u32 list \<Rightarrow> u32 list" where
  "compress hs block = map2 (+) hs (run_list sha_round hs (zip sha_k (schedule 48 block)))"

definition be_word :: "int list \<Rightarrow> u32" where
  "be_word bs = word_of_int (foldl (\<lambda>acc b. 256 * acc + b) 0 bs)"

fun chunks :: "nat \<Rightarrow> 'a list \<Rightarrow> 'a list list" where
  "chunks n xs = (if n = 0 \<or> xs = [] then [] else take n xs # chunks n (drop n xs))"

declare chunks.simps [simp del]

definition be_bytes :: "nat \<Rightarrow> int \<Rightarrow> int list" where
  "be_bytes n v = map (\<lambda>i. v div 256 ^ (n - 1 - i) mod 256) [0..<n]"

definition sha_pad :: "int list \<Rightarrow> int list" where
  "sha_pad bs =
     (let n = length bs in
      bs @ [128] @ replicate ((119 - n mod 64) mod 64) 0 @ be_bytes 8 (8 * int n))"

definition sha256_words :: "int list \<Rightarrow> u32 list" where
  "sha256_words bs =
     run_list (\<lambda>hs blk. compress hs (map be_word (chunks 4 blk))) sha_init (chunks 64 (sha_pad bs))"

definition sha256 :: "string \<Rightarrow> int list" where
  "sha256 s = concat (map (\<lambda>w. be_bytes 4 (uint w)) (sha256_words (map of_char s)))"

definition hex_digit :: "nat \<Rightarrow> char" where
  "hex_digit d = ''0123456789abcdef'' ! d"

definition hex_encode :: "int list \<Rightarrow> string" where
  "hex_encode bs = concat (map (\<lambda>b. [hex_digit (nat (b div 16)), hex_digit (nat (b mod 16))]) bs)"

text \<open>The digest always has 32 bytes, whatever the message.\<close>

lemma length_be_bytes [simp]: "length (be_bytes n v) = n"
  by (simp add: be_bytes_def)

lemma length_sha_round [simp]: "length s = 8 \<Longrightarrow> length (sha_round s kw) = 8"
  by (auto simp: sha_round_def Let_def split: list.splits)

lemma length_compress: "length hs = 8 \<Longrightarrow> length (compress hs block) = 8"
proof -
  assume hs: "length hs = 8"
  then have "length (run_list sha_round hs xs) = 8" for xs
    using run_list_invariant [where P = "\<lambda>s. length s = 8" and f = sha_round] by simp
  with hs show ?thesis by (simp add: compress_def)
qed

lemma length_sha256: "length (sha256 s) = 32"
proof -
  have "length (sha256_words bs) = 8" for bs
    unfolding sha256_words_def
    by (rule run_list_invariant [where P = "\<lambda>hs. length hs = 8"])
       (simp_all add: length_compress sha_init_def)
  then show ?thesis by (simp add: sha256_def length_concat comp_def sum_list_triv)
qed

lemma be_bytes_range: "b \<in> set (be_bytes n v) \<Longrightarrow> 0 \<le> b \<and> b < 256"
  by (auto simp: be_bytes_def)

lemma sha256_bytes: "b \<in> set (sha256 s) \<Longrightarrow> 0 \<le> b \<and> b < 256"
  by (auto simp: sha256_def dest: be_bytes_range)

lemma hex_digit_inj: "a < 16 \<Longrightarrow> b < 16 \<Longrightarrow> hex_digit a = hex_digit b \<Longrightarrow> a = b"
proof -
  have "distinct ''0123456789abcdef''" by simp
  then show "a < 16 \<Longrightarrow> b < 16 \<Longrightarrow> hex_digit a = hex_digit b \<Longrightarrow> a = b"
    by (simp add: hex_digit_def nth_eq_iff_index_eq)
qed

lemma hex_encode_inj:
  assumes "\<forall>b \<in> set xs. 0 \<le> b \<and> b < 256" "\<forall>b \<in> set ys. 0 \<le> b \<and> b < 256" "hex_encode xs = hex_encode ys"
  shows "xs = ys"
  using assms
proof (induction xs arbitrary: ys)
  case Nil
  then show ?case by (cases ys) (auto simp: hex_encode_def)
next
  case (Cons x xs)
  obtain y zs where ys: "ys = y # zs"
    using Cons.prems(3) by (cases ys) (simp_all add: hex_encode_def)
  from Cons.prems(1,2) have r: "0 \<le> x" "x < 256" "0 \<le> y" "y < 256" by (auto simp: ys)
  have "hex_digit (nat (x div 16)) = hex_digit (nat (y div 16))"
    "hex_digit (nat (x mod 16)) = hex_digit (nat (y mod 16))"
    using Cons.prems(3) by (simp_all add: ys hex_encode_def)
  moreover have "nat (z div 16) < 16" "nat (z mod 16) < 16" if "z < 256" for z :: int
    using that by linarith+
  ultimately have "nat (x div 16) = nat (y div 16)" "nat (x mod 16) = nat (y mod 16)"
    using r hex_digit_inj by blast+
  then have "x div 16 = y div 16" "x mod 16 = y mod 16" using r by (simp_all add: eq_nat_nat_iff)
  then have xy: "x = y" by (metis div_mult_mod_eq)
  moreover have "hex_encode xs = hex_encode zs"
    using Cons.prems(3) by (simp add: ys hex_encode_def)
  ultimately show ?case using Cons.IH [of zs] Cons.prems(1,2) by (simp add: ys)
qed

end
