(* ===== verification/Garden.thy ===== *)
theory Garden
  imports Events Sha256 "HOL-Library.Log_Nat"
begin

text \<open>
  \<^verbatim>\<open>internal/domain/garden.go\<close> and \<^verbatim>\<open>internal/domain/rules.go\<close>: organisms, the garden (a slice
  of organisms and the index from ID to position), the three rules, the summary and the
  fingerprint. The slice and the index are private to the package and only \<open>new_garden\<close> and
  \<open>restore\<close> build them; \<open>garden_wf\<close> is what every garden satisfies, so that the index never
  leads outside the slice.
\<close>

definition max_moisture :: int where "max_moisture = 100"
definition max_health :: int where "max_health = 100"
definition max_stage :: int where "max_stage = 5"
definition growth_moisture_cost :: int where "growth_moisture_cost = 20"
definition growth_health_floor :: int where "growth_health_floor = 30"

lemmas rule_constants = max_moisture_def max_health_def max_stage_def
  growth_moisture_cost_def growth_health_floor_def

record organism =
  ID :: string
  Moisture :: int
  Health :: int
  Stage :: int

definition alive :: "organism \<Rightarrow> bool" where
  "alive o' \<longleftrightarrow> Health o' > 0"

record garden =
  organisms :: "organism list"
  index :: "string \<rightharpoonup> nat"

definition organism_id :: "int \<Rightarrow> string" where
  "organism_id i = ''org-'' @ fmt_0d 3 i"

definition new_garden :: "int \<Rightarrow> go_error + garden" where
  "new_garden n =
     (if n < 1 then Inl (Errorf [T ''garden needs at least 1 organism, got '', D n])
      else Inr
        \<lparr>organisms = map (\<lambda>i. \<lparr>ID = organism_id (int i), Moisture = 0, Health = max_health,
                                Stage = 0\<rparr>) [0..<nat n],
         index = fold (\<lambda>i m. m(organism_id (int i) \<mapsto> i)) [0..<nat n] Map.empty\<rparr>)"

fun restore_loop :: "nat \<Rightarrow> organism list \<Rightarrow> garden \<Rightarrow> go_error + garden" where
  "restore_loop i [] g = Inr g"
| "restore_loop i (o' # rest) g =
     (let want = organism_id (int i) in
      if ID o' \<noteq> want then
        Inl (Errorf [T ''organism '', D (int i), T '' has id '', Q (ID o'), T '', want '', Q want])
      else restore_loop (Suc i) rest
             (g\<lparr>organisms := organisms g @ [o'], index := (index g)(ID o' \<mapsto> i)\<rparr>))"

definition restore :: "organism list \<Rightarrow> go_error + garden" where
  "restore os =
     (if os = [] then Inl (Errorf [T ''garden needs at least 1 organism, got 0''])
      else restore_loop 0 os \<lparr>organisms = [], index = Map.empty\<rparr>)"

definition garden_len :: "garden \<Rightarrow> int" where
  "garden_len g = int (length (organisms g))"

definition get :: "garden \<Rightarrow> string \<Rightarrow> organism option" where
  "get g id' = (case index g id' of None \<Rightarrow> None | Some i \<Rightarrow> Some (organisms g ! i))"

subsection \<open>Rules\<close>

datatype outcome = OutcomeUnset | OutcomeApplied | OutcomeNoEffect | OutcomeUnknownEntity

definition clamp :: "int \<Rightarrow> int \<Rightarrow> int \<Rightarrow> int" where
  "clamp v lo hi = (if v < lo then lo else if v > hi then hi else v)"

definition apply_rain :: "organism \<Rightarrow> int \<Rightarrow> outcome \<times> organism" where
  "apply_rain o' amount =
     (if \<not> alive o' \<or> amount \<le> 0 \<or> Moisture o' \<ge> max_moisture then (OutcomeNoEffect, o')
      else (OutcomeApplied,
            o'\<lparr>Moisture := clamp (go_int (Moisture o' + amount)) 0 max_moisture\<rparr>))"

definition apply_growth :: "organism \<Rightarrow> outcome \<times> organism" where
  "apply_growth o' =
     (if \<not> alive o' \<or> Stage o' \<ge> max_stage then (OutcomeNoEffect, o')
      else if Moisture o' < growth_moisture_cost \<or> Health o' < growth_health_floor
      then (OutcomeNoEffect, o')
      else (OutcomeApplied,
            o'\<lparr>Moisture := Moisture o' - growth_moisture_cost, Stage := Stage o' + 1\<rparr>))"

definition apply_pest :: "organism \<Rightarrow> int \<Rightarrow> outcome \<times> organism" where
  "apply_pest o' amount =
     (if \<not> alive o' \<or> amount \<le> 0 then (OutcomeNoEffect, o')
      else (OutcomeApplied, o'\<lparr>Health := clamp (go_int (Health o' - amount)) 0 max_health\<rparr>))"

definition apply_rule :: "organism \<Rightarrow> event \<Rightarrow> outcome \<times> organism" where
  "apply_rule o' e =
     (if Type e = type_rain then apply_rain o' (Amount (Payload e))
      else if Type e = type_growth then apply_growth o'
      else if Type e = type_pest then apply_pest o' (Amount (Payload e))
      else (OutcomeNoEffect, o'))"

definition apply_event :: "garden \<Rightarrow> event \<Rightarrow> outcome \<times> garden" where
  "apply_event g e =
     (if \<not> is_organism_event e then (OutcomeNoEffect, g)
      else case index g (EntityID e) of
        None \<Rightarrow> (OutcomeUnknownEntity, g)
      | Some i \<Rightarrow>
          (let (out, o') = apply_rule (organisms g ! i) e
           in (out, g\<lparr>organisms := (organisms g)[i := o']\<rparr>)))"

subsection \<open>Summary and fingerprint\<close>

text \<open>
  \<^verbatim>\<open>float64\<close>: a value is the rational it stands for; \<open>f64_round\<close> rounds a positive rational
  to 53 significant bits, ties to even, which is what the conversion and the division round
  to in the range the summary uses (no overflow, no subnormals).
\<close>

definition f64_exp :: "rat \<Rightarrow> int" where
  "f64_exp q =
     (let (a, b) = quotient_of q; e = bitlen a - bitlen b;
          p = (if 0 \<le> e then 2 ^ nat e else 1 / 2 ^ nat (- e))
      in (if q < p then e - 1 else e) - 52)"

definition round_half_even :: "rat \<Rightarrow> int" where
  "round_half_even q =
     (let f = \<lfloor>q\<rfloor>; r = q - of_int f
      in if r < 1 / 2 then f else if r > 1 / 2 then f + 1 else if even f then f else f + 1)"

definition f64_round :: "rat \<Rightarrow> rat" where
  "f64_round q =
     (if q = 0 then 0
      else (let e = f64_exp \<bar>q\<bar>; u = (if 0 \<le> e then 2 ^ nat e else 1 / 2 ^ nat (- e))
            in of_int (round_half_even (q / u)) * u))"

definition f64_quot :: "int \<Rightarrow> int \<Rightarrow> rat" where
  "f64_quot a b = f64_round (f64_round (of_int a) / f64_round (of_int b))"

record garden_stats =
  gs_Organisms :: int
  gs_Alive :: int
  gs_AverageMoist :: rat
  gs_AverageHP :: rat
  gs_AverageStage :: rat
  gs_TotalStage :: int

definition stats :: "garden \<Rightarrow> garden_stats" where
  "stats g =
     (let os = organisms g; n = int (length os) in
      if os = [] then
        \<lparr>gs_Organisms = n, gs_Alive = 0, gs_AverageMoist = 0, gs_AverageHP = 0,
         gs_AverageStage = 0, gs_TotalStage = 0\<rparr>
      else
        (let (al, moist, hp, stage) =
           fold (\<lambda>o' (al, moist, hp, stage).
                   (if alive o' then al + 1 else al,
                    moist + Moisture o', hp + Health o', stage + Stage o'))
                os (0, 0, 0, 0)
         in \<lparr>gs_Organisms = n, gs_Alive = al, gs_AverageMoist = f64_quot moist n,
             gs_AverageHP = f64_quot hp n, gs_AverageStage = f64_quot stage n,
             gs_TotalStage = stage\<rparr>))"

definition organism_line :: "organism \<Rightarrow> string" where
  "organism_line o' =
     ID o' @ ''|'' @ fmt_d (Moisture o') @ ''|'' @ fmt_d (Health o') @ ''|'' @
     fmt_d (Stage o') @ [CHR 0x0A]"

definition garden_text :: "garden \<Rightarrow> string" where
  "garden_text g = concat (map organism_line (organisms g))"

definition digest :: "garden \<Rightarrow> int list" where
  "digest g = sha256 (garden_text g)"

definition hash :: "garden \<Rightarrow> string" where
  "hash g = hex_encode (digest g)"

subsection \<open>Identifiers and the index\<close>

lemma organism_id_inj: "0 \<le> i \<Longrightarrow> 0 \<le> j \<Longrightarrow> organism_id i = organism_id j \<Longrightarrow> i = j"
  by (auto simp: organism_id_def dest: fmt_0d_inj)

definition id_index :: "nat \<Rightarrow> string \<rightharpoonup> nat" where
  "id_index n = fold (\<lambda>i m. m(organism_id (int i) \<mapsto> i)) [0..<n] Map.empty"

lemma id_index_Suc: "id_index (Suc n) = (id_index n)(organism_id (int n) \<mapsto> n)"
  by (simp add: id_index_def)

lemma id_index_0 [simp]: "id_index 0 = Map.empty"
  by (simp add: id_index_def)

lemma id_index_Some_iff: "id_index n s = Some i \<longleftrightarrow> i < n \<and> s = organism_id (int i)"
proof (induction n)
  case 0
  then show ?case by simp
next
  case (Suc n)
  then show ?case
    using organism_id_inj [of "int n" "int i"] by (auto simp: id_index_Suc less_Suc_eq)
qed

text \<open>The structural invariant, and the ranges the rules keep.\<close>

definition garden_shape :: "garden \<Rightarrow> bool" where
  "garden_shape g \<longleftrightarrow>
     organisms g \<noteq> [] \<and>
     map ID (organisms g) = map (\<lambda>i. organism_id (int i)) [0..<length (organisms g)] \<and>
     index g = id_index (length (organisms g))"

definition organism_ok :: "organism \<Rightarrow> bool" where
  "organism_ok o' \<longleftrightarrow>
     0 \<le> Moisture o' \<and> Moisture o' \<le> max_moisture \<and> 0 \<le> Health o' \<and> Health o' \<le> max_health \<and>
     0 \<le> Stage o' \<and> Stage o' \<le> max_stage"

definition garden_wf :: "garden \<Rightarrow> bool" where
  "garden_wf g \<longleftrightarrow> garden_shape g \<and> list_all organism_ok (organisms g)"

lemma garden_shape_lookup:
  assumes "garden_shape g"
  shows "index g s = Some i \<longleftrightarrow> i < length (organisms g) \<and> s = organism_id (int i)"
  using assms by (simp add: garden_shape_def id_index_Some_iff)

lemma garden_shape_nth_ID:
  assumes "garden_shape g" and "i < length (organisms g)"
  shows "ID (organisms g ! i) = organism_id (int i)"
proof -
  have "map ID (organisms g) ! i = organism_id (int i)"
    using assms by (simp add: garden_shape_def)
  then show ?thesis using assms(2) by simp
qed

lemma new_garden_ok:
  assumes "new_garden n = Inr g"
  shows "garden_wf g" "length (organisms g) = nat n" "1 \<le> n"
  using assms
  by (auto simp: new_garden_def garden_wf_def garden_shape_def id_index_def organism_ok_def
      list_all_iff rule_constants comp_def split: if_splits)

lemma new_garden_Inr_iff: "is_ok (new_garden n) \<longleftrightarrow> 1 \<le> n"
  by (simp add: new_garden_def)

lemma restore_loop_ok:
  "map ID os = map (\<lambda>j. organism_id (int j)) [i..<i + length os] \<Longrightarrow> index g = id_index i \<Longrightarrow>
   restore_loop i os g
     = Inr (g\<lparr>organisms := organisms g @ os, index := id_index (i + length os)\<rparr>)"
proof (induction os arbitrary: i g)
  case Nil
  then show ?case by simp
next
  case (Cons o' os)
  from Cons.prems(1) have "ID o' = organism_id (int i)"
    "map ID os = map (\<lambda>j. organism_id (int j)) [Suc i..<Suc i + length os]"
    by (simp_all add: upt_conv_Cons del: upt_Suc)
  with Cons show ?case by (simp add: id_index_Suc [symmetric])
qed

lemma restore_loop_IDs:
  "restore_loop i os g = Inr g' \<Longrightarrow>
     map ID os = map (\<lambda>j. organism_id (int j)) [i..<i + length os]"
  by (induction os arbitrary: i g) (auto simp: Let_def upt_conv_Cons simp del: upt_Suc split: if_splits)

text \<open>\<open>restore\<close> succeeds exactly on positional IDs, and then inverts \<open>organisms\<close>.\<close>

lemma restore_Inr_iff:
  "restore os = Inr g \<longleftrightarrow> garden_shape g \<and> organisms g = os"
proof
  assume r: "restore os = Inr g"
  then have ne: "os \<noteq> []" and loop: "restore_loop 0 os \<lparr>organisms = [], index = Map.empty\<rparr> = Inr g"
    by (auto simp: restore_def split: if_splits)
  from restore_loop_IDs [OF loop] have ids: "map ID os = map (\<lambda>j. organism_id (int j)) [0..<length os]"
    by simp
  then have "g = \<lparr>organisms = os, index = id_index (length os)\<rparr>"
    using loop restore_loop_ok [of os 0 "\<lparr>organisms = [], index = Map.empty\<rparr>"] by simp
  with ne ids show "garden_shape g \<and> organisms g = os" by (simp add: garden_shape_def)
next
  assume g: "garden_shape g \<and> organisms g = os"
  then have "restore_loop 0 os \<lparr>organisms = [], index = Map.empty\<rparr>
      = Inr \<lparr>organisms = os, index = id_index (length os)\<rparr>"
    using restore_loop_ok [of os 0 "\<lparr>organisms = [], index = Map.empty\<rparr>"]
    by (auto simp: garden_shape_def)
  with g show "restore os = Inr g" by (auto simp: restore_def garden_shape_def)
qed

lemma garden_eqI:
  assumes "garden_shape g" "garden_shape h" "organisms g = organisms h"
  shows "g = h"
  using assms by (simp add: garden_shape_def)

subsection \<open>One rule application\<close>

lemmas rule_defs = apply_rule_def apply_rain_def apply_growth_def apply_pest_def

lemma apply_rule_ID [simp]: "ID (snd (apply_rule o' e)) = ID o'"
  by (simp add: rule_defs)

lemma apply_rule_ok: "organism_ok o' \<Longrightarrow> organism_ok (snd (apply_rule o' e))"
  by (auto simp: rule_defs organism_ok_def clamp_def rule_constants)

lemma apply_rule_outcome: "fst (apply_rule o' e) \<in> {OutcomeApplied, OutcomeNoEffect}"
  by (simp add: rule_defs)

lemma apply_rule_known [simp]: "fst (apply_rule o' e) \<noteq> OutcomeUnknownEntity"
  using apply_rule_outcome [of o' e] by auto

lemma apply_rule_no_effect: "fst (apply_rule o' e) = OutcomeNoEffect \<Longrightarrow> snd (apply_rule o' e) = o'"
  by (auto simp: rule_defs split: if_splits)

lemma apply_rain_changes:
  assumes "organism_ok o'" "fst (apply_rain o' amount) = OutcomeApplied" "in_int64 amount"
  shows "Moisture (snd (apply_rain o' amount)) \<noteq> Moisture o'"
proof -
  let ?m = "Moisture o'"
  from assms have m: "0 \<le> ?m" "?m < 100" and a: "0 < amount" "amount < 2 ^ 63"
    by (auto simp: apply_rain_def organism_ok_def in_int64_def rule_constants split: if_splits)
  from assms(2) have res: "Moisture (snd (apply_rain o' amount)) = clamp (go_int (?m + amount)) 0 100"
    by (auto simp: apply_rain_def rule_constants split: if_splits)
  show ?thesis
  proof (cases "in_int64 (?m + amount)")
    case True
    with m a show ?thesis by (auto simp: res clamp_def)
  next
    case False
    then have "go_int (?m + amount) = ?m + amount - 2 ^ 64" and "0 < ?m"
      using m a go_int_overflow [of "?m + amount"] by (auto simp: in_int64_def)
    with m a show ?thesis by (auto simp: res clamp_def)
  qed
qed

lemma pest_in_range: "organism_ok o' \<Longrightarrow> 0 < amount \<Longrightarrow> in_int64 amount \<Longrightarrow> in_int64 (Health o' - amount)"
  by (auto simp: organism_ok_def in_int64_def rule_constants)

lemma apply_rule_applied:
  assumes "organism_ok o'" "fst (apply_rule o' e) = OutcomeApplied" "in_int64 (Amount (Payload e))"
  shows "snd (apply_rule o' e) \<noteq> o'"
proof -
  consider "Type e = type_rain" | "Type e = type_growth" | "Type e = type_pest"
    using assms(2) by (auto simp: apply_rule_def split: if_splits)
  then show ?thesis
  proof cases
    case 1
    then have "apply_rule o' e = apply_rain o' (Amount (Payload e))" by (simp add: apply_rule_def)
    then show ?thesis using apply_rain_changes assms by metis
  next
    case 2
    then have "Stage (snd (apply_rule o' e)) \<noteq> Stage o'"
      using assms(2) by (auto simp: apply_rule_def apply_growth_def type_defs split: if_splits)
    then show ?thesis by metis
  next
    case 3
    then have "Health (snd (apply_rule o' e)) \<noteq> Health o'"
      using assms pest_in_range [OF assms(1) _ assms(3)]
      by (auto simp: apply_rule_def apply_pest_def type_defs clamp_def alive_def rule_constants
          organism_ok_def split: if_splits)
    then show ?thesis by metis
  qed
qed

lemma apply_rule_stage_mono: "Stage o' \<le> Stage (snd (apply_rule o' e))"
  by (simp add: rule_defs)

lemma apply_rule_dead: "\<not> alive o' \<Longrightarrow> apply_rule o' e = (OutcomeNoEffect, o')"
  by (simp add: rule_defs)

subsection \<open>Events on a garden\<close>

lemma apply_event_cases:
  obtains (system) "\<not> is_organism_event e" "apply_event g e = (OutcomeNoEffect, g)"
  | (unknown) "is_organism_event e" "index g (EntityID e) = None"
      "apply_event g e = (OutcomeUnknownEntity, g)"
  | (target) i where "is_organism_event e" "index g (EntityID e) = Some i"
      "fst (apply_event g e) = fst (apply_rule (organisms g ! i) e)"
      "snd (apply_event g e)
        = g\<lparr>organisms := (organisms g)[i := snd (apply_rule (organisms g ! i) e)]\<rparr>"
proof -
  show ?thesis
  proof (cases "is_organism_event e")
    case False
    then show ?thesis by (intro system) (simp_all add: apply_event_def)
  next
    case org: True
    show ?thesis
    proof (cases "index g (EntityID e)")
      case None
      with org show ?thesis by (intro unknown) (simp_all add: apply_event_def)
    next
      case (Some i)
      with org show ?thesis by (intro target [of i]) (simp_all add: apply_event_def split_beta)
    qed
  qed
qed

lemma apply_event_index [simp]: "index (snd (apply_event g e)) = index g"
  by (rule apply_event_cases [where e = e and g = g]) simp_all

lemma apply_event_length [simp]:
  "length (organisms (snd (apply_event g e))) = length (organisms g)"
  by (rule apply_event_cases [where e = e and g = g]) simp_all

lemma apply_event_IDs [simp]:
  "map ID (organisms (snd (apply_event g e))) = map ID (organisms g)"
proof (rule apply_event_cases [where e = e and g = g])
  fix i assume "snd (apply_event g e)
    = g\<lparr>organisms := (organisms g)[i := snd (apply_rule (organisms g ! i) e)]\<rparr>"
  then show ?thesis
    by (cases "i < length (organisms g)") (simp_all add: list_update_same_map list_update_beyond)
qed simp_all

lemma apply_event_shape: "garden_shape g \<Longrightarrow> garden_shape (snd (apply_event g e))"
  unfolding garden_shape_def by (metis apply_event_IDs apply_event_index apply_event_length length_0_conv)

lemma apply_event_wf:
  assumes "garden_wf g"
  shows "garden_wf (snd (apply_event g e))"
proof -
  have "list_all organism_ok (organisms (snd (apply_event g e)))"
  proof (rule apply_event_cases [where e = e and g = g])
    fix i assume i: "index g (EntityID e) = Some i" and s: "snd (apply_event g e)
      = g\<lparr>organisms := (organisms g)[i := snd (apply_rule (organisms g ! i) e)]\<rparr>"
    have "i < length (organisms g)" using assms i garden_shape_lookup by (auto simp: garden_wf_def)
    then have "organism_ok (organisms g ! i)" using assms by (simp add: garden_wf_def list_all_length)
    then show ?thesis
      using assms s apply_rule_ok set_update_subset_insert
      by (fastforce simp: garden_wf_def list_all_iff)
  qed (use assms in \<open>simp_all add: garden_wf_def\<close>)
  with assms show ?thesis by (simp add: garden_wf_def apply_event_shape)
qed

text \<open>Only the organism the event names can differ afterwards.\<close>

lemma apply_event_frame:
  assumes "garden_shape g" "j < length (organisms g)" "EntityID e \<noteq> organism_id (int j)"
  shows "organisms (snd (apply_event g e)) ! j = organisms g ! j"
proof (rule apply_event_cases [where e = e and g = g])
  fix i assume i: "index g (EntityID e) = Some i" and s: "snd (apply_event g e)
    = g\<lparr>organisms := (organisms g)[i := snd (apply_rule (organisms g ! i) e)]\<rparr>"
  from i assms have "i \<noteq> j" using garden_shape_lookup by auto
  then show ?thesis by (simp add: s)
qed simp_all

lemma apply_event_target:
  assumes "garden_shape g" "i < length (organisms g)" "is_organism_event e"
    "EntityID e = organism_id (int i)"
  shows "fst (apply_event g e) = fst (apply_rule (organisms g ! i) e)"
    "snd (apply_event g e) = g\<lparr>organisms := (organisms g)[i := snd (apply_rule (organisms g ! i) e)]\<rparr>"
proof -
  have "index g (EntityID e) = Some i" using assms garden_shape_lookup by blast
  with assms(3) show "fst (apply_event g e) = fst (apply_rule (organisms g ! i) e)"
    "snd (apply_event g e) = g\<lparr>organisms := (organisms g)[i := snd (apply_rule (organisms g ! i) e)]\<rparr>"
    by (simp_all add: apply_event_def split_beta)
qed

lemma apply_event_applied_iff:
  assumes "garden_wf g" "in_int64 (Amount (Payload e))"
  shows "fst (apply_event g e) = OutcomeApplied \<longleftrightarrow> snd (apply_event g e) \<noteq> g"
proof (rule apply_event_cases [where e = e and g = g])
  fix i assume i: "index g (EntityID e) = Some i"
    and f: "fst (apply_event g e) = fst (apply_rule (organisms g ! i) e)"
    and s: "snd (apply_event g e)
      = g\<lparr>organisms := (organisms g)[i := snd (apply_rule (organisms g ! i) e)]\<rparr>"
  have i': "i < length (organisms g)" using assms i garden_shape_lookup by (auto simp: garden_wf_def)
  then have ok: "organism_ok (organisms g ! i)" using assms by (simp add: garden_wf_def list_all_length)
  have "snd (apply_event g e) = g \<longleftrightarrow> snd (apply_rule (organisms g ! i) e) = organisms g ! i"
  proof
    assume "snd (apply_event g e) = g"
    then have "(organisms g)[i := snd (apply_rule (organisms g ! i) e)] = organisms g"
      using s by (metis garden.select_convs(1) garden.surjective garden.update_convs(1))
    then show "snd (apply_rule (organisms g ! i) e) = organisms g ! i"
      using i' by (metis nth_list_update_eq)
  qed (simp add: s)
  then show ?thesis
    using f apply_rule_outcome [of "organisms g ! i" e] apply_rule_applied [OF ok _ assms(2)]
      apply_rule_no_effect by auto
qed simp_all

text \<open>Death is permanent, growth is never undone, and a dead garden absorbs every event.\<close>

definition all_dead :: "garden \<Rightarrow> bool" where
  "all_dead g \<longleftrightarrow> list_all (\<lambda>o'. \<not> alive o') (organisms g)"

lemma apply_event_mono:
  assumes "garden_shape g" "j < length (organisms g)"
  shows "Stage (organisms g ! j) \<le> Stage (organisms (snd (apply_event g e)) ! j)"
    "\<not> alive (organisms g ! j) \<Longrightarrow> organisms (snd (apply_event g e)) ! j = organisms g ! j"
proof -
  have "Stage (organisms g ! j) \<le> Stage (organisms (snd (apply_event g e)) ! j) \<and>
    (\<not> alive (organisms g ! j) \<longrightarrow> organisms (snd (apply_event g e)) ! j = organisms g ! j)"
  proof (rule apply_event_cases [where e = e and g = g])
    fix i assume "snd (apply_event g e)
      = g\<lparr>organisms := (organisms g)[i := snd (apply_rule (organisms g ! i) e)]\<rparr>"
    then show ?thesis
      using assms apply_rule_stage_mono [of "organisms g ! j" e] apply_rule_dead [of "organisms g ! j" e]
      by (cases "i = j") auto
  qed simp_all
  then show "Stage (organisms g ! j) \<le> Stage (organisms (snd (apply_event g e)) ! j)"
    "\<not> alive (organisms g ! j) \<Longrightarrow> organisms (snd (apply_event g e)) ! j = organisms g ! j"
    by blast+
qed

lemma all_dead_absorbs:
  assumes "garden_shape g" "all_dead g"
  shows "snd (apply_event g e) = g"
proof (rule apply_event_cases [where e = e and g = g])
  fix i assume i: "index g (EntityID e) = Some i" and s: "snd (apply_event g e)
    = g\<lparr>organisms := (organisms g)[i := snd (apply_rule (organisms g ! i) e)]\<rparr>"
  have "i < length (organisms g)" using assms i garden_shape_lookup by auto
  then have "\<not> alive (organisms g ! i)" using assms(2) by (simp add: all_dead_def list_all_length)
  then show ?thesis by (simp add: s apply_rule_dead)
qed simp_all

subsection \<open>The summary and the fingerprint\<close>

lemma stats_counts:
  assumes "organisms g \<noteq> []"
  shows "gs_Organisms (stats g) = int (length (organisms g))"
    "gs_Alive (stats g) = int (length (filter alive (organisms g)))"
    "gs_TotalStage (stats g) = sum_list (map Stage (organisms g))"
    "gs_AverageHP (stats g) = f64_quot (sum_list (map Health (organisms g))) (int (length (organisms g)))"
    "gs_AverageMoist (stats g) = f64_quot (sum_list (map Moisture (organisms g))) (int (length (organisms g)))"
    "gs_AverageStage (stats g) = f64_quot (sum_list (map Stage (organisms g))) (int (length (organisms g)))"
proof -
  have loop: "fold (\<lambda>o' (al, moist, hp, stage).
        (if alive o' then al + 1 else al, moist + Moisture o', hp + Health o', stage + Stage o'))
      os (a, m, h, st)
    = (a + int (length (filter alive os)), m + sum_list (map Moisture os),
       h + sum_list (map Health os), st + sum_list (map Stage os))" for os a m h st
    by (induction os arbitrary: a m h st) auto
  show "gs_Organisms (stats g) = int (length (organisms g))"
    "gs_Alive (stats g) = int (length (filter alive (organisms g)))"
    "gs_TotalStage (stats g) = sum_list (map Stage (organisms g))"
    "gs_AverageHP (stats g) = f64_quot (sum_list (map Health (organisms g))) (int (length (organisms g)))"
    "gs_AverageMoist (stats g) = f64_quot (sum_list (map Moisture (organisms g))) (int (length (organisms g)))"
    "gs_AverageStage (stats g) = f64_quot (sum_list (map Stage (organisms g))) (int (length (organisms g)))"
    using assms by (simp_all add: stats_def loop Let_def)
qed

definition num_char :: "char \<Rightarrow> bool" where
  "num_char c \<longleftrightarrow> is_digit c \<or> c = CHR ''-''"

lemma fmt_d_num_chars: "\<forall>c \<in> set (fmt_d n). num_char c"
  using dec_nat_digits by (auto simp: fmt_d_def num_char_def)

lemma prefix_num_split:
  assumes "xs @ c # r = ys @ d # s" "\<forall>x \<in> set xs. num_char x" "\<forall>y \<in> set ys. num_char y"
    "\<not> num_char c" "\<not> num_char d"
  shows "xs = ys \<and> c # r = d # s"
proof -
  have "takeWhile num_char (xs @ c # r) = xs" "takeWhile num_char (ys @ d # s) = ys"
    using assms(2-5) by (auto simp: takeWhile_append2)
  then have "xs = ys" using assms(1) by metis
  with assms(1) show ?thesis by simp
qed

lemma fmt_d_split:
  assumes "fmt_d m @ c # r = fmt_d n @ c # s" "\<not> num_char c"
  shows "m = n \<and> r = s"
  using prefix_num_split [OF assms(1) fmt_d_num_chars fmt_d_num_chars assms(2) assms(2)]
  by (auto dest: fmt_d_inj)

lemma organism_line_split:
  assumes "ID a = ID b" "organism_line a @ r = organism_line b @ s"
  shows "a = b \<and> r = s"
proof -
  have sep: "\<not> num_char (CHR ''|'')" "\<not> num_char (CHR 0x0A)"
    by (simp_all add: num_char_def is_digit_def)
  from assms have 1: "fmt_d (Moisture a) @ CHR ''|'' # (fmt_d (Health a) @ CHR ''|'' # (fmt_d (Stage a) @ CHR 0x0A # r))
    = fmt_d (Moisture b) @ CHR ''|'' # (fmt_d (Health b) @ CHR ''|'' # (fmt_d (Stage b) @ CHR 0x0A # s))"
    by (simp add: organism_line_def)
  note 2 = fmt_d_split [OF 1 sep(1)]
  note 3 = fmt_d_split [OF conjunct2 [OF 2] sep(1)]
  note 4 = fmt_d_split [OF conjunct2 [OF 3] sep(2)]
  from 2 3 4 assms(1) show ?thesis by simp
qed

lemma organism_line_nonempty [simp]: "organism_line a \<noteq> []"
  by (simp add: organism_line_def)

lemma lines_inj:
  assumes "map ID xs = map (\<lambda>j. organism_id (int j)) [i..<i + length xs]"
    "map ID ys = map (\<lambda>j. organism_id (int j)) [i..<i + length ys]"
    "concat (map organism_line xs) = concat (map organism_line ys)"
  shows "xs = ys"
  using assms
proof (induction xs arbitrary: i ys)
  case Nil
  then show ?case by (cases ys) auto
next
  case (Cons x xs)
  obtain y zs where ys: "ys = y # zs" using Cons.prems(3) by (cases ys) auto
  have hd: "ID x = ID y" and tl: "map ID xs = map (\<lambda>j. organism_id (int j)) [Suc i..<Suc i + length xs]"
    "map ID zs = map (\<lambda>j. organism_id (int j)) [Suc i..<Suc i + length zs]"
    using Cons.prems(1,2) by (simp_all add: ys upt_conv_Cons del: upt_Suc)
  have "x = y \<and> concat (map organism_line xs) = concat (map organism_line zs)"
    using Cons.prems(3) by (intro organism_line_split [OF hd]) (simp add: ys)
  with Cons.IH [OF tl] show ?case by (simp add: ys)
qed

text \<open>Two gardens with the same fingerprint text are the same garden.\<close>

lemma garden_text_inj:
  assumes "garden_shape g" "garden_shape h" "garden_text g = garden_text h"
  shows "g = h"
proof (rule garden_eqI [OF assms(1,2)])
  show "organisms g = organisms h"
    using assms by (intro lines_inj [of _ 0]) (simp_all add: garden_shape_def garden_text_def)
qed

lemma hash_eq_iff_digest: "hash g = hash h \<longleftrightarrow> digest g = digest h"
proof
  assume "hash g = hash h"
  then show "digest g = digest h"
    unfolding hash_def digest_def by (intro hex_encode_inj) (simp_all add: sha256_bytes)
qed (simp add: hash_def)

subsection \<open>Properties of the garden\<close>

definition rain_on :: "int \<Rightarrow> event" where
  "rain_on k =
     \<lparr>EventID = ''e'', Type = type_rain, SchemaVersion = 1, RunID = ''r'', EntityID = organism_id k,
      PartitionKey = ''r'', Sequence = 1, OccurredAt = 0, RecordedAt = 0, Attempt = 1,
      Payload = \<lparr>Amount = 7, Revision = 0\<rparr>\<rparr>"

definition two_plants :: garden where
  "two_plants = projr (new_garden 2)"

lemma two_plants_wf: "garden_wf two_plants" "length (organisms two_plants) = 2" "new_garden 2 = Inr two_plants"
  using new_garden_ok [of 2 two_plants] by (auto simp: two_plants_def new_garden_def)

text \<open>
  C1. A garden built by \<^verbatim>\<open>NewGarden\<close> keeps its shape and its ranges through any sequence of
  events: the number of organisms and their IDs never change, the index leads to the organism
  that carries the ID, moisture and health stay in 0..100 and the stage in 0..5.
\<close>

theorem garden_reachable_wf:
  assumes "new_garden n = Inr g"
  shows "garden_wf (run_list (\<lambda>h e. snd (apply_event h e)) g es) \<and>
    map ID (organisms (run_list (\<lambda>h e. snd (apply_event h e)) g es)) = map ID (organisms g)"
  using new_garden_ok(1) [OF assms]
  by (induction es arbitrary: g) (auto simp: apply_event_wf)

theorem garden_reachable_wf_witness:
  "garden_wf (run_list (\<lambda>h e. snd (apply_event h e)) two_plants [rain_on 1, rain_on 5])"
  using garden_reachable_wf [OF two_plants_wf(3)] by blast

text \<open>
  C2. The outcome \<^verbatim>\<open>Apply\<close> reports is the truth about the garden: \<^verbatim>\<open>OutcomeApplied\<close> exactly when
  the garden changed, \<^verbatim>\<open>OutcomeUnknownEntity\<close> exactly when an organism event names no organism.
\<close>

theorem outcome_reports_change:
  assumes "garden_wf g" "in_int64 (Amount (Payload e))"
  shows "(fst (apply_event g e) = OutcomeApplied \<longleftrightarrow> snd (apply_event g e) \<noteq> g) \<and>
    (fst (apply_event g e) = OutcomeUnknownEntity \<longleftrightarrow> is_organism_event e \<and> get g (EntityID e) = None)"
proof
  show "fst (apply_event g e) = OutcomeApplied \<longleftrightarrow> snd (apply_event g e) \<noteq> g"
    by (rule apply_event_applied_iff [OF assms])
  show "fst (apply_event g e) = OutcomeUnknownEntity \<longleftrightarrow> is_organism_event e \<and> get g (EntityID e) = None"
    by (rule apply_event_cases [where e = e and g = g])
       (auto simp: get_def)
qed

theorem outcome_reports_change_witness:
  "fst (apply_event two_plants (rain_on 1)) = OutcomeApplied \<longleftrightarrow> snd (apply_event two_plants (rain_on 1)) \<noteq> two_plants"
  using outcome_reports_change [OF two_plants_wf(1), of "rain_on 1"] by (simp add: rain_on_def in_int64_def)

text \<open>
  C3. An event changes at most the organism it names; no event undoes growth or revives a
  dead organism, which stays exactly as it died.
\<close>

theorem event_effect_local:
  assumes "garden_shape g" "j < length (organisms g)"
  shows "(EntityID e \<noteq> organism_id (int j) \<longrightarrow> organisms (snd (apply_event g e)) ! j = organisms g ! j) \<and>
    Stage (organisms g ! j) \<le> Stage (organisms (snd (apply_event g e)) ! j) \<and>
    (\<not> alive (organisms g ! j) \<longrightarrow> organisms (snd (apply_event g e)) ! j = organisms g ! j)"
  using apply_event_frame [OF assms] apply_event_mono [OF assms] by blast

theorem event_effect_local_witness:
  "organisms (snd (apply_event two_plants (rain_on 1))) ! 0 = organisms two_plants ! 0"
proof -
  have "EntityID (rain_on 1) \<noteq> organism_id (int 0)"
    using organism_id_inj [of 1 0] by (auto simp: rain_on_def)
  then show ?thesis
    using event_effect_local [of two_plants 0 "rain_on 1"] two_plants_wf by (simp add: garden_wf_def)
qed

text \<open>
  C4. \<^verbatim>\<open>Restore\<close> accepts exactly the organism lists whose IDs are their positions, and returns
  the garden with those organisms and the index of \<^verbatim>\<open>NewGarden\<close>.
\<close>

theorem restore_accepts_iff:
  "restore os = Inr g \<longleftrightarrow>
     os \<noteq> [] \<and> map ID os = map (\<lambda>i. organism_id (int i)) [0..<length os] \<and>
     g = \<lparr>organisms = os, index = id_index (length os)\<rparr>"
  unfolding restore_Inr_iff by (cases g) (auto simp: garden_shape_def)

text \<open>
  C5. The fingerprint identifies a garden up to collisions of SHA-256: two gardens with the
  same \<^verbatim>\<open>Hash\<close> are equal, or their fingerprint texts are two different messages with one digest.
\<close>

theorem hash_identifies_garden:
  assumes "garden_shape g" "garden_shape h" "hash g = hash h"
  shows "g = h \<or> garden_text g \<noteq> garden_text h \<and> sha256 (garden_text g) = sha256 (garden_text h)"
  using garden_text_inj [OF assms(1,2)] assms(3) by (auto simp: hash_eq_iff_digest digest_def)

theorem hash_identifies_garden_witness:
  "projr (restore (organisms two_plants)) = two_plants"
proof -
  have r: "restore (organisms two_plants) = Inr two_plants"
    using two_plants_wf(1) by (simp add: restore_Inr_iff garden_wf_def)
  show ?thesis
    using hash_identifies_garden [of "projr (restore (organisms two_plants))" two_plants] two_plants_wf(1) r
    by (simp add: garden_wf_def)
qed

end
