(* ===== verification/Controls.thy ===== *)
theory Controls
  imports Go_Errors
begin

text \<open>
  \<^verbatim>\<open>internal/domain/controls.go\<close>: the knobs of a run, their validation and the processing
  capacity they imply. \<^verbatim>\<open>TotalWeight\<close> and \<^verbatim>\<open>Capacity\<close> are sums and products of unbounded
  \<^verbatim>\<open>int\<close> fields, so their wrap-around is written out.
\<close>

definition max_events_per_tick :: int where "max_events_per_tick = 1000"
definition max_worker_count :: int where "max_worker_count = 64"
definition max_batch_size :: int where "max_batch_size = max_events_per_tick"

record controls =
  EventsPerTick :: int
  RainWeight :: int
  GrowthWeight :: int
  PestWeight :: int
  WorkerCount :: int
  BatchSize :: int
  FailSnapshotEvery :: int

definition capacity :: "controls \<Rightarrow> int" where
  "capacity c =
     (if WorkerCount c \<le> 0 \<or> BatchSize c \<le> 0 then 0
      else go_int (WorkerCount c * BatchSize c))"

definition total_weight :: "controls \<Rightarrow> int" where
  "total_weight c = go_int (go_int (RainWeight c + GrowthWeight c) + PestWeight c)"

definition invalid_controls :: "piece list \<Rightarrow> go_error" where
  "invalid_controls ps = Errorf (W (Sentinel ErrInvalidControls) # ps)"

definition validate_controls :: "controls \<Rightarrow> go_error option" where
  "validate_controls c =
     (if EventsPerTick c < 1 then
        Some (invalid_controls [T '': events_per_tick must be at least 1, got '', D (EventsPerTick c)])
      else if EventsPerTick c > max_events_per_tick then
        Some (invalid_controls [T '': events_per_tick must not exceed '', D max_events_per_tick,
                                T '', got '', D (EventsPerTick c)])
      else if RainWeight c < 0 then
        Some (invalid_controls [T '': rain_weight must not be negative, got '', D (RainWeight c)])
      else if GrowthWeight c < 0 then
        Some (invalid_controls [T '': growth_weight must not be negative, got '', D (GrowthWeight c)])
      else if PestWeight c < 0 then
        Some (invalid_controls [T '': pest_weight must not be negative, got '', D (PestWeight c)])
      else if total_weight c = 0 then
        Some (invalid_controls [T '': at least one event weight must be positive''])
      else if WorkerCount c < 0 then
        Some (invalid_controls [T '': worker_count must not be negative, got '', D (WorkerCount c)])
      else if WorkerCount c > max_worker_count then
        Some (invalid_controls [T '': worker_count must not exceed '', D max_worker_count,
                                T '', got '', D (WorkerCount c)])
      else if BatchSize c < 0 then
        Some (invalid_controls [T '': batch_size must not be negative, got '', D (BatchSize c)])
      else if BatchSize c > max_batch_size then
        Some (invalid_controls [T '': batch_size must not exceed '', D max_batch_size,
                                T '', got '', D (BatchSize c)])
      else if FailSnapshotEvery c < 0 then
        Some (invalid_controls [T '': fail_snapshot_every must not be negative, got '',
                                D (FailSnapshotEvery c)])
      else None)"

definition default_controls :: controls where
  "default_controls =
     \<lparr>EventsPerTick = 6, RainWeight = 3, GrowthWeight = 2, PestWeight = 1,
      WorkerCount = 0, BatchSize = 0, FailSnapshotEvery = 0\<rparr>"

text \<open>
  What accepted controls mean, and the extra bound (not checked by the code) under which the
  weights do not overflow. Every weight that arrives over the wire is an \<^verbatim>\<open>int32\<close> and
  satisfies it.
\<close>

definition controls_ok :: "controls \<Rightarrow> bool" where
  "controls_ok c \<longleftrightarrow>
     1 \<le> EventsPerTick c \<and> EventsPerTick c \<le> max_events_per_tick \<and>
     0 \<le> RainWeight c \<and> 0 \<le> GrowthWeight c \<and> 0 \<le> PestWeight c \<and> total_weight c \<noteq> 0 \<and>
     0 \<le> WorkerCount c \<and> WorkerCount c \<le> max_worker_count \<and>
     0 \<le> BatchSize c \<and> BatchSize c \<le> max_batch_size \<and> 0 \<le> FailSnapshotEvery c"

definition weights_fit :: "controls \<Rightarrow> bool" where
  "weights_fit c \<longleftrightarrow> RainWeight c + GrowthWeight c + PestWeight c < 2 ^ 63"

lemma validate_controls_None_iff: "validate_controls c = None \<longleftrightarrow> controls_ok c"
  by (auto simp: validate_controls_def controls_ok_def)

lemma validate_controls_error:
  "validate_controls c = Some e \<Longrightarrow> errors_is e (Sentinel ErrInvalidControls)"
  by (auto simp: validate_controls_def invalid_controls_def split: if_splits)

lemma total_weight_fits:
  assumes "controls_ok c" and "weights_fit c"
  shows "total_weight c = RainWeight c + GrowthWeight c + PestWeight c" "0 < total_weight c"
    "total_weight c < 2 ^ 63"
proof -
  have "in_int64 (RainWeight c + GrowthWeight c)"
    "in_int64 (RainWeight c + GrowthWeight c + PestWeight c)"
    using assms by (auto simp: controls_ok_def weights_fit_def in_int64_def)
  then show eq: "total_weight c = RainWeight c + GrowthWeight c + PestWeight c"
    by (simp add: total_weight_def)
  then show "0 < total_weight c" "total_weight c < 2 ^ 63"
    using assms by (auto simp: controls_ok_def weights_fit_def)
qed

lemma capacity_bounds:
  assumes "controls_ok c"
  shows "0 \<le> capacity c" "capacity c \<le> 64000"
    "capacity c = 0 \<longleftrightarrow> WorkerCount c = 0 \<or> BatchSize c = 0"
    "0 < WorkerCount c \<Longrightarrow> 0 < BatchSize c \<Longrightarrow> capacity c = WorkerCount c * BatchSize c"
proof -
  note limits = controls_ok_def max_worker_count_def max_batch_size_def max_events_per_tick_def
  have "WorkerCount c * BatchSize c \<le> 64 * 1000"
    using assms by (intro mult_mono) (auto simp: limits)
  then have prod: "WorkerCount c * BatchSize c \<le> 64000" "0 \<le> WorkerCount c * BatchSize c"
    using assms by (auto simp: limits)
  then have "in_int64 (WorkerCount c * BatchSize c)" by (simp add: in_int64_def)
  then have cap: "capacity c = (if WorkerCount c \<le> 0 \<or> BatchSize c \<le> 0 then 0
      else WorkerCount c * BatchSize c)" by (simp add: capacity_def)
  show "0 \<le> capacity c" "capacity c \<le> 64000" using cap prod by auto
  show "capacity c = 0 \<longleftrightarrow> WorkerCount c = 0 \<or> BatchSize c = 0"
    using cap assms by (auto simp: limits)
  show "0 < WorkerCount c \<Longrightarrow> 0 < BatchSize c \<Longrightarrow> capacity c = WorkerCount c * BatchSize c"
    using cap by simp
qed

lemma default_controls_ok: "controls_ok default_controls" "weights_fit default_controls"
  by (simp_all add: controls_ok_def weights_fit_def default_controls_def total_weight_def go_int_def
      max_events_per_tick_def max_worker_count_def max_batch_size_def)

end
