(* ===== verification/Lcg.thy ===== *)
theory Lcg
  imports Main
begin

text \<open>
  Linear congruential generators modulo a power of two: with an odd increment and a
  multiplier that is \<open>1\<close> modulo \<open>4\<close> the sequence visits every residue. The random source of
  the producer is such a generator on 128 bits, and the rejection loop of \<^verbatim>\<open>rand.IntN\<close>
  terminates because of it.
\<close>

locale lcg =
  fixes mult inc :: nat and bits :: nat
  assumes mult_mod4: "mult mod 4 = 1"
    and inc_odd: "odd inc"
begin

definition step :: "nat \<Rightarrow> nat" where
  "step x = (mult * x + inc) mod 2 ^ bits"

definition geo :: "nat \<Rightarrow> nat" where
  "geo n = (\<Sum>i<n. mult ^ i)"

lemma mult_odd: "odd mult"
  using mult_mod4 by presburger

lemma power_mod4: "mult ^ n mod 4 = 1"
  by (induction n) (simp_all add: mod_mult_eq [symmetric] mult_mod4)

lemma geo_Suc: "geo (Suc n) = geo n + mult ^ n"
  by (simp add: geo_def)

lemma geo_add: "geo (m + n) = geo m + mult ^ m * geo n"
  by (induction n) (simp_all add: geo_def algebra_simps power_add)

lemma geo_parity: "even (geo n) \<longleftrightarrow> even n"
  by (induction n) (auto simp: geo_def mult_odd)

lemma mult_minus_one_geo: "(mult - 1) * geo n = mult ^ n - 1"
proof (induction n)
  case 0
  then show ?case by (simp add: geo_def)
next
  case (Suc n)
  have pos: "1 \<le> mult ^ n" and "1 \<le> mult" using mult_odd by (auto simp: Suc_le_eq odd_pos)
  then have "(mult - 1) * mult ^ n = mult ^ Suc n - mult ^ n"
    by (simp add: algebra_simps)
  moreover have "mult ^ n \<le> mult ^ Suc n" using \<open>1 \<le> mult\<close> by simp
  ultimately show ?case using Suc pos by (simp add: geo_Suc add_mult_distrib2)
qed

lemma power2_dvd_geo: "2 ^ m dvd geo d \<Longrightarrow> 2 ^ m dvd d"
proof (induction m arbitrary: d)
  case 0
  then show ?case by simp
next
  case (Suc m)
  then have "even (geo d)" using dvd_trans [OF _ Suc.prems, of 2] by simp
  then obtain e where d: "d = 2 * e" using geo_parity by blast
  define q where "q = (1 + mult ^ e) div 2"
  have q: "1 + mult ^ e = 2 * q" and "odd q"
    using power_mod4 [of e] unfolding q_def by presburger+
  have "geo d = geo e * (1 + mult ^ e)"
    using geo_add [of e e] by (simp add: d mult_2 [symmetric] distrib_left mult.commute)
  then have "geo d = 2 * (q * geo e)" by (simp only: q mult.commute mult.left_commute)
  with Suc.prems have "2 ^ m dvd q * geo e" by simp
  then have "2 ^ m dvd geo e"
    using \<open>odd q\<close> by (metis coprime_dvd_mult_right_iff coprime_power_left_iff coprime_left_2_iff_odd)
  with Suc.IH show ?case by (simp add: d)
qed

lemma step_pow: "(step ^^ n) x mod 2 ^ bits = (mult ^ n * x + inc * geo n) mod 2 ^ bits"
proof (induction n)
  case 0
  then show ?case by (simp add: geo_def)
next
  case (Suc n)
  have "(step ^^ Suc n) x mod 2 ^ bits = (mult * ((step ^^ n) x mod 2 ^ bits) + inc) mod 2 ^ bits"
    by (simp add: step_def) (metis mod_add_left_eq mod_mult_right_eq)
  also have "\<dots> = (mult * (mult ^ n * x + inc * geo n) + inc) mod 2 ^ bits"
    unfolding Suc by (metis mod_add_left_eq mod_mult_right_eq)
  also have "mult * (mult ^ n * x + inc * geo n) + inc = mult ^ Suc n * x + inc * (1 + mult * geo n)"
    by (simp add: algebra_simps)
  also have "1 + mult * geo n = geo (Suc n)"
    using geo_add [of 1 n] by (simp add: geo_def)
  finally show ?case .
qed

lemma cycle_length:
  assumes x: "x < 2 ^ bits" and "(step ^^ d) x = x"
  shows "2 ^ bits dvd d"
proof -
  have m1: "1 \<le> mult ^ d" using mult_odd by (simp add: Suc_le_eq odd_pos)
  have "(mult ^ d * x + inc * geo d) mod 2 ^ bits = x mod 2 ^ bits"
    using step_pow [of d x] assms by simp
  moreover have "mult ^ d * x + inc * geo d = x + geo d * ((mult - 1) * x + inc)"
  proof -
    have "mult ^ d * x = x + (mult ^ d - 1) * x" using m1 by (simp add: algebra_simps)
    also have "\<dots> = x + geo d * ((mult - 1) * x)"
      by (simp only: mult_minus_one_geo [symmetric] mult.assoc mult.left_commute)
    finally show ?thesis by (simp add: distrib_left mult.commute)
  qed
  ultimately have "2 ^ bits dvd geo d * ((mult - 1) * x + inc)"
    by (metis add_diff_cancel_left' le_add1 mod_eq_dvd_iff_nat)
  moreover have "odd ((mult - 1) * x + inc)" using mult_odd inc_odd by simp
  ultimately have "2 ^ bits dvd geo d"
    by (metis coprime_dvd_mult_left_iff coprime_power_left_iff coprime_left_2_iff_odd)
  then show ?thesis by (rule power2_dvd_geo)
qed

lemma step_less: "(step ^^ n) x < 2 ^ bits" if "x < 2 ^ bits"
  using that by (cases n) (simp_all add: step_def)

lemma visits_all:
  assumes x: "x < 2 ^ bits" and y: "y < 2 ^ bits"
  shows "\<exists>k. (step ^^ k) x = y"
proof -
  let ?f = "\<lambda>k. (step ^^ k) x"
  have aux: "j = k" if "j \<le> k" "k < 2 ^ bits" "?f j = ?f k" for j k
  proof -
    have "(step ^^ (k - j)) (?f j) = ?f j"
      using that by (metis add_diff_inverse_nat comp_apply funpow_add le_add_diff_inverse2)
    with step_less [OF x] have "2 ^ bits dvd k - j" by (intro cycle_length) auto
    with that show ?thesis by (auto dest: dvd_imp_le)
  qed
  have "inj_on ?f {..<2 ^ bits}"
  proof (rule inj_onI)
    fix j k assume "j \<in> {..<2 ^ bits}" "k \<in> {..<2 ^ bits}" "?f j = ?f k"
    then show "j = k" using aux [of j k] aux [of k j] by (metis lessThan_iff nat_le_linear)
  qed
  then have "card (?f ` {..<2 ^ bits}) = card {..<(2::nat) ^ bits}" by (rule card_image)
  moreover have "?f ` {..<2 ^ bits} \<subseteq> {..<2 ^ bits}" using step_less [OF x] by auto
  ultimately have "?f ` {..<2 ^ bits} = {..<2 ^ bits}" by (intro card_subset_eq) auto
  with y show ?thesis by (metis (no_types, lifting) imageE lessThan_iff)
qed

end

end
