(* ===== verification/Go_Rand.thy ===== *)
theory Go_Rand
  imports Prelude Lcg "HOL-Library.Word"
begin

unbundle bit_operations_syntax

text \<open>
  \<^verbatim>\<open>math/rand/v2\<close> as the producer uses it: \<^verbatim>\<open>rand.New(rand.NewPCG(seed1, seed2))\<close> and
  \<^verbatim>\<open>Rand.IntN\<close>. A PCG is two 64-bit words; \<open>pcg_next\<close> is the 128-bit linear congruential
  step, \<open>pcg_uint64\<close> the DXSM output, \<open>uint64n\<close> Lemire's multiply-and-reject draw.

  The rejection loop of \<open>uint64n\<close> has no bound in the source. It is a total function here
  because the generator has full period (theory \<open>Lcg\<close>): some later state yields the output
  \<open>1\<close>, which is accepted for every \<open>n\<close>.
\<close>

type_synonym u64 = "64 word"

record pcg =
  pcg_hi :: u64
  pcg_lo :: u64

definition new_pcg :: "u64 \<Rightarrow> u64 \<Rightarrow> pcg" where
  "new_pcg seed1 seed2 = \<lparr>pcg_hi = seed1, pcg_lo = seed2\<rparr>"

text \<open>\<^verbatim>\<open>bits.Mul64\<close> and \<^verbatim>\<open>bits.Add64\<close>.\<close>

definition mul64 :: "u64 \<Rightarrow> u64 \<Rightarrow> u64 \<times> u64" where
  "mul64 x y = (let p = unat x * unat y in (word_of_nat (p div 2 ^ 64), word_of_nat p))"

definition add64 :: "u64 \<Rightarrow> u64 \<Rightarrow> u64 \<Rightarrow> u64 \<times> u64" where
  "add64 x y carry =
     (let s = unat x + unat y + unat carry in (word_of_nat s, word_of_nat (s div 2 ^ 64)))"

definition mul_hi :: u64 where "mul_hi = 2549297995355413924"
definition mul_lo :: u64 where "mul_lo = 4865540595714422341"
definition inc_hi :: u64 where "inc_hi = 6364136223846793005"
definition inc_lo :: u64 where "inc_lo = 1442695040888963407"
definition cheap_mul :: u64 where "cheap_mul = 0xda942042e4dd58b5"

definition pcg_next :: "pcg \<Rightarrow> pcg" where
  "pcg_next p =
     (let (hi, lo) = mul64 (pcg_lo p) mul_lo;
          hi = hi + (pcg_hi p * mul_lo + pcg_lo p * mul_hi);
          (lo, c) = add64 lo inc_lo 0;
          (hi, _) = add64 hi inc_hi c
      in \<lparr>pcg_hi = hi, pcg_lo = lo\<rparr>)"

definition dxsm :: "pcg \<Rightarrow> u64" where
  "dxsm p =
     (let hi = pcg_hi p; lo = pcg_lo p;
          hi = hi XOR drop_bit 32 hi;
          hi = hi * cheap_mul;
          hi = hi XOR drop_bit 48 hi
      in hi * (lo OR 1))"

definition pcg_uint64 :: "pcg \<Rightarrow> u64 \<times> pcg" where
  "pcg_uint64 p = (let p' = pcg_next p in (dxsm p', p'))"

definition thresh :: "u64 \<Rightarrow> u64" where
  "thresh n = (- n) mod n"

subsection \<open>The generator as a 128-bit congruence\<close>

definition pcg_val :: "pcg \<Rightarrow> nat" where
  "pcg_val p = unat (pcg_hi p) * 2 ^ 64 + unat (pcg_lo p)"

definition mul128 :: nat where
  "mul128 = 2549297995355413924 * 2 ^ 64 + 4865540595714422341"

definition inc128 :: nat where
  "inc128 = 6364136223846793005 * 2 ^ 64 + 1442695040888963407"

interpretation pcg_lcg: lcg mul128 inc128 128
  by unfold_locales (simp_all add: mul128_def inc128_def)

lemma unat_64 [simp]: "unat (w :: u64) < 18446744073709551616"
  using unsigned_less [of w] by simp

lemma unat_of_nat_64: "unat (word_of_nat n :: u64) = n mod 2 ^ 64"
  by (simp add: unsigned_of_nat take_bit_eq_mod)

lemma pcg_val_less: "pcg_val p < 2 ^ 128"
proof -
  have "unat (pcg_hi p) * 2 ^ 64 + unat (pcg_lo p) < Suc (unat (pcg_hi p)) * 2 ^ 64" by simp
  also have "\<dots> \<le> 2 ^ 64 * 2 ^ 64" using unat_64 [of "pcg_hi p"]
    by (intro mult_right_mono) (simp_all add: Suc_le_eq)
  finally show ?thesis by (simp add: pcg_val_def)
qed

lemma pcg_val_parts:
  "pcg_val r div 2 ^ 64 = unat (pcg_hi r)" "pcg_val r mod 2 ^ 64 = unat (pcg_lo r)"
  by (simp_all add: pcg_val_def)

lemma pcg_val_inj: "pcg_val p = pcg_val q \<Longrightarrow> p = q"
  using pcg_val_parts [of p] pcg_val_parts [of q] by (simp add: word_unat_eq_iff)

lemma unat_mul64:
  "unat (fst (mul64 x y)) = unat x * unat y div 2 ^ 64"
  "unat (snd (mul64 x y)) = unat x * unat y mod 2 ^ 64"
proof -
  have "unat x * unat y < 2 ^ 64 * 2 ^ 64"
    using unat_64 [of x] unat_64 [of y] by (intro mult_strict_mono') simp_all
  then have "unat x * unat y div 2 ^ 64 < 2 ^ 64" by (intro less_mult_imp_div_less) simp
  then show "unat (fst (mul64 x y)) = unat x * unat y div 2 ^ 64"
    by (simp only: mul64_def Let_def fst_conv unat_of_nat_64 mod_less)
qed (simp only: mul64_def Let_def snd_conv unat_of_nat_64)

lemma unat_add64:
  "unat (fst (add64 x y c)) = (unat x + unat y + unat c) mod 2 ^ 64"
  "unat (snd (add64 x y c)) = (unat x + unat y + unat c) div 2 ^ 64 mod 2 ^ 64"
  by (simp_all only: add64_def Let_def fst_conv snd_conv unat_of_nat_64)

lemma carry_split:
  fixes b :: nat
  assumes "0 < b"
  shows "((X mod b + ih + s div b) mod b) * b + s mod b = (A * b * b + (X + ih) * b + s) mod (b * b)"
proof -
  have eq: "A * b * b + (X + ih) * b + s = s + (A * b + (X + ih)) * b"
    by (simp add: algebra_simps)
  have d: "(s + (A * b + (X + ih)) * b) div b = X + ih + s div b + A * b"
    using assms by (simp add: div_mult_self1)
  have "(A * b * b + (X + ih) * b + s) mod (b * b)
      = b * ((X + ih + s div b + A * b) mod b) + s mod b"
    unfolding eq mod_mult2_eq d by simp
  also have "(X + ih + s div b + A * b) mod b = (X mod b + ih + s div b) mod b"
    by (metis (no_types, lifting) add.assoc mod_add_left_eq mod_mult_self1)
  finally show ?thesis by (simp only: mult.commute)
qed

lemma pcg_val_next: "pcg_val (pcg_next p) = pcg_lcg.step (pcg_val p)"
proof -
  define B :: nat where "B = 2 ^ 64"
  define h and l and mh and ml and ih and il where
    defs: "h = unat (pcg_hi p)" "l = unat (pcg_lo p)" "mh = unat mul_hi" "ml = unat mul_lo"
      "ih = unat inc_hi" "il = unat inc_lo"
  have words: "mul128 = mh * B + ml" "inc128 = ih * B + il"
    by (simp_all add: defs B_def mul128_def inc128_def mul_hi_def mul_lo_def inc_hi_def inc_lo_def)
  let ?lo1 = "snd (mul64 (pcg_lo p) mul_lo)" and ?hi1 = "fst (mul64 (pcg_lo p) mul_lo)"
  let ?hi2 = "?hi1 + (pcg_hi p * mul_lo + pcg_lo p * mul_hi)"
  let ?s = "l * ml mod B + il" and ?X = "l * ml div B + (h * ml + l * mh)"
  have lo1: "unat ?lo1 = l * ml mod B" and hi1: "unat ?hi1 = l * ml div B"
    by (simp_all only: unat_mul64 defs B_def)
  have hi2: "unat ?hi2 = ?X mod B"
    by (simp add: unat_word_ariths hi1 defs B_def mod_simps)
  have lo: "unat (fst (add64 ?lo1 inc_lo 0)) = ?s mod B"
    by (simp add: unat_add64 lo1 defs B_def)
  have "?s < B + B" by (rule add_less_mono) (simp_all add: B_def defs inc_lo_def)
  then have "?s div B < B" by (intro less_mult_imp_div_less) (simp add: B_def)
  then have c: "unat (snd (add64 ?lo1 inc_lo 0)) = ?s div B"
    using unat_add64(2) [of ?lo1 inc_lo 0] by (simp add: lo1 defs B_def)
  have "pcg_val (pcg_next p) = ((?X mod B + ih + ?s div B) mod B) * B + ?s mod B"
    by (simp add: pcg_next_def pcg_val_def split_beta Let_def unat_add64 hi2 lo c lo1 defs B_def mod_simps)
  also have "\<dots> = (h * mh * B * B + (?X + ih) * B + ?s) mod (B * B)"
    by (rule carry_split) (simp add: B_def)
  also have "h * mh * B * B + (?X + ih) * B + ?s = (mh * B + ml) * (h * B + l) + (ih * B + il)"
    using div_mult_mod_eq [of "l * ml" B] by (simp add: algebra_simps)
  finally have "pcg_val (pcg_next p) = (mul128 * (h * B + l) + inc128) mod (B * B)"
    by (simp only: words)
  moreover have "pcg_val p = h * B + l" by (simp only: pcg_val_def defs B_def)
  ultimately show ?thesis by (simp add: pcg_lcg.step_def B_def)
qed

subsection \<open>Every generator state reaches an accepted draw\<close>

definition accepts :: "u64 \<Rightarrow> pcg \<Rightarrow> bool" where
  "accepts n p \<longleftrightarrow> \<not> snd (mul64 (dxsm p) n) < thresh n"

definition unit_state :: pcg where
  "unit_state = \<lparr>pcg_hi = 0x8b838d03df69589e, pcg_lo = 0\<rparr>"

lemma dxsm_unit_state: "dxsm unit_state = 1"
  by (simp add: dxsm_def unit_state_def cheap_mul_def Let_def)

lemma mul64_one: "snd (mul64 1 n) = n"
  by (simp add: mul64_def)

lemma accepts_unit_state: "accepts n unit_state"
proof (cases "n = 0")
  case True
  then show ?thesis by (simp add: accepts_def dxsm_unit_state mul64_one thresh_def)
next
  case False
  then have "thresh n < n"
    by (simp add: thresh_def word_mod_less_divisor word_gt_0)
  then show ?thesis by (simp add: accepts_def dxsm_unit_state mul64_one)
qed

lemma pcg_val_funpow: "pcg_val ((pcg_next ^^ k) p) = (pcg_lcg.step ^^ k) (pcg_val p)"
  by (induction k) (simp_all add: pcg_val_next)

lemma reaches_accept: "\<exists>k. accepts n ((pcg_next ^^ Suc k) p)"
proof -
  obtain k where "(pcg_lcg.step ^^ k) (pcg_val (pcg_next p)) = pcg_val unit_state"
    using pcg_lcg.visits_all pcg_val_less by metis
  then have "(pcg_next ^^ k) (pcg_next p) = unit_state"
    by (intro pcg_val_inj) (simp add: pcg_val_funpow)
  then have "(pcg_next ^^ Suc k) p = unit_state" by (simp only: funpow_Suc_right comp_apply)
  then show ?thesis using accepts_unit_state by metis
qed

definition draws_left :: "u64 \<Rightarrow> u64 \<Rightarrow> pcg \<Rightarrow> nat" where
  "draws_left n lo p =
     (if lo < thresh n then Suc (LEAST k. accepts n ((pcg_next ^^ Suc k) p)) else 0)"

lemma draws_left_step:
  assumes "lo < thresh n"
  shows "draws_left n (snd (mul64 (dxsm (pcg_next p)) n)) (pcg_next p) < draws_left n lo p"
proof (cases "accepts n (pcg_next p)")
  case True
  with assms show ?thesis by (simp add: draws_left_def accepts_def)
next
  case False
  let ?P = "\<lambda>k. accepts n ((pcg_next ^^ Suc k) p)"
  obtain k where "?P k" using reaches_accept by blast
  moreover have "\<not> ?P 0" using False by simp
  ultimately have "(LEAST k. ?P k) = Suc (LEAST k. ?P (Suc k))" by (rule Least_Suc)
  moreover have "?P (Suc k) = accepts n ((pcg_next ^^ Suc k) (pcg_next p))" for k
    by (simp only: funpow_Suc_right comp_apply)
  ultimately show ?thesis using assms by (simp add: draws_left_def)
qed

subsection \<open>Bounded draws\<close>

function uint64n_loop :: "u64 \<Rightarrow> u64 \<Rightarrow> u64 \<Rightarrow> pcg \<Rightarrow> u64 \<times> pcg" where
  "uint64n_loop n hi lo p =
     (if lo < thresh n
      then let (x, p') = pcg_uint64 p; (hi', lo') = mul64 x n in uint64n_loop n hi' lo' p'
      else (hi, p))"
  by pat_completeness auto
termination
proof (relation "measure (\<lambda>(n, hi, lo, p). draws_left n lo p)")
  fix n hi lo :: u64 and p xp x p' hl hi' lo'
  assume "lo < thresh n" and "xp = pcg_uint64 p" and "(x, p') = xp"
    and "hl = mul64 x n" and "(hi', lo') = hl"
  then show "((n, hi', lo', p'), n, hi, lo, p) \<in> measure (\<lambda>(n, hi, lo, p). draws_left n lo p)"
    using draws_left_step [of lo n p] by (auto simp: pcg_uint64_def Let_def) (metis snd_conv)
qed simp

declare uint64n_loop.simps [simp del]

definition uint64n :: "u64 \<Rightarrow> pcg \<Rightarrow> u64 \<times> pcg" where
  "uint64n n p =
     (if n AND (n - 1) = 0 then (let (x, p') = pcg_uint64 p in (x AND (n - 1), p'))
      else (let (x, p') = pcg_uint64 p; (hi, lo) = mul64 x n
            in if lo < n then uint64n_loop n hi lo p' else (hi, p')))"

text \<open>\<^verbatim>\<open>Rand.IntN\<close>: \<open>None\<close> is the panic on a non-positive argument.\<close>

definition int_n :: "int \<Rightarrow> pcg \<Rightarrow> (int \<times> pcg) option" where
  "int_n n p =
     (if n \<le> 0 then None
      else (let (r, p') = uint64n (word_of_int n) p in Some (sint r, p')))"

subsection \<open>Draws stay in range\<close>

lemma mul64_hi_less:
  assumes "n \<noteq> 0"
  shows "fst (mul64 x n) < n"
proof -
  have "unat x * unat n < unat n * 2 ^ 64"
    using assms unat_64 [of x] by (simp add: mult.commute unat_gt_0)
  then have "unat x * unat n div 2 ^ 64 < unat n" by (rule less_mult_imp_div_less)
  then show ?thesis by (simp only: word_less_nat_alt unat_mul64)
qed

lemma uint64n_loop_less:
  "n \<noteq> 0 \<Longrightarrow> hi < n \<Longrightarrow> fst (uint64n_loop n hi lo p) < n"
proof (induction n hi lo p rule: uint64n_loop.induct)
  case (1 n hi lo p)
  obtain x p' where x: "pcg_uint64 p = (x, p')" by force
  obtain hi' lo' where m: "mul64 x n = (hi', lo')" by force
  have "hi' < n" using mul64_hi_less [OF "1.prems"(1), of x] m by simp
  with 1 x m show ?case by (subst uint64n_loop.simps) simp
qed

lemma uint64n_less:
  assumes "n \<noteq> 0"
  shows "fst (uint64n n p) < n"
proof -
  obtain x p' where x: "pcg_uint64 p = (x, p')" by force
  obtain hi lo where m: "mul64 x n = (hi, lo)" by force
  have "x AND (n - 1) \<le> n - 1" by (rule word_and_le1)
  also have "n - 1 < n" using assms by (simp add: word_less_nat_alt unat_minus_one unat_gt_0)
  finally have "x AND (n - 1) < n" .
  moreover have "hi < n" using mul64_hi_less [OF assms, of x] m by simp
  ultimately show ?thesis
    using uint64n_loop_less [OF assms] x m by (simp add: uint64n_def)
qed

lemma sint_of_small:
  assumes "r < word_of_int n" "0 < n" "n < 2 ^ 63"
  shows "0 \<le> sint (r :: u64) \<and> sint r < n"
proof -
  have "uint (word_of_int n :: u64) = n" using assms by (simp add: unsigned_of_int take_bit_int_eq_self)
  with assms(1) have "uint r < n" by (simp add: word_less_def)
  then have "signed_take_bit 63 (uint r) = uint r"
    using assms uint_nonnegative [of r] by (intro signed_take_bit_int_eq_self) linarith+
  then have "sint r = uint r" by (simp add: sint_uint)
  with \<open>uint r < n\<close> show ?thesis by simp
qed

lemma int_n_range:
  assumes "0 < n" "n < 2 ^ 63"
  obtains r p' where "int_n n p = Some (r, p')" "0 \<le> r" "r < n"
proof -
  obtain r p' where u: "uint64n (word_of_int n) p = (r, p')" by force
  have "uint (word_of_int n :: u64) = n" using assms by (simp add: unsigned_of_int take_bit_int_eq_self)
  then have "(word_of_int n :: u64) \<noteq> 0" using assms by auto
  then have "r < word_of_int n" using uint64n_less [of "word_of_int n" p] u by simp
  with assms have "0 \<le> sint r \<and> sint r < n" by (intro sint_of_small)
  with u assms show ?thesis by (intro that [of "sint r" p']) (auto simp: int_n_def)
qed

lemma int_n_None_iff: "int_n n p = None \<longleftrightarrow> n \<le> 0"
  by (simp add: int_n_def split_beta)

end
