(* ===== verification/Producer.thy ===== *)
theory Producer
  imports Garden Controls Go_Rand
begin

text \<open>
  \<^verbatim>\<open>internal/producer/producer.go\<close>: the deterministic event source. A tick's random stream is
  derived from the seed and the tick; \<open>seq\<close> is the only state. \<open>None\<close> stands for the panic of
  \<^verbatim>\<open>rand.IntN\<close> on a non-positive bound.
\<close>

definition rain_min :: int where "rain_min = 5"
definition rain_max :: int where "rain_max = 25"
definition pest_min :: int where "pest_min = 5"
definition pest_max :: int where "pest_max = 20"

record producer =
  pd_runID :: string
  pd_seed :: int
  pd_seq :: int
  pd_organisms :: int

definition new_producer :: "string \<Rightarrow> int \<Rightarrow> int \<Rightarrow> go_error + producer" where
  "new_producer runID seed orgs =
     (if runID = '''' then Inl (Errorf [T ''producer needs a run id''])
      else if orgs < 1 then Inl (Errorf [T ''producer needs at least 1 organism, got '', D orgs])
      else Inr \<lparr>pd_runID = runID, pd_seed = seed, pd_seq = 0, pd_organisms = orgs\<rparr>)"

definition stream :: "producer \<Rightarrow> int \<Rightarrow> pcg" where
  "stream p tick = new_pcg (word_of_int (pd_seed p)) (word_of_int tick)"

definition resume_producer :: "producer \<Rightarrow> int \<Rightarrow> producer" where
  "resume_producer p seq = p\<lparr>pd_seq := seq\<rparr>"

definition pick_type :: "pcg \<Rightarrow> controls \<Rightarrow> (event_type \<times> pcg) option" where
  "pick_type rng c =
     (case int_n (total_weight c) rng of
        None \<Rightarrow> None
      | Some (roll, rng') \<Rightarrow>
          Some (if roll < RainWeight c then type_rain
                else if roll < go_int (RainWeight c + GrowthWeight c) then type_growth
                else type_pest, rng'))"

definition amount_for :: "pcg \<Rightarrow> event_type \<Rightarrow> (int \<times> pcg) option" where
  "amount_for rng t =
     (if t = type_rain then
        (case int_n (rain_max - rain_min + 1) rng of
           None \<Rightarrow> None | Some (r, rng') \<Rightarrow> Some (rain_min + r, rng'))
      else if t = type_pest then
        (case int_n (pest_max - pest_min + 1) rng of
           None \<Rightarrow> None | Some (r, rng') \<Rightarrow> Some (pest_min + r, rng'))
      else Some (0, rng))"

definition event_id :: "string \<Rightarrow> int \<Rightarrow> string" where
  "event_id runID seq = runID @ ''-'' @ fmt_0d 8 seq"

definition control_event_id :: "string \<Rightarrow> int \<Rightarrow> string" where
  "control_event_id runID seq = runID @ ''-ctl-'' @ fmt_0d 8 seq"

fun tick_loop ::
  "nat \<Rightarrow> string \<Rightarrow> int \<Rightarrow> int \<Rightarrow> controls \<Rightarrow> pcg \<Rightarrow> int \<Rightarrow> event list \<Rightarrow> (event list \<times> int) option" where
  "tick_loop 0 runID orgs tick c rng seq out = Some (out, seq)"
| "tick_loop (Suc n) runID orgs tick c rng seq out =
     (case pick_type rng c of
        None \<Rightarrow> None
      | Some (typ, rng) \<Rightarrow>
          (case int_n orgs rng of
             None \<Rightarrow> None
           | Some (k, rng) \<Rightarrow>
               (let entity = organism_id k; seq = seq + 1 in
                case amount_for rng typ of
                  None \<Rightarrow> None
                | Some (amount, rng) \<Rightarrow>
                    tick_loop n runID orgs tick c rng seq
                      (out @ [\<lparr>EventID = event_id runID seq, Type = typ,
                               SchemaVersion = schema_version, RunID = runID, EntityID = entity,
                               PartitionKey = runID, Sequence = seq, OccurredAt = tick,
                               RecordedAt = 0, Attempt = 1,
                               Payload = \<lparr>Amount = amount, Revision = 0\<rparr>\<rparr>]))))"

definition producer_tick ::
  "producer \<Rightarrow> int \<Rightarrow> controls \<Rightarrow> ((go_error + event list) \<times> producer) option" where
  "producer_tick p tick c =
     (case validate_controls c of
        Some err \<Rightarrow> Some (Inl (Errorf [T ''producer tick '', D tick, T '': '', W err]), p)
      | None \<Rightarrow>
          (case tick_loop (nat (EventsPerTick c)) (pd_runID p) (pd_organisms p) tick c
                  (stream p tick) (pd_seq p) [] of
             None \<Rightarrow> None
           | Some (es, seq) \<Rightarrow> Some (Inr es, p\<lparr>pd_seq := seq\<rparr>)))"

definition control_changed :: "producer \<Rightarrow> int \<Rightarrow> int \<Rightarrow> event \<times> producer" where
  "control_changed p tick revision =
     (let seq = pd_seq p + 1 in
      (\<lparr>EventID = control_event_id (pd_runID p) seq, Type = type_control_changed,
        SchemaVersion = schema_version, RunID = pd_runID p, EntityID = '''',
        PartitionKey = pd_runID p, Sequence = seq, OccurredAt = tick, RecordedAt = 0, Attempt = 1,
        Payload = \<lparr>Amount = 0, Revision = revision\<rparr>\<rparr>,
       p\<lparr>pd_seq := seq\<rparr>))"

subsection \<open>What one draw can be\<close>

definition type_weight :: "controls \<Rightarrow> event_type \<Rightarrow> int" where
  "type_weight c t =
     (if t = type_rain then RainWeight c else if t = type_growth then GrowthWeight c
      else if t = type_pest then PestWeight c else 0)"

definition amount_range :: "event_type \<Rightarrow> int \<Rightarrow> bool" where
  "amount_range t a \<longleftrightarrow>
     (if t = type_rain then rain_min \<le> a \<and> a \<le> rain_max
      else if t = type_pest then pest_min \<le> a \<and> a \<le> pest_max else a = 0)"

lemma pick_type_total:
  assumes "controls_ok c" "weights_fit c"
  obtains t rng' where "pick_type rng c = Some (t, rng')" "0 < type_weight c t"
    "t \<in> {type_rain, type_growth, type_pest}"
proof -
  note w = total_weight_fits [OF assms]
  obtain roll rng' where i: "int_n (total_weight c) rng = Some (roll, rng')"
    and r: "0 \<le> roll" "roll < total_weight c"
    using int_n_range [OF w(2,3)] .
  have "in_int64 (RainWeight c + GrowthWeight c)"
    using assms by (auto simp: controls_ok_def weights_fit_def in_int64_def)
  then have sum: "go_int (RainWeight c + GrowthWeight c) = RainWeight c + GrowthWeight c" by simp
  let ?t = "if roll < RainWeight c then type_rain
    else if roll < RainWeight c + GrowthWeight c then type_growth else type_pest"
  have "0 < type_weight c ?t"
    using r w(1) by (auto simp: type_weight_def type_defs)
  then show ?thesis
    by (intro that [of ?t rng']) (simp_all add: pick_type_def i sum)
qed

lemma amount_for_total:
  obtains a rng' where "amount_for rng t = Some (a, rng')" "amount_range t a"
proof -
  obtain r rng1 where r: "int_n (rain_max - rain_min + 1) rng = Some (r, rng1)" "0 \<le> r" "r < 21"
    using int_n_range [of 21 rng] by (auto simp: rain_max_def rain_min_def)
  obtain q rng2 where q: "int_n (pest_max - pest_min + 1) rng = Some (q, rng2)" "0 \<le> q" "q < 16"
    using int_n_range [of 16 rng] by (auto simp: pest_max_def pest_min_def)
  note bounds = rain_min_def rain_max_def pest_min_def pest_max_def
  show ?thesis
  proof (cases "t = type_rain")
    case True
    with r show ?thesis
      by (intro that [of "rain_min + r" rng1]) (simp_all add: amount_for_def amount_range_def bounds)
  next
    case False
    with q that [of "pest_min + q" rng2] that [of 0 rng] show ?thesis
      by (cases "t = type_pest") (simp_all add: amount_for_def amount_range_def bounds)
  qed
qed

subsection \<open>One tick\<close>

text \<open>An event a tick may emit at sequence number \<open>seq\<close>.\<close>

definition produced :: "string \<Rightarrow> int \<Rightarrow> int \<Rightarrow> controls \<Rightarrow> int \<Rightarrow> event \<Rightarrow> bool" where
  "produced runID orgs tick c seq e \<longleftrightarrow>
     EventID e = event_id runID seq \<and> Sequence e = seq \<and> RunID e = runID \<and> PartitionKey e = runID \<and>
     SchemaVersion e = schema_version \<and> OccurredAt e = tick \<and> RecordedAt e = 0 \<and> Attempt e = 1 \<and>
     Type e \<in> {type_rain, type_growth, type_pest} \<and> 0 < type_weight c (Type e) \<and>
     (\<exists>k. 0 \<le> k \<and> k < orgs \<and> EntityID e = organism_id k) \<and>
     amount_range (Type e) (Amount (Payload e)) \<and> Revision (Payload e) = 0"

lemma tick_loop_total:
  assumes c: "controls_ok c" "weights_fit c" and orgs: "1 \<le> orgs" "orgs < 2 ^ 63"
  shows "\<exists>es. tick_loop n runID orgs tick c rng seq out = Some (out @ es, seq + int n) \<and>
           length es = n \<and> (\<forall>i < n. produced runID orgs tick c (seq + 1 + int i) (es ! i))"
proof (induction n arbitrary: rng seq out)
  case 0
  then show ?case by simp
next
  case (Suc n)
  obtain t rng1 where t: "pick_type rng c = Some (t, rng1)" "0 < type_weight c t"
    "t \<in> {type_rain, type_growth, type_pest}" using pick_type_total [OF c] .
  obtain k rng2 where k: "int_n orgs rng1 = Some (k, rng2)" "0 \<le> k" "k < orgs"
    using int_n_range [of orgs rng1] orgs by auto
  obtain a rng3 where a: "amount_for rng2 t = Some (a, rng3)" "amount_range t a"
    using amount_for_total .
  let ?e = "\<lparr>EventID = event_id runID (seq + 1), Type = t, SchemaVersion = schema_version,
    RunID = runID, EntityID = organism_id k, PartitionKey = runID, Sequence = seq + 1,
    OccurredAt = tick, RecordedAt = 0, Attempt = 1, Payload = \<lparr>Amount = a, Revision = 0\<rparr>\<rparr>"
  obtain es where es: "tick_loop n runID orgs tick c rng3 (seq + 1) (out @ [?e])
      = Some ((out @ [?e]) @ es, seq + 1 + int n)" "length es = n"
    "\<forall>i < n. produced runID orgs tick c (seq + 1 + 1 + int i) (es ! i)" using Suc by blast
  have e: "produced runID orgs tick c (seq + 1) ?e"
    using t k a by (auto simp: produced_def)
  have "produced runID orgs tick c (seq + 1 + int i) ((?e # es) ! i)" if "i < Suc n" for i
    using that e es(3) by (cases i) (auto simp: algebra_simps)
  then show ?case using t(1) k(1) a(1) es(1,2) by (intro exI [of _ "?e # es"]) (auto simp: Let_def)
qed

lemma producer_tick_total:
  assumes "controls_ok c" "weights_fit c" "1 \<le> pd_organisms p" "pd_organisms p < 2 ^ 63"
  obtains es where
    "producer_tick p tick c = Some (Inr es, p\<lparr>pd_seq := pd_seq p + EventsPerTick c\<rparr>)"
    "int (length es) = EventsPerTick c"
    "\<And>i. i < length es \<Longrightarrow>
       produced (pd_runID p) (pd_organisms p) tick c (pd_seq p + 1 + int i) (es ! i)"
proof -
  let ?n = "nat (EventsPerTick c)"
  have n: "int ?n = EventsPerTick c" using assms(1) by (simp add: controls_ok_def)
  have v: "validate_controls c = None" using assms(1) by (simp add: validate_controls_None_iff)
  obtain es where "tick_loop ?n (pd_runID p) (pd_organisms p) tick c (stream p tick) (pd_seq p) []
      = Some (es, pd_seq p + EventsPerTick c)" "length es = ?n"
    "\<forall>i < ?n. produced (pd_runID p) (pd_organisms p) tick c (pd_seq p + 1 + int i) (es ! i)"
    using tick_loop_total [OF assms, of ?n "pd_runID p" tick "stream p tick" "pd_seq p" "[]"] n
    by auto
  with v n show ?thesis by (intro that [of es]) (simp_all add: producer_tick_def)
qed

lemma producer_tick_invalid:
  assumes "\<not> controls_ok c"
  obtains err where "producer_tick p tick c = Some (Inl err, p)"
    "errors_is err (Sentinel ErrInvalidControls)"
proof -
  obtain e where e: "validate_controls c = Some e"
    using assms validate_controls_None_iff [of c] by fastforce
  with validate_controls_error show ?thesis by (intro that) (auto simp: producer_tick_def)
qed

subsection \<open>Identifiers are never reused\<close>

lemma event_id_inj: "0 \<le> i \<Longrightarrow> 0 \<le> j \<Longrightarrow> event_id r i = event_id r j \<Longrightarrow> i = j"
  by (auto simp: event_id_def dest: fmt_0d_inj)

lemma produced_event_ok:
  assumes "produced runID orgs tick c seq e" "runID \<noteq> ''''" "0 \<le> seq" "0 \<le> tick"
  shows "event_ok e" "is_organism_event e" "idempotency_key e = event_id runID seq"
proof -
  have org: "is_organism_event e" using assms by (auto simp: produced_def is_organism_event_def)
  moreover have "EntityID e \<noteq> ''''" using assms by (auto simp: produced_def organism_id_def)
  ultimately show "event_ok e" "is_organism_event e" "idempotency_key e = event_id runID seq"
    using assms organism_event_key [OF org]
    by (auto simp: produced_def event_ok_def event_id_def type_valid_def schema_version_def)
qed

lemma control_changed_ok:
  assumes "pd_runID p \<noteq> ''''" "0 \<le> pd_seq p" "0 \<le> tick"
  shows "event_ok (fst (control_changed p tick n))"
    "\<not> is_organism_event (fst (control_changed p tick n))"
    "idempotency_key (fst (control_changed p tick n))
       = pd_runID p @ '':'' @ type_control_changed @ '':'' @ fmt_d n"
  using assms
  by (auto simp: control_changed_def Let_def event_ok_def type_valid_def is_organism_event_def
      type_defs control_event_id_def schema_version_def idempotency_key_def)

text \<open>A control-change key never equals the key of an organism event of the same run.\<close>

lemma event_id_not_control_key: "event_id r seq \<noteq> r @ '':'' @ t @ '':'' @ s"
  by (simp add: event_id_def)

end
