(* ===== verification/Json_Text.thy ===== *)
theory Json_Text
  imports Go_Text
begin

text \<open>
  \<^verbatim>\<open>encoding/json\<close> at the level of string literals: how \<^verbatim>\<open>Marshal\<close> quotes a Go string (with
  HTML escaping, its default) and how \<^verbatim>\<open>Unmarshal\<close> reads a literal back. A Go string is a
  sequence of bytes; bytes that are not valid UTF-8 are replaced by U+FFFD in both
  directions, so the round trip is stated for valid UTF-8.
\<close>

abbreviation quote_char :: char where "quote_char \<equiv> CHR 0x22"
abbreviation backslash :: char where "backslash \<equiv> CHR 0x5C"

definition byte :: "char \<Rightarrow> nat" where
  "byte c = of_char c"

definition cont :: "nat \<Rightarrow> nat \<Rightarrow> string \<Rightarrow> nat \<Rightarrow> bool" where
  "cont lo hi s i \<longleftrightarrow> i < length s \<and> lo \<le> byte (s ! i) \<and> byte (s ! i) \<le> hi"

text \<open>
  \<^verbatim>\<open>utf8.DecodeRune\<close>: the width of the well-formed sequence at the front, \<open>0\<close> when there is
  none (Go reports \<^verbatim>\<open>RuneError\<close> of width 1).
\<close>

definition utf8_size :: "string \<Rightarrow> nat" where
  "utf8_size s =
     (case s of [] \<Rightarrow> 0
      | c # _ \<Rightarrow>
          (let x = byte c in
           if x < 0x80 then 1
           else if 0xC2 \<le> x \<and> x \<le> 0xDF then (if cont 0x80 0xBF s 1 then 2 else 0)
           else if 0xE0 \<le> x \<and> x \<le> 0xEF then
             (if cont (if x = 0xE0 then 0xA0 else 0x80) (if x = 0xED then 0x9F else 0xBF) s 1 \<and>
                 cont 0x80 0xBF s 2 then 3 else 0)
           else if 0xF0 \<le> x \<and> x \<le> 0xF4 then
             (if cont (if x = 0xF0 then 0x90 else 0x80) (if x = 0xF4 then 0x8F else 0xBF) s 1 \<and>
                 cont 0x80 0xBF s 2 \<and> cont 0x80 0xBF s 3 then 4 else 0)
           else 0))"

definition hex_char :: "nat \<Rightarrow> char" where
  "hex_char d = ''0123456789abcdef'' ! d"

definition html_safe :: "char \<Rightarrow> bool" where
  "html_safe c \<longleftrightarrow> 0x20 \<le> byte c \<and> c \<noteq> quote_char \<and> c \<noteq> backslash \<and>
     c \<noteq> CHR ''<'' \<and> c \<noteq> CHR ''>'' \<and> c \<noteq> CHR ''&''"

definition ascii_escape :: "char \<Rightarrow> string" where
  "ascii_escape c =
     (if html_safe c then [c]
      else if c = backslash \<or> c = quote_char then [backslash, c]
      else if c = CHR 0x08 then [backslash, CHR ''b'']
      else if c = CHR 0x0C then [backslash, CHR ''f'']
      else if c = CHR 0x0A then [backslash, CHR ''n'']
      else if c = CHR 0x0D then [backslash, CHR ''r'']
      else if c = CHR 0x09 then [backslash, CHR ''t'']
      else [backslash, CHR ''u'', CHR ''0'', CHR ''0'', hex_char (byte c div 16), hex_char (byte c mod 16)])"

text \<open>U+2028 and U+2029 are escaped as well; every other valid sequence is copied.\<close>

definition rune_escape :: "string \<Rightarrow> string" where
  "rune_escape bs =
     (if bs = [CHR 0xE2, CHR 0x80, CHR 0xA8] then [backslash, CHR ''u'', CHR ''2'', CHR ''0'', CHR ''2'', CHR ''8'']
      else if bs = [CHR 0xE2, CHR 0x80, CHR 0xA9] then [backslash, CHR ''u'', CHR ''2'', CHR ''0'', CHR ''2'', CHR ''9'']
      else bs)"

fun quote_body :: "string \<Rightarrow> string" where
  "quote_body [] = []"
| "quote_body (c # cs) =
     (if byte c < 0x80 then ascii_escape c @ quote_body cs
      else (let n = utf8_size (c # cs) in
            if n = 0 then backslash # ''ufffd'' @ quote_body cs
            else rune_escape (take n (c # cs)) @ quote_body (drop (n - 1) cs)))"

definition json_quote :: "string \<Rightarrow> string" where
  "json_quote s = quote_char # quote_body s @ [quote_char]"

text \<open>\<^verbatim>\<open>utf8.EncodeRune\<close> and the hexadecimal escape.\<close>

definition encode_rune :: "nat \<Rightarrow> string" where
  "encode_rune r =
     (let b = (\<lambda>n. char_of n) in
      if r < 0x80 then [b r]
      else if r < 0x800 then [b (0xC0 + r div 64), b (0x80 + r mod 64)]
      else if r > 0x10FFFF \<or> (0xD800 \<le> r \<and> r \<le> 0xDFFF) then [CHR 0xEF, CHR 0xBF, CHR 0xBD]
      else if r < 0x10000 then
        [b (0xE0 + r div 4096), b (0x80 + r div 64 mod 64), b (0x80 + r mod 64)]
      else [b (0xF0 + r div 262144), b (0x80 + r div 4096 mod 64), b (0x80 + r div 64 mod 64),
            b (0x80 + r mod 64)])"

definition hex_value :: "char \<Rightarrow> nat option" where
  "hex_value c =
     (let x = byte c in
      if 48 \<le> x \<and> x \<le> 57 then Some (x - 48)
      else if 97 \<le> x \<and> x \<le> 102 then Some (x - 87)
      else if 65 \<le> x \<and> x \<le> 70 then Some (x - 55)
      else None)"

definition hex4 :: "char \<Rightarrow> char \<Rightarrow> char \<Rightarrow> char \<Rightarrow> nat option" where
  "hex4 a b c d =
     (case (hex_value a, hex_value b, hex_value c, hex_value d) of
        (Some w, Some x, Some y, Some z) \<Rightarrow> Some (((w * 16 + x) * 16 + y) * 16 + z)
      | _ \<Rightarrow> None)"

definition simple_escape :: "char \<Rightarrow> char option" where
  "simple_escape c =
     (if c = quote_char \<or> c = backslash \<or> c = CHR ''/'' then Some c
      else if c = CHR ''b'' then Some (CHR 0x08)
      else if c = CHR ''f'' then Some (CHR 0x0C)
      else if c = CHR ''n'' then Some (CHR 0x0A)
      else if c = CHR ''r'' then Some (CHR 0x0D)
      else if c = CHR ''t'' then Some (CHR 0x09)
      else None)"

definition low_surrogate :: "string \<Rightarrow> nat option" where
  "low_surrogate s =
     (case s of
        e # u # a # b # c # d # _ \<Rightarrow>
          if e = backslash \<and> u = CHR ''u'' then
            (case hex4 a b c d of
               Some r \<Rightarrow> if 0xDC00 \<le> r \<and> r \<le> 0xDFFF then Some r else None
             | None \<Rightarrow> None)
          else None
      | _ \<Rightarrow> None)"

definition is_surrogate :: "nat \<Rightarrow> bool" where
  "is_surrogate r \<longleftrightarrow> 0xD800 \<le> r \<and> r \<le> 0xDFFF"

text \<open>
  Reading a literal up to its closing quote. \<open>None\<close> is a syntax error; the second component
  is what follows the closing quote.
\<close>

fun unquote :: "string \<Rightarrow> string \<Rightarrow> (string \<times> string) option" where
  "unquote acc [] = None"
| "unquote acc (c # cs) =
     (if c = quote_char then Some (acc, cs)
      else if c = backslash then
        (case cs of
           [] \<Rightarrow> None
         | e # es \<Rightarrow>
             if e = CHR ''u'' then
               (case es of
                  w # x # y # z # rest \<Rightarrow>
                    (case hex4 w x y z of
                       None \<Rightarrow> None
                     | Some r \<Rightarrow>
                         if is_surrogate r then
                           (case low_surrogate rest of
                              Some r2 \<Rightarrow>
                                if r \<le> 0xDBFF
                                then unquote (acc @ encode_rune
                                       ((r - 0xD800) * 1024 + (r2 - 0xDC00) + 0x10000)) (drop 6 rest)
                                else unquote (acc @ encode_rune 0xFFFD) rest
                            | None \<Rightarrow> unquote (acc @ encode_rune 0xFFFD) rest)
                         else unquote (acc @ encode_rune r) rest)
                | _ \<Rightarrow> None)
             else (case simple_escape e of None \<Rightarrow> None | Some d \<Rightarrow> unquote (acc @ [d]) es))
      else if byte c < 0x20 then None
      else if byte c < 0x80 then unquote (acc @ [c]) cs
      else (let n = utf8_size (c # cs) in
            if n = 0 then unquote (acc @ [CHR 0xEF, CHR 0xBF, CHR 0xBD]) cs
            else unquote (acc @ take n (c # cs)) (drop (n - 1) cs)))"

declare quote_body.simps(2) [simp del] unquote.simps(2) [simp del]

fun utf8_ok :: "string \<Rightarrow> bool" where
  "utf8_ok [] = True"
| "utf8_ok (c # cs) = (utf8_size (c # cs) \<noteq> 0 \<and> utf8_ok (drop (utf8_size (c # cs) - 1) cs))"

declare utf8_ok.simps(2) [simp del]

subsection \<open>Round trip of a literal\<close>

lemma byte_less_256 [simp]: "byte c < 256"
  using of_char_of [of "byte c"] by (simp add: byte_def)

lemma byte_eq_iff: "c = d \<longleftrightarrow> byte c = byte d"
  by (simp add: byte_def)

lemma less_16_cases: "d < 16 \<Longrightarrow> d \<in> {0,1,2,3,4,5,6,7,8,9,10,11,12,13,14,15::nat}"
  by (auto simp: less_Suc_eq numeral_eq_Suc)

lemma hex_value_hex_char: "d < 16 \<Longrightarrow> hex_value (hex_char d) = Some d"
  using less_16_cases [of d] by (auto simp: hex_char_def hex_value_def byte_def)

lemma hex4_byte:
  assumes "byte c < 0x80"
  shows "hex4 (CHR ''0'') (CHR ''0'') (hex_char (byte c div 16)) (hex_char (byte c mod 16)) = Some (byte c)"
proof -
  have "hex_value (CHR ''0'') = Some 0" by (simp add: hex_value_def byte_def)
  moreover have "hex_value (hex_char (byte c div 16)) = Some (byte c div 16)"
    "hex_value (hex_char (byte c mod 16)) = Some (byte c mod 16)"
    using assms by (auto intro!: hex_value_hex_char)
  ultimately show ?thesis by (simp add: hex4_def)
qed

lemma encode_rune_ascii: "byte c < 0x80 \<Longrightarrow> encode_rune (byte c) = [c]"
  by (simp add: encode_rune_def byte_def)

lemma unquote_ascii:
  assumes "byte c < 0x80"
  shows "unquote acc (ascii_escape c @ t) = unquote (acc @ [c]) t"
proof -
  consider (safe) "html_safe c" | (self) "c = backslash \<or> c = quote_char"
    | (short) "c \<in> {CHR 0x08, CHR 0x0C, CHR 0x0A, CHR 0x0D, CHR 0x09}"
    | (hex) "\<not> html_safe c" "c \<notin> {backslash, quote_char, CHR 0x08, CHR 0x0C, CHR 0x0A, CHR 0x0D, CHR 0x09}"
    by blast
  then show ?thesis
  proof cases
    case safe
    then have "\<not> byte c < 0x20" "c \<noteq> quote_char" "c \<noteq> backslash" by (auto simp: html_safe_def)
    with safe assms show ?thesis by (simp add: ascii_escape_def unquote.simps)
  next
    case self
    then have "\<not> html_safe c" by (auto simp: html_safe_def)
    with self show ?thesis by (auto simp: ascii_escape_def unquote.simps simple_escape_def)
  next
    case short
    then show ?thesis
      by (elim insertE) (simp_all add: html_safe_def byte_def ascii_escape_def unquote.simps
          simple_escape_def)
  next
    case hex
    have "\<not> is_surrogate (byte c)" using assms by (simp add: is_surrogate_def)
    with hex assms show ?thesis
      by (simp add: ascii_escape_def unquote.simps hex4_byte encode_rune_ascii)
  qed
qed

lemma utf8_size_le: "utf8_size s \<le> length s"
  by (auto simp: utf8_size_def cont_def Let_def Suc_le_eq split: list.splits)

lemma cont_take: "i < n \<Longrightarrow> n \<le> length s \<Longrightarrow> cont lo hi (take n s @ t) i = cont lo hi s i"
  by (auto simp: cont_def nth_append)

lemma utf8_size_multi: "0x80 \<le> byte c \<Longrightarrow> utf8_size (c # cs) \<in> {0, 2, 3, 4}"
  by (simp add: utf8_size_def Let_def)

lemma utf8_size_prefix:
  assumes "utf8_size s = n" "n \<noteq> 0"
  shows "utf8_size (take n s @ t) = n"
proof -
  obtain c cs where s: "s = c # cs" using assms by (cases s) (auto simp: utf8_size_def)
  have le: "n \<le> length s" using utf8_size_le [of s] assms by simp
  obtain m where m: "n = Suc m" using assms(2) by (cases n) auto
  have hd: "take n s @ t = c # (take m cs @ t)" by (simp add: s m)
  have c: "cont lo hi (c # (take m cs @ t)) i = cont lo hi s i" if "i < n" for lo hi i
    using cont_take [OF that le] by (simp add: s m)
  show ?thesis
    using assms c unfolding hd
    by (auto simp: utf8_size_def Let_def s split: if_splits)
qed

lemma encode_separators:
  "encode_rune 8232 = [CHR 0xE2, CHR 0x80, CHR 0xA8]"
  "encode_rune 8233 = [CHR 0xE2, CHR 0x80, CHR 0xA9]"
  by (simp_all add: encode_rune_def char_of_def bit_0)

lemma unquote_rune:
  assumes "utf8_size (c # cs) = n" "n \<noteq> 0" "0x80 \<le> byte c"
  shows "unquote acc (rune_escape (take n (c # cs)) @ t) = unquote (acc @ take n (c # cs)) t"
proof -
  let ?bs = "take n (c # cs)"
  consider (ls) "?bs = [CHR 0xE2, CHR 0x80, CHR 0xA8]" | (ps) "?bs = [CHR 0xE2, CHR 0x80, CHR 0xA9]"
    | (raw) "rune_escape ?bs = ?bs" unfolding rune_escape_def by presburger
  then show ?thesis
  proof cases
    case ls
    then show ?thesis
      by (simp add: rune_escape_def unquote.simps hex4_def hex_value_def byte_def is_surrogate_def
          encode_separators)
  next
    case ps
    then show ?thesis
      by (simp add: rune_escape_def unquote.simps hex4_def hex_value_def byte_def is_surrogate_def
          encode_separators)
  next
    case raw
    obtain m where m: "n = Suc m" using assms(2) by (cases n) auto
    have le: "m \<le> length cs" using utf8_size_le [of "c # cs"] assms m by simp
    have "c \<noteq> quote_char" "c \<noteq> backslash" using assms(3) by (auto simp: byte_def)
    moreover have "utf8_size (c # (take m cs @ t)) = Suc m"
      using utf8_size_prefix [OF assms(1,2), of t] by (simp add: m)
    moreover have "rune_escape (c # take m cs) = c # take m cs" using raw by (simp add: m)
    ultimately show ?thesis
      using assms(3) le by (simp add: m unquote.simps(2) Let_def)
  qed
qed

lemma unquote_quote_body:
  "utf8_ok s \<Longrightarrow> unquote acc (quote_body s @ quote_char # r) = Some (acc @ s, r)"
proof (induction s arbitrary: acc rule: utf8_ok.induct)
  case 1
  then show ?case by (simp add: unquote.simps)
next
  case (2 c cs)
  let ?n = "utf8_size (c # cs)"
  from 2 have n: "?n \<noteq> 0" and IH: "unquote a (quote_body (drop (?n - 1) cs) @ quote_char # r)
      = Some (a @ drop (?n - 1) cs, r)" for a
    by (simp_all add: utf8_ok.simps)
  show ?case
  proof (cases "byte c < 0x80")
    case True
    then have "?n = 1" by (simp add: utf8_size_def)
    with True IH [of "acc @ [c]"] show ?thesis by (simp add: quote_body.simps unquote_ascii)
  next
    case False
    then have "unquote acc (quote_body (c # cs) @ quote_char # r)
        = unquote (acc @ take ?n (c # cs)) (quote_body (drop (?n - 1) cs) @ quote_char # r)"
      using n unquote_rune [of c cs ?n acc] by (simp add: quote_body.simps Let_def)
    also have "\<dots> = Some (acc @ take ?n (c # cs) @ drop (?n - 1) cs, r)"
      using IH [of "acc @ take ?n (c # cs)"] by simp
    also have "take ?n (c # cs) @ drop (?n - 1) cs = c # cs"
      using n by (cases ?n) simp_all
    finally show ?thesis .
  qed
qed

text \<open>ASCII strings are valid UTF-8.\<close>

definition ascii :: "string \<Rightarrow> bool" where
  "ascii s \<longleftrightarrow> list_all (\<lambda>c. byte c < 0x80) s"

lemma utf8_size_ascii: "byte c < 0x80 \<Longrightarrow> utf8_size (c # cs) = 1"
  by (simp add: utf8_size_def)

lemma ascii_utf8_append: "ascii s \<Longrightarrow> utf8_ok (s @ t) = utf8_ok t"
  by (induction s) (auto simp: ascii_def utf8_ok.simps utf8_size_ascii)

lemma ascii_utf8: "ascii s \<Longrightarrow> utf8_ok s"
  using ascii_utf8_append [of s "[]"] by simp

lemma utf8_ok_append: "utf8_ok s \<Longrightarrow> utf8_ok t \<Longrightarrow> utf8_ok (s @ t)"
proof (induction s rule: utf8_ok.induct)
  case 1
  then show ?case by simp
next
  case (2 c cs)
  let ?n = "utf8_size (c # cs)"
  have n: "?n \<noteq> 0" using 2 by (simp add: utf8_ok.simps)
  have le: "?n - 1 \<le> length cs" using utf8_size_le [of "c # cs"] by simp
  have "take ?n (c # cs) @ drop ?n (c # cs) @ t = (c # cs) @ t" by simp
  then have size: "utf8_size ((c # cs) @ t) = ?n" using utf8_size_prefix [OF refl n] by metis
  have "utf8_ok (drop (?n - 1) cs @ t)" using 2 by (simp add: utf8_ok.simps)
  with n size le show ?case by (simp add: utf8_ok.simps)
qed

end
