(* ===== verification/Json.thy ===== *)
theory Json
  imports Json_Text
begin

text \<open>
  \<^verbatim>\<open>encoding/json\<close> above string literals: documents, \<^verbatim>\<open>Marshal\<close>'s compact printing, and
  \<^verbatim>\<open>Unmarshal\<close> as the two passes it makes, a scan of the whole text with a stack of open
  arrays and objects and a decoding of the document into Go values. Every step of the scan
  consumes at least one byte, so it needs no fuel. A number is kept as its literal text.
\<close>

datatype json =
    JNull
  | JBool bool
  | JNum string
  | JStr string
  | JArr "json list"
  | JObj "(string \<times> json) list"

fun join_with :: "char \<Rightarrow> string list \<Rightarrow> string" where
  "join_with c [] = []"
| "join_with c [s] = s"
| "join_with c (s # t # ss) = s @ c # join_with c (t # ss)"

fun json_print :: "json \<Rightarrow> string" where
  "json_print JNull = ''null''"
| "json_print (JBool b) = (if b then ''true'' else ''false'')"
| "json_print (JNum s) = s"
| "json_print (JStr s) = json_quote s"
| "json_print (JArr vs) = CHR ''['' # join_with (CHR '','') (map json_print vs) @ '']''"
| "json_print (JObj ms) =
     CHR 0x7B # join_with (CHR '','') (map (\<lambda>(k, v). json_quote k @ CHR '':'' # json_print v) ms) @ [CHR 0x7D]"

subsection \<open>Scanning\<close>

definition json_space :: "char \<Rightarrow> bool" where
  "json_space c \<longleftrightarrow> c = CHR 0x20 \<or> c = CHR 0x09 \<or> c = CHR 0x0D \<or> c = CHR 0x0A"

definition span_digits :: "string \<Rightarrow> string \<times> string" where
  "span_digits s = (takeWhile is_digit s, dropWhile is_digit s)"

text \<open>The three parts of a number literal: integer, fraction, exponent.\<close>

definition num_int :: "string \<Rightarrow> (string \<times> string) option" where
  "num_int s =
     (case s of [] \<Rightarrow> None
      | c # cs \<Rightarrow> if c = CHR ''0'' then Some ([c], cs)
                else if is_digit c then Some (span_digits s) else None)"

definition num_frac :: "string \<Rightarrow> (string \<times> string) option" where
  "num_frac s =
     (case s of [] \<Rightarrow> Some ([], [])
      | c # cs \<Rightarrow>
          if c = CHR ''.'' then
            (let (ds, r) = span_digits cs in if ds = [] then None else Some (c # ds, r))
          else Some ([], s))"

definition num_exp :: "string \<Rightarrow> (string \<times> string) option" where
  "num_exp s =
     (case s of [] \<Rightarrow> Some ([], [])
      | c # cs \<Rightarrow>
          if c = CHR ''e'' \<or> c = CHR ''E'' then
            (let (sg, r) = (case cs of [] \<Rightarrow> ([], [])
                            | d # ds \<Rightarrow> if d = CHR ''+'' \<or> d = CHR ''-'' then ([d], ds) else ([], cs));
                 (ds, r') = span_digits r
             in if ds = [] then None else Some (c # sg @ ds, r'))
          else Some ([], s))"

definition num_unsigned :: "string \<Rightarrow> (string \<times> string) option" where
  "num_unsigned s =
     (case num_int s of None \<Rightarrow> None
      | Some (i, r) \<Rightarrow>
          (case num_frac r of None \<Rightarrow> None
           | Some (f, r') \<Rightarrow>
               (case num_exp r' of None \<Rightarrow> None
                | Some (x, r'') \<Rightarrow> Some (i @ f @ x, r''))))"

definition json_number :: "string \<Rightarrow> (string \<times> string) option" where
  "json_number s =
     (case s of [] \<Rightarrow> None
      | c # cs \<Rightarrow>
          if c = CHR ''-'' then
            (case num_unsigned cs of None \<Rightarrow> None | Some (t, r) \<Rightarrow> Some (c # t, r))
          else num_unsigned s)"

datatype frame = InArr "json list" | InObj "(string \<times> json) list" string

datatype mode =
    WantValue | WantValueOrEnd | WantKey "(string \<times> json) list"
  | WantKeyOrEnd | WantColon "(string \<times> json) list" string | GotValue json

definition max_nesting_depth :: nat where "max_nesting_depth = 10000"

definition literal :: "string \<Rightarrow> string \<Rightarrow> string option" where
  "literal word s = (if take (length word) s = word then Some (drop (length word) s) else None)"

definition got :: "json \<Rightarrow> frame list \<Rightarrow> string \<Rightarrow> (frame list \<times> mode \<times> string) option" where
  "got v st r = Some (st, GotValue v, r)"

definition open_value :: "frame list \<Rightarrow> char \<Rightarrow> string \<Rightarrow> (frame list \<times> mode \<times> string) option" where
  "open_value st c cs =
     (if c = CHR ''['' then
        (if Suc (length st) \<le> max_nesting_depth then Some (InArr [] # st, WantValueOrEnd, cs) else None)
      else if c = CHR 0x7B then
        (if Suc (length st) \<le> max_nesting_depth then Some (st, WantKeyOrEnd, cs) else None)
      else if c = quote_char then
        (case unquote [] cs of None \<Rightarrow> None | Some (s, r) \<Rightarrow> got (JStr s) st r)
      else if c = CHR ''n'' then
        (case literal ''ull'' cs of None \<Rightarrow> None | Some r \<Rightarrow> got JNull st r)
      else if c = CHR ''t'' then
        (case literal ''rue'' cs of None \<Rightarrow> None | Some r \<Rightarrow> got (JBool True) st r)
      else if c = CHR ''f'' then
        (case literal ''alse'' cs of None \<Rightarrow> None | Some r \<Rightarrow> got (JBool False) st r)
      else (case json_number (c # cs) of None \<Rightarrow> None | Some (t, r) \<Rightarrow> got (JNum t) st r))"

definition open_key ::
  "(string \<times> json) list \<Rightarrow> frame list \<Rightarrow> char \<Rightarrow> string \<Rightarrow> (frame list \<times> mode \<times> string) option" where
  "open_key ms st c cs =
     (if c = quote_char then
        (case unquote [] cs of None \<Rightarrow> None | Some (k, r) \<Rightarrow> Some (st, WantColon ms k, r))
      else None)"

definition after_value ::
  "json \<Rightarrow> frame list \<Rightarrow> char \<Rightarrow> string \<Rightarrow> (frame list \<times> mode \<times> string) option" where
  "after_value v st c cs =
     (case st of
        [] \<Rightarrow> None
      | InArr vs # st' \<Rightarrow>
          if c = CHR '','' then Some (InArr (vs @ [v]) # st', WantValue, cs)
          else if c = CHR '']'' then got (JArr (vs @ [v])) st' cs else None
      | InObj ms k # st' \<Rightarrow>
          if c = CHR '','' then Some (st', WantKey (ms @ [(k, v)]), cs)
          else if c = CHR 0x7D then got (JObj (ms @ [(k, v)])) st' cs else None)"

definition scan_step ::
  "frame list \<Rightarrow> mode \<Rightarrow> char \<Rightarrow> string \<Rightarrow> (frame list \<times> mode \<times> string) option" where
  "scan_step st m c cs =
     (if json_space c then Some (st, m, cs)
      else case m of
        WantValue \<Rightarrow> open_value st c cs
      | WantValueOrEnd \<Rightarrow>
          if c = CHR '']'' then (case st of _ # st' \<Rightarrow> got (JArr []) st' cs | [] \<Rightarrow> None)
          else open_value st c cs
      | WantKey ms \<Rightarrow> open_key ms st c cs
      | WantKeyOrEnd \<Rightarrow> if c = CHR 0x7D then got (JObj []) st cs else open_key [] st c cs
      | WantColon ms k \<Rightarrow> if c = CHR '':'' then Some (InObj ms k # st, WantValue, cs) else None
      | GotValue v \<Rightarrow> after_value v st c cs)"

lemma unquote_unfold:
  assumes "unquote acc (c # cs) = Some (t, r)"
  shows "r = cs \<or> (\<exists>acc' s'. length s' \<le> length cs \<and> unquote acc' s' = Some (t, r))"
proof -
  have "drop n cs = s' \<Longrightarrow> length s' \<le> length cs" for n s' by auto
  then show ?thesis
    using assms by (force simp: unquote.simps(2) Let_def split: if_splits list.splits option.splits)
qed

lemma unquote_shorter: "unquote acc s = Some (t, r) \<Longrightarrow> length r < length s"
proof (induction s arbitrary: acc rule: length_induct)
  case (1 s)
  then obtain c cs where s: "s = c # cs" by (cases s) auto
  with unquote_unfold "1.prems" consider "r = cs"
    | acc' s' where "length s' \<le> length cs" "unquote acc' s' = Some (t, r)" by blast
  then show ?case
  proof cases
    case 2
    with "1.IH" s have "length r < length s'" by (metis le_imp_less_Suc length_Cons)
    with 2 s show ?thesis by simp
  qed (simp add: s)
qed

lemma span_digits_length: "span_digits s = (t, r) \<Longrightarrow> length r \<le> length s"
  by (auto simp: span_digits_def length_dropWhile_le)

lemma num_int_length: "num_int s = Some (t, r) \<Longrightarrow> length r < length s"
  by (auto simp: num_int_def span_digits_def less_Suc_eq_le length_dropWhile_le
      split: list.splits if_splits)

lemma num_frac_length: "num_frac s = Some (t, r) \<Longrightarrow> length r \<le> length s"
  by (auto simp: num_frac_def le_Suc_eq dest!: span_digits_length split: list.splits if_splits prod.splits)

lemma num_exp_length: "num_exp s = Some (t, r) \<Longrightarrow> length r \<le> length s"
  by (auto simp: num_exp_def le_Suc_eq dest!: span_digits_length split: list.splits if_splits prod.splits)

lemma num_unsigned_length: "num_unsigned s = Some (t, r) \<Longrightarrow> length r < length s"
  by (auto simp: num_unsigned_def split: option.splits
      dest!: num_int_length num_frac_length num_exp_length)

lemma json_number_length: "json_number s = Some (t, r) \<Longrightarrow> length r < length s"
  by (auto simp: json_number_def split: list.splits if_splits option.splits dest: num_unsigned_length)

lemma open_value_length: "open_value st c cs = Some (st', m', r) \<Longrightarrow> length r \<le> length cs"
  by (auto simp: open_value_def got_def literal_def less_Suc_eq_le
      dest!: unquote_shorter json_number_length split: if_splits option.splits)

lemma scan_step_length: "scan_step st m c cs = Some (st', m', r) \<Longrightarrow> length r \<le> length cs"
  by (auto simp: scan_step_def open_key_def after_value_def got_def dest!: unquote_shorter
      dest: open_value_length split: if_splits mode.splits option.splits list.splits frame.splits)

function scan :: "frame list \<Rightarrow> mode \<Rightarrow> string \<Rightarrow> json option" where
  "scan st m [] = (case (st, m) of ([], GotValue v) \<Rightarrow> Some v | _ \<Rightarrow> None)"
| "scan st m (c # cs) =
     (case scan_step st m c cs of None \<Rightarrow> None | Some (st', m', r) \<Rightarrow> scan st' m' r)"
  by pat_completeness auto
termination
  by (relation "measure (\<lambda>(st, m, s). length s)") (auto dest: scan_step_length)

definition json_parse :: "string \<Rightarrow> json option" where
  "json_parse s = scan [] WantValue s"

subsection \<open>Parsing what was printed\<close>

definition num_stop :: "string \<Rightarrow> bool" where
  "num_stop r \<longleftrightarrow> (case r of [] \<Rightarrow> True
     | c # _ \<Rightarrow> \<not> is_digit c \<and> c \<noteq> CHR ''.'' \<and> c \<noteq> CHR ''e'' \<and> c \<noteq> CHR ''E'')"

definition int_text :: "string \<Rightarrow> bool" where
  "int_text s \<longleftrightarrow> (\<exists>n. s = fmt_d n)"

fun json_ok :: "json \<Rightarrow> bool" where
  "json_ok (JNum s) = int_text s"
| "json_ok (JStr s) = utf8_ok s"
| "json_ok (JArr vs) = (\<forall>v \<in> set vs. json_ok v)"
| "json_ok (JObj ms) = (\<forall>p \<in> set ms. utf8_ok (fst p) \<and> json_ok (snd p))"
| "json_ok _ = True"

fun json_depth :: "json \<Rightarrow> nat" where
  "json_depth (JArr vs) = Suc (Max (insert 0 (json_depth ` set vs)))"
| "json_depth (JObj ms) = Suc (Max (insert 0 ((\<lambda>p. json_depth (snd p)) ` set ms)))"
| "json_depth _ = 0"

lemma span_digits_dec: "num_stop r \<Longrightarrow> span_digits (dec_nat n @ r) = (dec_nat n, r)"
  using dec_nat_digits [of n]
  by (cases r) (auto simp: span_digits_def num_stop_def takeWhile_append2 dropWhile_append2)

lemma num_stop_frac: "num_stop r \<Longrightarrow> num_frac r = Some ([], r)"
  by (auto simp: num_frac_def num_stop_def split: list.splits)

lemma num_stop_exp: "num_stop r \<Longrightarrow> num_exp r = Some ([], r)"
  by (auto simp: num_exp_def num_stop_def split: list.splits)

text \<open>Decimal text of a natural number has no leading zero, so it is a JSON integer.\<close>

lemma digit_nonzero: "0 < d \<Longrightarrow> d < 10 \<Longrightarrow> digit d \<noteq> CHR ''0''"
  using less_10_cases [of d] by (auto simp: digit_def)

lemma dec_nat_no_lead: "0 < n \<Longrightarrow> hd (dec_nat n) \<noteq> CHR ''0''"
proof (induction n rule: dec_nat.induct)
  case (1 n)
  then show ?case by (subst dec_nat.simps) (auto simp: digit_nonzero hd_append)
qed

lemma num_int_dec: "num_stop r \<Longrightarrow> num_int (dec_nat n @ r) = Some (dec_nat n, r)"
proof (cases "n = 0")
  case True
  then show ?thesis by (simp add: num_int_def dec_nat.simps digit_def)
next
  case False
  assume "num_stop r"
  with False show ?thesis
    using dec_nat_no_lead [of n] dec_nat_digit_hd [of n] span_digits_dec [of r n]
    by (cases "dec_nat n") (auto simp: num_int_def)
qed

lemma json_number_fmt_d: "num_stop r \<Longrightarrow> json_number (fmt_d n @ r) = Some (fmt_d n, r)"
proof -
  assume r: "num_stop r"
  then have u: "num_unsigned (dec_nat k @ r) = Some (dec_nat k, r)" for k
    by (simp add: num_unsigned_def num_int_dec num_stop_frac num_stop_exp)
  show ?thesis
  proof (cases "n < 0")
    case True
    then show ?thesis by (simp add: fmt_d_def json_number_def u)
  next
    case False
    obtain c cs where c: "dec_nat (nat n) = c # cs" by (cases "dec_nat (nat n)") simp_all
    then have "c \<noteq> CHR ''-''" using dec_nat_digit_hd [of "nat n"] digit_not_sign by auto
    with False c u [of "nat n"] show ?thesis by (simp add: fmt_d_def json_number_def)
  qed
qed

lemma fmt_d_nonempty [simp]: "fmt_d n \<noteq> []"
  by (simp add: fmt_d_def)

lemma fmt_d_hd: "is_digit (hd (fmt_d n)) \<or> hd (fmt_d n) = CHR ''-''"
  using dec_nat_digit_hd by (auto simp: fmt_d_def)

definition value_start :: "char \<Rightarrow> bool" where
  "value_start c \<longleftrightarrow> \<not> json_space c \<and> c \<noteq> CHR '']''"

lemma digit_value_start: "is_digit c \<or> c = CHR ''-'' \<Longrightarrow> value_start c"
  by (auto simp: value_start_def json_space_def is_digit_def)

lemma fmt_d_value_start: "value_start (hd (fmt_d n))"
  using fmt_d_hd by (rule digit_value_start)

lemma json_print_hd:
  assumes "json_ok v"
  obtains c cs where "json_print v = c # cs" "value_start c"
proof -
  have "json_print v \<noteq> [] \<and> value_start (hd (json_print v))"
  proof (cases "\<exists>n. v = JNum (fmt_d n)")
    case True
    then show ?thesis using fmt_d_value_start by auto
  next
    case False
    with assms show ?thesis
      by (cases v) (auto simp: value_start_def json_space_def json_quote_def int_text_def)
  qed
  then show ?thesis using that by (cases "json_print v") auto
qed

lemma scan_value_or_end:
  assumes "json_ok v"
  shows "scan st WantValueOrEnd (json_print v @ r) = scan st WantValue (json_print v @ r)"
  by (rule json_print_hd [OF assms]) (simp add: value_start_def scan_step_def)

lemma open_value_num:
  assumes "num_stop r"
  shows "scan st WantValue (fmt_d n @ r) = scan st (GotValue (JNum (fmt_d n))) r"
proof -
  obtain c cs where c: "fmt_d n = c # cs" by (cases "fmt_d n") simp_all
  then have d: "is_digit c \<or> c = CHR ''-''" using fmt_d_hd [of n] by simp
  then have "c \<noteq> CHR ''['' \<and> c \<noteq> CHR 0x7B \<and> c \<noteq> quote_char \<and> c \<noteq> CHR ''n'' \<and>
    c \<noteq> CHR ''t'' \<and> c \<noteq> CHR ''f''" by (auto simp: is_digit_def)
  moreover have "\<not> json_space c" using digit_value_start [OF d] by (simp add: value_start_def)
  moreover have "json_number (c # (cs @ r)) = Some (fmt_d n, r)"
    using json_number_fmt_d [OF assms, of n] c by simp
  ultimately show ?thesis by (simp add: c scan_step_def open_value_def got_def)
qed

lemma unquote_quoted: "utf8_ok s \<Longrightarrow> unquote [] (quote_body s @ quote_char # r) = Some (s, r)"
  using unquote_quote_body [of s "[]" r] by simp

lemma scan_quoted:
  "utf8_ok s \<Longrightarrow> scan st WantValue (json_quote s @ r) = scan st (GotValue (JStr s)) r"
  by (simp add: json_quote_def scan_step_def json_space_def open_value_def got_def unquote_quoted)

lemma scan_key:
  assumes "utf8_ok k"
  shows "scan st (WantKey ms) (json_quote k @ CHR '':'' # r) = scan (InObj ms k # st) WantValue r"
    "scan st WantKeyOrEnd (json_quote k @ t) = scan st (WantKey []) (json_quote k @ t)"
  using assms
  by (simp_all add: json_quote_def scan_step_def json_space_def open_key_def unquote_quoted)

definition scans :: "json \<Rightarrow> bool" where
  "scans v \<longleftrightarrow> (\<forall>st r. length st + json_depth v \<le> max_nesting_depth \<longrightarrow> num_stop r \<longrightarrow>
     scan st WantValue (json_print v @ r) = scan st (GotValue v) r)"

lemma num_stop_punct [simp]: "num_stop (CHR '','' # r)" "num_stop (CHR '']'' # r)" "num_stop (CHR 0x7D # r)"
  by (simp_all add: num_stop_def is_digit_def)

lemma join_with_Cons: "ss \<noteq> [] \<Longrightarrow> join_with c (s # ss) = s @ c # join_with c ss"
  by (cases ss) simp_all

lemma scan_elements:
  assumes "vs \<noteq> []" "\<forall>v \<in> set vs. scans v \<and> Suc (length st) + json_depth v \<le> max_nesting_depth"
  shows "scan (InArr acc # st) WantValue (join_with (CHR '','') (map json_print vs) @ CHR '']'' # r)
       = scan st (GotValue (JArr (acc @ vs))) r"
  using assms
proof (induction vs arbitrary: acc rule: list_nonempty_induct)
  case (single v)
  then show ?case
    by (simp add: scans_def scan_step_def json_space_def after_value_def got_def)
next
  case (cons v vs)
  then have "scan (InArr acc # st) WantValue
      (join_with (CHR '','') (map json_print (v # vs)) @ CHR '']'' # r)
    = scan (InArr (acc @ [v]) # st) WantValue
      (join_with (CHR '','') (map json_print vs) @ CHR '']'' # r)"
    by (simp add: join_with_Cons scans_def scan_step_def json_space_def after_value_def)
  with cons show ?case by simp
qed

definition print_member :: "string \<times> json \<Rightarrow> string" where
  "print_member = (\<lambda>(k, v). json_quote k @ CHR '':'' # json_print v)"

lemma scan_members:
  assumes "ms \<noteq> []" "\<forall>p \<in> set ms. utf8_ok (fst p) \<and> scans (snd p) \<and>
    Suc (length st) + json_depth (snd p) \<le> max_nesting_depth"
  shows "scan st (WantKey acc) (join_with (CHR '','') (map print_member ms) @ CHR 0x7D # r)
       = scan st (GotValue (JObj (acc @ ms))) r"
  using assms
proof (induction ms arbitrary: acc rule: list_nonempty_induct)
  case (single p)
  then show ?case
    by (simp add: print_member_def split_beta scan_key scans_def scan_step_def json_space_def
        after_value_def got_def)
next
  case (cons p ms)
  then have "scan st (WantKey acc) (join_with (CHR '','') (map print_member (p # ms)) @ CHR 0x7D # r)
    = scan st (WantKey (acc @ [p])) (join_with (CHR '','') (map print_member ms) @ CHR 0x7D # r)"
    by (simp add: join_with_Cons print_member_def split_beta scan_key scans_def scan_step_def
        json_space_def after_value_def)
  with cons show ?case by simp
qed

lemma depth_arr: "v \<in> set vs \<Longrightarrow> Suc (json_depth v) \<le> json_depth (JArr vs)"
  by simp

lemma depth_obj: "p \<in> set ms \<Longrightarrow> Suc (json_depth (snd p)) \<le> json_depth (JObj ms)"
  by simp

lemma scans_json: "json_ok v \<Longrightarrow> scans v"
proof (induction v)
  case (JArr vs)
  show ?case
    unfolding scans_def
  proof (intro allI impI)
    fix st :: "frame list" and r assume d: "length st + json_depth (JArr vs) \<le> max_nesting_depth" "num_stop r"
    have el: "\<forall>v \<in> set vs. scans v \<and> Suc (length st) + json_depth v \<le> max_nesting_depth"
    proof (intro ballI conjI)
      fix v assume v: "v \<in> set vs"
      show "scans v" using JArr v by simp
      show "Suc (length st) + json_depth v \<le> max_nesting_depth"
        using depth_arr [OF v] d(1) by linarith
    qed
    have "scan st WantValue (json_print (JArr vs) @ r)
      = scan (InArr [] # st) WantValueOrEnd (join_with (CHR '','') (map json_print vs) @ CHR '']'' # r)"
      using d by (simp add: scan_step_def json_space_def open_value_def del: scan.simps(1))
    also have "\<dots> = scan st (GotValue (JArr vs)) r"
    proof (cases "vs = []")
      case True
      then show ?thesis by (simp add: scan_step_def json_space_def got_def)
    next
      case False
      then obtain v ws where vs: "vs = v # ws" by (cases vs) auto
      have "json_ok v" using JArr.prems vs by simp
      then have "scan (InArr [] # st) WantValueOrEnd (join_with (CHR '','') (map json_print vs) @ CHR '']'' # r)
        = scan (InArr [] # st) WantValue (join_with (CHR '','') (map json_print vs) @ CHR '']'' # r)"
        by (cases ws) (simp_all add: vs scan_value_or_end del: scan.simps)
      with scan_elements [OF False el, of "[]" r] show ?thesis by simp
    qed
    finally show "scan st WantValue (json_print (JArr vs) @ r) = scan st (GotValue (JArr vs)) r" .
  qed
next
  case (JObj ms)
  show ?case
    unfolding scans_def
  proof (intro allI impI)
    fix st :: "frame list" and r assume d: "length st + json_depth (JObj ms) \<le> max_nesting_depth" "num_stop r"
    have sc: "scans (snd p)" if "p \<in> set ms" for p
      using JObj that by (cases p) (auto simp: snds.simps)
    have el: "\<forall>p \<in> set ms. utf8_ok (fst p) \<and> scans (snd p) \<and>
        Suc (length st) + json_depth (snd p) \<le> max_nesting_depth"
    proof (intro ballI conjI)
      fix p assume p: "p \<in> set ms"
      show "utf8_ok (fst p)" using JObj.prems p by simp
      show "scans (snd p)" by (rule sc [OF p])
      show "Suc (length st) + json_depth (snd p) \<le> max_nesting_depth"
        using depth_obj [OF p] d(1) by linarith
    qed
    have "scan st WantValue (json_print (JObj ms) @ r)
      = scan st WantKeyOrEnd (join_with (CHR '','') (map print_member ms) @ CHR 0x7D # r)"
      using d by (simp add: scan_step_def json_space_def open_value_def print_member_def)
    also have "\<dots> = scan st (GotValue (JObj ms)) r"
    proof (cases "ms = []")
      case True
      then show ?thesis by (simp add: scan_step_def json_space_def got_def)
    next
      case False
      then obtain k v ws where ms: "ms = (k, v) # ws" by (cases ms) auto
      then have "utf8_ok k" using JObj.prems by simp
      then have "scan st WantKeyOrEnd (join_with (CHR '','') (map print_member ms) @ CHR 0x7D # r)
        = scan st (WantKey []) (join_with (CHR '','') (map print_member ms) @ CHR 0x7D # r)"
        by (cases ws) (simp_all add: ms print_member_def scan_key(2))
      with scan_members [OF False el, of "[]" r] show ?thesis by simp
    qed
    finally show "scan st WantValue (json_print (JObj ms) @ r) = scan st (GotValue (JObj ms)) r" .
  qed
qed (auto simp: scans_def scan_quoted int_text_def open_value_num scan_step_def json_space_def
    open_value_def literal_def got_def)

lemma json_parse_print:
  assumes "json_ok v" "json_depth v \<le> max_nesting_depth"
  shows "json_parse (json_print v) = Some v"
  using scans_json [OF assms(1)] assms(2)
  by (auto simp: scans_def json_parse_def num_stop_def dest!: spec [where x = "[]"])

subsection \<open>Decoding into Go values\<close>

text \<open>
  \<^verbatim>\<open>Unmarshal\<close> into a struct: a member whose key is a field's name, exactly or up to case, sets
  the field; unknown members are skipped, \<^verbatim>\<open>null\<close> leaves the field alone, a value of the wrong
  kind is an error (\<open>None\<close>). Two letters outside ASCII fold to ASCII ones: U+017F to S and
  U+212A to K.
\<close>

definition fold_char :: "char \<Rightarrow> char" where
  "fold_char c = (if 97 \<le> byte c \<and> byte c \<le> 122 then char_of (byte c - 32) else c)"

fun fold_key :: "string \<Rightarrow> string" where
  "fold_key [] = []"
| "fold_key (c # cs) =
     (if c = CHR 0xC5 \<and> take 1 cs = [CHR 0xBF] then CHR ''S'' # fold_key (drop 1 cs)
      else if c = CHR 0xE2 \<and> take 2 cs = [CHR 0x84, CHR 0xAA] then CHR ''K'' # fold_key (drop 2 cs)
      else fold_char c # fold_key cs)"

definition key_matches :: "string \<Rightarrow> string \<Rightarrow> bool" where
  "key_matches name k \<longleftrightarrow> k = name \<or> fold_key k = fold_key name"

type_synonym 's field_decoder = "string \<times> (json \<Rightarrow> 's \<Rightarrow> 's option)"

fun decode_members :: "'s field_decoder list \<Rightarrow> (string \<times> json) list \<Rightarrow> 's \<Rightarrow> 's option" where
  "decode_members fs [] s = Some s"
| "decode_members fs ((k, v) # ms) s =
     (case find (\<lambda>f. key_matches (fst f) k) fs of
        None \<Rightarrow> decode_members fs ms s
      | Some f \<Rightarrow> (case snd f v s of None \<Rightarrow> None | Some s' \<Rightarrow> decode_members fs ms s'))"

definition decode_struct :: "'s field_decoder list \<Rightarrow> json \<Rightarrow> 's \<Rightarrow> 's option" where
  "decode_struct fs v s =
     (case v of JNull \<Rightarrow> Some s | JObj ms \<Rightarrow> decode_members fs ms s | _ \<Rightarrow> None)"

definition set_string :: "(string \<Rightarrow> 's \<Rightarrow> 's) \<Rightarrow> json \<Rightarrow> 's \<Rightarrow> 's option" where
  "set_string upd v s = (case v of JNull \<Rightarrow> Some s | JStr t \<Rightarrow> Some (upd t s) | _ \<Rightarrow> None)"

definition set_int :: "(int \<Rightarrow> 's \<Rightarrow> 's) \<Rightarrow> json \<Rightarrow> 's \<Rightarrow> 's option" where
  "set_int upd v s =
     (case v of JNull \<Rightarrow> Some s
      | JNum t \<Rightarrow> (case atoi t of None \<Rightarrow> None | Some n \<Rightarrow> Some (upd n s))
      | _ \<Rightarrow> None)"

definition json_int :: "int \<Rightarrow> json" where
  "json_int n = JNum (fmt_d n)"

lemma set_int_json_int [simp]: "in_int64 n \<Longrightarrow> set_int upd (json_int n) s = Some (upd n s)"
  by (simp add: set_int_def json_int_def atoi_fmt_d)

lemma set_string_JStr [simp]: "set_string upd (JStr t) s = Some (upd t s)"
  by (simp add: set_string_def)

lemma json_ok_int [simp]: "json_ok (json_int n)" "json_depth (json_int n) = 0"
  by (auto simp: json_int_def int_text_def)

lemma decode_members_append:
  "decode_members fs (ms @ ns) s
     = (case decode_members fs ms s of None \<Rightarrow> None | Some s' \<Rightarrow> decode_members fs ns s')"
  by (induction fs ms s rule: decode_members.induct) (auto split: option.splits)

text \<open>Keys of an encoder are the field names themselves: each sets its own field.\<close>

definition fields_distinct :: "'s field_decoder list \<Rightarrow> bool" where
  "fields_distinct fs \<longleftrightarrow> distinct (map (fold_key \<circ> fst) fs)"

lemma find_field:
  assumes "fields_distinct fs" "(k, d) \<in> set fs"
  shows "find (\<lambda>f. key_matches (fst f) k) fs = Some (k, d)"
  using assms unfolding fields_distinct_def
proof (induction fs)
  case (Cons f fs)
  show ?case
  proof (cases "f = (k, d)")
    case False
    then have mem: "(k, d) \<in> set fs" using Cons.prems by simp
    then have "fold_key k \<in> set (map (fold_key \<circ> fst) fs)" by force
    moreover have "(fold_key \<circ> fst) f \<notin> set (map (fold_key \<circ> fst) fs)" using Cons.prems(1) by simp
    ultimately have "fold_key (fst f) \<noteq> fold_key k" by (metis comp_apply)
    then have "\<not> key_matches (fst f) k" by (auto simp: key_matches_def)
    with Cons mem show ?thesis by simp
  qed (simp add: key_matches_def)
qed simp

lemma decode_field:
  assumes "fields_distinct fs" "(k, d) \<in> set fs"
  shows "decode_members fs ((k, v) # ms) s
       = (case d v s of None \<Rightarrow> None | Some s' \<Rightarrow> decode_members fs ms s')"
  by (simp add: find_field [OF assms])

text \<open>An object written in the order of the struct's fields runs their setters in that order.\<close>

fun run_fields :: "'s field_decoder list \<Rightarrow> json list \<Rightarrow> 's \<Rightarrow> 's option" where
  "run_fields (f # fs) (v # vs) s = (case snd f v s of None \<Rightarrow> None | Some s' \<Rightarrow> run_fields fs vs s')"
| "run_fields _ _ s = Some s"

lemma decode_members_in_order:
  assumes "fields_distinct fs" "set gs \<subseteq> set fs" "length vs = length gs"
  shows "decode_members fs (zip (map fst gs) vs) s = run_fields gs vs s"
  using assms(2,3)
proof (induction gs arbitrary: vs s)
  case (Cons g gs)
  then obtain v ws where vs: "vs = v # ws" by (cases vs) auto
  have "decode_members fs ((fst g, v) # zip (map fst gs) ws) s
      = (case snd g v s of None \<Rightarrow> None | Some s' \<Rightarrow> decode_members fs (zip (map fst gs) ws) s')"
    using decode_field [OF assms(1), of "fst g" "snd g"] Cons.prems(1) by simp
  then show ?case
    using Cons vs by (auto simp del: decode_members.simps split: option.splits)
qed simp

lemma decode_struct_in_order:
  assumes "fields_distinct fs" "length vs = length fs" "ms = zip (map fst fs) vs"
  shows "decode_struct fs (JObj ms) s = run_fields fs vs s"
  using decode_members_in_order [OF assms(1) _ assms(2)] assms(3) by (simp add: decode_struct_def)

end
