(* ===== verification/Codec.thy ===== *)
theory Codec
  imports Events Json "HOL-Library.Word"
begin

text \<open>
  \<^verbatim>\<open>internal/event/codec.go\<close>: the durable record of an event. \<open>core_event\<close> is the record type
  of the event log; its own \<^verbatim>\<open>Validate\<close> belongs to the log package and is the parameter
  \<open>core_validate\<close>. The body is a JSON object with the fields in the order of the struct.
\<close>

record core_event =
  rec_Key :: string
  rec_Time :: int
  rec_Schema :: "16 word"
  rec_Payload :: string

definition max_uint16 :: int where "max_uint16 = 65535"

definition data_json :: "payload \<Rightarrow> json" where
  "data_json d =
     JObj ((if Amount d = 0 then [] else [(''amount'', json_int (Amount d))]) @
           (if Revision d = 0 then [] else [(''revision'', json_int (Revision d))]))"

definition body_json :: "event \<Rightarrow> json" where
  "body_json e =
     JObj ([(''event_id'', JStr (EventID e)), (''event_type'', JStr (Type e)),
            (''run_id'', JStr (RunID e))] @
           (if EntityID e = '''' then [] else [(''entity_id'', JStr (EntityID e))]) @
           [(''sequence'', json_int (Sequence e)), (''attempt'', json_int (Attempt e)),
            (''payload'', data_json (Payload e))])"

definition to_core :: "(core_event \<Rightarrow> go_error option) \<Rightarrow> event \<Rightarrow> go_error + core_event" where
  "to_core core_validate e =
     (case validate_event e of
        Some err \<Rightarrow> Inl err
      | None \<Rightarrow>
          if SchemaVersion e > max_uint16 then
            Inl (Errorf [W (Sentinel ErrInvalidEvent), T '': schema_version '', D (SchemaVersion e),
                         T '' exceeds the record header uint16''])
          else
            (let rec = \<lparr>rec_Key = PartitionKey e, rec_Time = OccurredAt e,
                        rec_Schema = word_of_int (SchemaVersion e), rec_Payload = json_print (body_json e)\<rparr>
             in case core_validate rec of
                  Some err \<Rightarrow> Inl (Errorf [T ''event '', T (EventID e),
                                           T '' is not a valid record: '', W err])
                | None \<Rightarrow> Inr rec))"

record body =
  b_EventID :: string
  b_Type :: string
  b_RunID :: string
  b_EntityID :: string
  b_Sequence :: int
  b_Attempt :: int
  b_Data :: payload

definition zero_payload :: payload where
  "zero_payload = \<lparr>Amount = 0, Revision = 0\<rparr>"

definition zero_body :: body where
  "zero_body = \<lparr>b_EventID = '''', b_Type = '''', b_RunID = '''', b_EntityID = '''',
     b_Sequence = 0, b_Attempt = 0, b_Data = zero_payload\<rparr>"

definition data_fields :: "payload field_decoder list" where
  "data_fields =
     [(''amount'', set_int (\<lambda>n d. d\<lparr>Amount := n\<rparr>)),
      (''revision'', set_int (\<lambda>n d. d\<lparr>Revision := n\<rparr>))]"

definition set_data :: "json \<Rightarrow> body \<Rightarrow> body option" where
  "set_data v b =
     (case decode_struct data_fields v (b_Data b) of
        None \<Rightarrow> None | Some d \<Rightarrow> Some (b\<lparr>b_Data := d\<rparr>))"

definition body_fields :: "body field_decoder list" where
  "body_fields =
     [(''event_id'', set_string (\<lambda>t b. b\<lparr>b_EventID := t\<rparr>)),
      (''event_type'', set_string (\<lambda>t b. b\<lparr>b_Type := t\<rparr>)),
      (''run_id'', set_string (\<lambda>t b. b\<lparr>b_RunID := t\<rparr>)),
      (''entity_id'', set_string (\<lambda>t b. b\<lparr>b_EntityID := t\<rparr>)),
      (''sequence'', set_int (\<lambda>n b. b\<lparr>b_Sequence := n\<rparr>)),
      (''attempt'', set_int (\<lambda>n b. b\<lparr>b_Attempt := n\<rparr>)),
      (''payload'', set_data)]"

definition unmarshal_body :: "string \<Rightarrow> body option" where
  "unmarshal_body s =
     (case json_parse s of None \<Rightarrow> None | Some v \<Rightarrow> decode_struct body_fields v zero_body)"

definition event_of_record :: "core_event \<Rightarrow> body \<Rightarrow> event" where
  "event_of_record rec b =
     \<lparr>EventID = b_EventID b, Type = b_Type b, SchemaVersion = uint (rec_Schema rec), RunID = b_RunID b,
      EntityID = b_EntityID b, PartitionKey = rec_Key rec, Sequence = b_Sequence b,
      OccurredAt = rec_Time rec, RecordedAt = 0, Attempt = b_Attempt b, Payload = b_Data b\<rparr>"

definition from_core :: "core_event \<Rightarrow> go_error + event" where
  "from_core rec =
     (case unmarshal_body (rec_Payload rec) of
        None \<Rightarrow> Inl (Errorf [W (Sentinel ErrInvalidEvent), T '': decode record payload: '',
                             W (Lib ''encoding/json'')])
      | Some b \<Rightarrow>
          (let e = event_of_record rec b in
           case validate_event e of Some err \<Rightarrow> Inl err | None \<Rightarrow> Inr e))"

subsection \<open>Round trip\<close>

text \<open>
  The events whose encoding is faithful: strings are UTF-8 (an invalid byte becomes U+FFFD in
  JSON) and the integers are Go's.
\<close>

definition encodable :: "event \<Rightarrow> bool" where
  "encodable e \<longleftrightarrow> utf8_ok (EventID e) \<and> utf8_ok (Type e) \<and> utf8_ok (RunID e) \<and> utf8_ok (EntityID e) \<and>
     in_int64 (Sequence e) \<and> in_int64 (Attempt e) \<and> in_int64 (Amount (Payload e)) \<and>
     in_int64 (Revision (Payload e))"

lemma utf8_names:
  "utf8_ok ''event_id''" "utf8_ok ''event_type''" "utf8_ok ''run_id''" "utf8_ok ''entity_id''"
  "utf8_ok ''sequence''" "utf8_ok ''attempt''" "utf8_ok ''payload''" "utf8_ok ''amount''"
  "utf8_ok ''revision''"
  by (simp_all add: ascii_utf8 ascii_def byte_def)

lemma body_json_ok: "encodable e \<Longrightarrow> json_ok (body_json e)"
  by (auto simp: body_json_def data_json_def encodable_def utf8_names)

lemma body_json_depth: "json_depth (body_json e) \<le> max_nesting_depth"
  by (simp add: body_json_def data_json_def max_nesting_depth_def)

lemma data_fields_distinct: "fields_distinct data_fields"
  by (simp add: fields_distinct_def data_fields_def fold_char_def byte_def)

lemma body_fields_distinct: "fields_distinct body_fields"
  by (simp add: fields_distinct_def body_fields_def fold_char_def byte_def)

lemma decode_data_json:
  assumes "in_int64 (Amount d)" "in_int64 (Revision d)"
  shows "decode_struct data_fields (data_json d) zero_payload = Some d"
proof -
  note field = decode_field [OF data_fields_distinct]
  have "(''amount'', set_int (\<lambda>n d. d\<lparr>Amount := n\<rparr>)) \<in> set data_fields"
    "(''revision'', set_int (\<lambda>n d. d\<lparr>Revision := n\<rparr>)) \<in> set data_fields"
    by (simp_all add: data_fields_def)
  note field [OF this(1)] field [OF this(2)]
  with assms show ?thesis
    by (simp add: decode_struct_def data_json_def zero_payload_def del: decode_members.simps(2))
qed

lemma body_field_mem:
  "(''event_id'', set_string (\<lambda>t b. b\<lparr>b_EventID := t\<rparr>)) \<in> set body_fields"
  "(''event_type'', set_string (\<lambda>t b. b\<lparr>b_Type := t\<rparr>)) \<in> set body_fields"
  "(''run_id'', set_string (\<lambda>t b. b\<lparr>b_RunID := t\<rparr>)) \<in> set body_fields"
  "(''entity_id'', set_string (\<lambda>t b. b\<lparr>b_EntityID := t\<rparr>)) \<in> set body_fields"
  "(''sequence'', set_int (\<lambda>n b. b\<lparr>b_Sequence := n\<rparr>)) \<in> set body_fields"
  "(''attempt'', set_int (\<lambda>n b. b\<lparr>b_Attempt := n\<rparr>)) \<in> set body_fields"
  "(''payload'', set_data) \<in> set body_fields"
  by (simp_all add: body_fields_def)

definition body_of :: "event \<Rightarrow> body" where
  "body_of e = \<lparr>b_EventID = EventID e, b_Type = Type e, b_RunID = RunID e, b_EntityID = EntityID e,
     b_Sequence = Sequence e, b_Attempt = Attempt e, b_Data = Payload e\<rparr>"

lemma unmarshal_marshal:
  assumes "encodable e"
  shows "unmarshal_body (json_print (body_json e)) = Some (body_of e)"
proof -
  note fields = body_field_mem [THEN decode_field [OF body_fields_distinct]]
  have data: "set_data (data_json (Payload e)) b = Some (b\<lparr>b_Data := Payload e\<rparr>)"
    if "b_Data b = zero_payload" for b
    using assms decode_data_json [of "Payload e"] that by (simp add: set_data_def encodable_def)
  have "decode_struct body_fields (body_json e) zero_body = Some (body_of e)"
    using assms
    by (simp add: decode_struct_def body_json_def fields data body_of_def zero_body_def encodable_def
        del: decode_members.simps(2))
  then show ?thesis
    using json_parse_print [OF body_json_ok [OF assms] body_json_depth] by (simp add: unmarshal_body_def)
qed

text \<open>
  The events a log can hold and give back as they are, keyed by their run as the producer keys
  them, and the record each becomes. What the code relies on of the log's own \<^verbatim>\<open>Validate\<close> is that
  it accepts those records (the first test of \<^verbatim>\<open>codec_test.go\<close>); \<open>validates_loggable\<close> says nothing
  of any other record.
\<close>

definition loggable :: "event \<Rightarrow> bool" where
  "loggable e \<longleftrightarrow> event_ok e \<and> encodable e \<and> RecordedAt e = 0 \<and> SchemaVersion e \<le> max_uint16 \<and>
     PartitionKey e = RunID e"

definition record_of :: "event \<Rightarrow> core_event" where
  "record_of e = \<lparr>rec_Key = PartitionKey e, rec_Time = OccurredAt e,
     rec_Schema = word_of_int (SchemaVersion e), rec_Payload = json_print (body_json e)\<rparr>"

definition validates_loggable :: "(core_event \<Rightarrow> go_error option) \<Rightarrow> bool" where
  "validates_loggable v \<longleftrightarrow> (\<forall>e. loggable e \<longrightarrow> v (record_of e) = None)"

lemma to_core_Inr_iff:
  "to_core v e = Inr rec \<longleftrightarrow>
     event_ok e \<and> SchemaVersion e \<le> max_uint16 \<and> v rec = None \<and>
     rec = \<lparr>rec_Key = PartitionKey e, rec_Time = OccurredAt e, rec_Schema = word_of_int (SchemaVersion e),
            rec_Payload = json_print (body_json e)\<rparr>"
  by (cases "event_ok e")
     (auto simp: to_core_def Let_def validate_event_None_iff [symmetric] split: option.splits if_splits)

lemma to_core_loggable: "validates_loggable v \<Longrightarrow> loggable e \<Longrightarrow> to_core v e = Inr (record_of e)"
  by (simp add: to_core_Inr_iff validates_loggable_def loggable_def record_of_def)

lemma from_core_to_core:
  assumes "to_core v e = Inr rec" "encodable e"
  shows "from_core rec = Inr (e\<lparr>RecordedAt := 0\<rparr>)"
proof -
  from assms(1) have ok: "event_ok e" and rec: "rec = \<lparr>rec_Key = PartitionKey e,
      rec_Time = OccurredAt e, rec_Schema = word_of_int (SchemaVersion e), rec_Payload = json_print (body_json e)\<rparr>"
    by (auto simp: to_core_Inr_iff)
  have "0 < SchemaVersion e" "SchemaVersion e < 2 ^ 16"
    using assms(1) by (auto simp: to_core_Inr_iff event_ok_def max_uint16_def)
  then have "uint (word_of_int (SchemaVersion e) :: 16 word) = SchemaVersion e"
    by (simp add: uint_word_of_int)
  then have e: "event_of_record rec (body_of e) = e\<lparr>RecordedAt := 0\<rparr>"
    by (simp add: event_of_record_def body_of_def rec)
  have "event_ok (e\<lparr>RecordedAt := 0\<rparr>)"
    using ok by (simp add: event_ok_def is_organism_event_def)
  then have "validate_event (e\<lparr>RecordedAt := 0\<rparr>) = None" by (simp add: validate_event_None_iff)
  with unmarshal_marshal [OF assms(2)] e [unfolded rec] show ?thesis
    by (simp add: from_core_def rec)
qed

lemma from_core_ok: "from_core rec = Inr e \<Longrightarrow> event_ok e \<and> RecordedAt e = 0"
  by (auto simp: from_core_def Let_def event_of_record_def validate_event_None_iff
      split: option.splits)

lemma from_core_schema: "from_core rec = Inr e \<Longrightarrow> SchemaVersion e \<le> max_uint16"
  using uint_lt2p [of "rec_Schema rec"]
  by (auto simp: from_core_def Let_def event_of_record_def max_uint16_def split: option.splits)

lemma from_core_error: "from_core rec = Inl err \<Longrightarrow> errors_is err (Sentinel ErrInvalidEvent)"
  by (auto simp: from_core_def Let_def split: option.splits dest: validate_event_error)

lemma idempotency_key_recorded [simp]: "idempotency_key (e\<lparr>RecordedAt := t\<rparr>) = idempotency_key e"
  by (simp add: idempotency_key_def)

end
