(* ===== verification/Spine.thy ===== *)
theory Spine
  imports Codec
begin

text \<open>
  The event-spine log is another module; it is a parameter of the development. \<open>spine\<close> lists the
  operations the code calls, over an opaque log \<open>'l\<close> (its records, snapshots and group commits
  on a file system \<open>'fs\<close>) and opaque readers \<open>'r\<close>. An operation that can fail returns the
  error and the log or reader it leaves behind, since a failed append may have written a prefix.

  \<open>spine_laws\<close> is what the code relies on, as its documentation says it: records are numbered
  consecutively from the first, a reader walks them in order, snapshots and commits are kept
  until replaced. \<open>reliable_spine\<close> adds that no call fails. \<open>mem_spine\<close> is a complete
  in-memory log that satisfies both.
\<close>

record spine_record =
  sr_Offset :: int
  sr_Event :: core_event

record spine_snapshot =
  ss_Offset :: int
  ss_State :: "string option"

record recovery =
  rc_Discarded :: int
  rc_Next :: int
  rc_Corrupt :: "go_error option"

datatype durability = Batch | Sync

record ('fs, 'l, 'r) spine =
  sp_validate :: "core_event \<Rightarrow> go_error option"
  sp_new_fs :: 'fs
  sp_dir_fs :: "string \<Rightarrow> go_error + 'fs"
  sp_open :: "'fs \<Rightarrow> durability \<Rightarrow> go_error option \<times> 'l \<times> recovery"
  sp_append :: "core_event list \<Rightarrow> 'l \<Rightarrow> go_error option \<times> 'l"
  sp_first :: "'l \<Rightarrow> int"
  sp_next :: "'l \<Rightarrow> int"
  sp_read :: "'l \<Rightarrow> int \<Rightarrow> go_error + spine_record"
  sp_reader :: "'l \<Rightarrow> int \<Rightarrow> go_error + 'r"
  sp_snapshot :: "int \<Rightarrow> string \<Rightarrow> 'l \<Rightarrow> go_error option \<times> 'l"
  sp_latest :: "'l \<Rightarrow> go_error + spine_snapshot"
  sp_restore :: "'l \<Rightarrow> go_error option \<times> spine_snapshot \<times> 'r"
  sp_close :: "'l \<Rightarrow> go_error option"
  rd_offset :: "'r \<Rightarrow> int"
  rd_next :: "'l \<Rightarrow> 'r \<Rightarrow> (go_error + spine_record) \<times> 'r"
  rd_seek :: "'l \<Rightarrow> int \<Rightarrow> 'r \<Rightarrow> go_error option \<times> 'r"
  gr_open :: "string \<Rightarrow> 'l \<Rightarrow> go_error option \<times> 'l"
  gr_commit :: "string \<Rightarrow> int \<Rightarrow> 'l \<Rightarrow> go_error option \<times> 'l"
  gr_committed :: "string \<Rightarrow> 'l \<Rightarrow> go_error option \<times> int"
  gr_reader :: "string \<Rightarrow> 'l \<Rightarrow> go_error + 'r"

text \<open>What a log holds, for the laws.\<close>

record contents =
  ab_first :: int
  ab_recs :: "core_event list"
  ab_snap :: "(int \<times> string) option"
  ab_commit :: "string \<rightharpoonup> int"

definition ab_next :: "contents \<Rightarrow> int" where
  "ab_next a = ab_first a + int (length (ab_recs a))"

lemma ab_first_le_next [simp]: "ab_first a \<le> ab_next a" "\<not> ab_next a < ab_first a"
  by (simp_all add: ab_next_def)

definition ab_resume :: "string \<Rightarrow> contents \<Rightarrow> int" where
  "ab_resume g a = (case ab_commit a g of None \<Rightarrow> ab_first a | Some o' \<Rightarrow> o')"

definition end_of_log :: "go_error \<Rightarrow> bool" where
  "end_of_log e \<longleftrightarrow> errors_is e (Spine ErrEndOfLog)"

locale spine_laws =
  fixes sp :: "('fs, 'l, 'r) spine" and disk :: "'l \<Rightarrow> contents"
  assumes first [simp]: "sp_first sp l = ab_first (disk l)"
    and next_off [simp]: "sp_next sp l = ab_next (disk l)"
    and open_new: "sp_open sp (sp_new_fs sp) d = (None, l, rcv) \<Longrightarrow>
          ab_recs (disk l) = [] \<and> ab_snap (disk l) = None \<and> ab_commit (disk l) = Map.empty"
    and append_ok: "sp_append sp rs l = (None, l') \<Longrightarrow> disk l' = (disk l)\<lparr>ab_recs := ab_recs (disk l) @ rs\<rparr>"
    and append_err: "sp_append sp rs l = (Some e, l') \<Longrightarrow>
          \<exists>k. disk l' = (disk l)\<lparr>ab_recs := ab_recs (disk l) @ take k rs\<rparr>"
    and reader_at: "sp_reader sp l p = Inr r \<Longrightarrow> rd_offset sp r = p"
    and rd_next_ok: "rd_next sp l r = (Inr rc, r') \<Longrightarrow>
          ab_first (disk l) \<le> rd_offset sp r \<and> rd_offset sp r < ab_next (disk l) \<and>
          sr_Offset rc = rd_offset sp r \<and>
          sr_Event rc = ab_recs (disk l) ! nat (rd_offset sp r - ab_first (disk l)) \<and>
          rd_offset sp r' = rd_offset sp r + 1"
    and rd_next_err: "rd_next sp l r = (Inl e, r') \<Longrightarrow> rd_offset sp r' = rd_offset sp r"
    and rd_next_end: "rd_next sp l r = (Inl e, r') \<Longrightarrow> end_of_log e \<Longrightarrow> ab_next (disk l) \<le> rd_offset sp r"
    and read_ok: "sp_read sp l p = Inr rc \<Longrightarrow> ab_first (disk l) \<le> p \<and> p < ab_next (disk l) \<and>
          sr_Offset rc = p \<and> sr_Event rc = ab_recs (disk l) ! nat (p - ab_first (disk l))"
    and seek_ok: "rd_seek sp l p r = (None, r') \<Longrightarrow> rd_offset sp r' = p"
    and seek_err: "rd_seek sp l p r = (Some e, r') \<Longrightarrow> rd_offset sp r' = rd_offset sp r"
    and snapshot_ok: "sp_snapshot sp p st l = (None, l') \<Longrightarrow> disk l' = (disk l)\<lparr>ab_snap := Some (p, st)\<rparr>"
    and snapshot_err: "sp_snapshot sp p st l = (Some e, l') \<Longrightarrow>
          disk l' = disk l \<or> disk l' = (disk l)\<lparr>ab_snap := Some (p, st)\<rparr>"
    and latest_ok: "sp_latest sp l = Inr s \<Longrightarrow> \<exists>st. ss_State s = Some st \<and> ab_snap (disk l) = Some (ss_Offset s, st)"
    and latest_none: "sp_latest sp l = Inl e \<Longrightarrow> errors_is e (Spine ErrNoSnapshot) \<Longrightarrow> ab_snap (disk l) = None"
    and restore_ok: "sp_restore sp l = (None, s, r) \<Longrightarrow>
          (\<exists>st. ss_State s = Some st \<and> ab_snap (disk l) = Some (ss_Offset s, st)) \<and> rd_offset sp r = ss_Offset s"
    and restore_none: "sp_restore sp l = (Some e, s, r) \<Longrightarrow> errors_is e (Spine ErrNoSnapshot) \<Longrightarrow>
          ab_snap (disk l) = None \<and> s = \<lparr>ss_Offset = 0, ss_State = None\<rparr> \<and> rd_offset sp r = ab_first (disk l)"
    and group_open: "gr_open sp g l = (err, l') \<Longrightarrow> disk l' = disk l"
    and commit_ok: "gr_commit sp g p l = (None, l') \<Longrightarrow> disk l' = (disk l)\<lparr>ab_commit := (ab_commit (disk l))(g \<mapsto> p)\<rparr>"
    and commit_err: "gr_commit sp g p l = (Some e, l') \<Longrightarrow>
          disk l' = disk l \<or> disk l' = (disk l)\<lparr>ab_commit := (ab_commit (disk l))(g \<mapsto> p)\<rparr>"
    and committed_ok: "gr_committed sp g l = (None, p) \<Longrightarrow> ab_commit (disk l) g = Some p"
    and committed_none: "gr_committed sp g l = (Some e, p) \<Longrightarrow> errors_is e (Spine ErrNoGroup) \<Longrightarrow>
          ab_commit (disk l) g = None \<and> p = ab_first (disk l)"
    and group_reader: "gr_reader sp g l = Inr r \<Longrightarrow> rd_offset sp r = ab_resume g (disk l)"

locale reliable_spine = spine_laws sp disk for sp :: "('fs, 'l, 'r) spine" and disk :: "'l \<Rightarrow> contents" +
  assumes open_total: "fst (sp_open sp (sp_new_fs sp) d) = None"
    and group_open_total: "fst (gr_open sp g l) = None"
    and group_reader_total: "ab_first (disk l) \<le> ab_resume g (disk l) \<Longrightarrow>
          ab_resume g (disk l) \<le> ab_next (disk l) \<Longrightarrow> \<exists>r. gr_reader sp g l = Inr r"
    and append_total: "fst (sp_append sp rs l) = None"
    and reader_total: "ab_first (disk l) \<le> p \<Longrightarrow> p \<le> ab_next (disk l) \<Longrightarrow> \<exists>r. sp_reader sp l p = Inr r"
    and rd_next_total: "ab_first (disk l) \<le> rd_offset sp r \<Longrightarrow> rd_offset sp r < ab_next (disk l) \<Longrightarrow>
          \<exists>rc r'. rd_next sp l r = (Inr rc, r')"
    and rd_next_tail: "rd_offset sp r = ab_next (disk l) \<Longrightarrow> \<exists>e r'. rd_next sp l r = (Inl e, r') \<and> end_of_log e"
    and read_total: "ab_first (disk l) \<le> p \<Longrightarrow> p < ab_next (disk l) \<Longrightarrow> \<exists>rc. sp_read sp l p = Inr rc"
    and seek_total: "ab_first (disk l) \<le> p \<Longrightarrow> p \<le> ab_next (disk l) \<Longrightarrow> fst (rd_seek sp l p r) = None"
    and snapshot_total: "fst (sp_snapshot sp p st l) = None"
    and restore_total: "\<exists>err s r. sp_restore sp l = (err, s, r) \<and>
          (err = None \<longleftrightarrow> ab_snap (disk l) \<noteq> None) \<and> (err \<noteq> None \<longrightarrow> errors_is (the err) (Spine ErrNoSnapshot))"
    and commit_total: "fst (gr_commit sp g p l) = None"
    and committed_total: "\<exists>err p. gr_committed sp g l = (err, p) \<and>
          (err \<noteq> None \<longrightarrow> errors_is (the err) (Spine ErrNoGroup))"

subsection \<open>A log in memory\<close>

definition mem_empty :: contents where
  "mem_empty = \<lparr>ab_first = 0, ab_recs = [], ab_snap = None, ab_commit = Map.empty\<rparr>"

definition mem_at :: "contents \<Rightarrow> int \<Rightarrow> go_error + spine_record" where
  "mem_at l p =
     (if ab_first l \<le> p \<and> p < ab_next l
      then Inr \<lparr>sr_Offset = p, sr_Event = ab_recs l ! nat (p - ab_first l)\<rparr>
      else Inl (Spine (if p < ab_first l then ErrNotFound else ErrEndOfLog)))"

definition mem_next :: "contents \<Rightarrow> int \<Rightarrow> (go_error + spine_record) \<times> int" where
  "mem_next l r = (case mem_at l r of Inl e \<Rightarrow> (Inl e, r) | Inr rc \<Rightarrow> (Inr rc, r + 1))"

definition mem_spine :: "(contents, contents, int) spine" where
  "mem_spine =
     \<lparr>sp_validate = (\<lambda>r. if rec_Key r = '''' then Some (Lib ''core'') else None), sp_new_fs = mem_empty, sp_dir_fs = (\<lambda>_. Inr mem_empty),
      sp_open = (\<lambda>fs _. (None, fs, \<lparr>rc_Discarded = 0, rc_Next = ab_next fs, rc_Corrupt = None\<rparr>)),
      sp_append = (\<lambda>rs l. (None, l\<lparr>ab_recs := ab_recs l @ rs\<rparr>)),
      sp_first = ab_first, sp_next = ab_next, sp_read = mem_at, sp_reader = (\<lambda>l p. Inr p),
      sp_snapshot = (\<lambda>p st l. (None, l\<lparr>ab_snap := Some (p, st)\<rparr>)),
      sp_latest = (\<lambda>l. case ab_snap l of None \<Rightarrow> Inl (Spine ErrNoSnapshot)
                     | Some (p, st) \<Rightarrow> Inr \<lparr>ss_Offset = p, ss_State = Some st\<rparr>),
      sp_restore = (\<lambda>l. case ab_snap l of
                          None \<Rightarrow> (Some (Spine ErrNoSnapshot), \<lparr>ss_Offset = 0, ss_State = None\<rparr>, ab_first l)
                        | Some (p, st) \<Rightarrow> (None, \<lparr>ss_Offset = p, ss_State = Some st\<rparr>, p)),
      sp_close = (\<lambda>_. None), rd_offset = (\<lambda>r. r), rd_next = mem_next,
      rd_seek = (\<lambda>_ p _. (None, p)), gr_open = (\<lambda>_ l. (None, l)),
      gr_commit = (\<lambda>g p l. (None, l\<lparr>ab_commit := (ab_commit l)(g \<mapsto> p)\<rparr>)),
      gr_committed = (\<lambda>g l. case ab_commit l g of
                              None \<Rightarrow> (Some (Spine ErrNoGroup), ab_first l) | Some p \<Rightarrow> (None, p)),
      gr_reader = (\<lambda>g l. Inr (ab_resume g l))\<rparr>"

lemma mem_at_Inr: "mem_at l p = Inr rc \<longleftrightarrow> ab_first l \<le> p \<and> p < ab_next l \<and>
    rc = \<lparr>sr_Offset = p, sr_Event = ab_recs l ! nat (p - ab_first l)\<rparr>"
  by (auto simp: mem_at_def)

interpretation mem: reliable_spine mem_spine "\<lambda>l. l"
  by unfold_locales
     (auto simp: mem_spine_def mem_empty_def mem_next_def mem_at_Inr end_of_log_def mem_at_def ab_resume_def
       split: sum.splits if_splits option.splits)

end
