(* ===== verification/Eventlog.thy ===== *)
theory Eventlog
  imports Spine "HOL-Library.List_Lexorder" "HOL-Library.Char_ord"
begin

text \<open>
  \<^verbatim>\<open>internal/eventlog/log.go\<close>: one run's durable history over the spine log, read through one
  consumer group. A \<^verbatim>\<open>Log\<close> is the spine log and the group's reader. The reading loops go on
  until the spine reports the end of the log; \<open>None\<close> is a loop that does not return, and the
  laws of the spine are what rules it out.
\<close>

definition group_name :: string where "group_name = ''projections''"

record ('l, 'r) evlog =
  el_log :: 'l
  el_reader :: 'r

subsection \<open>Paths\<close>

text \<open>\<^verbatim>\<open>filepath.Join\<close> and \<^verbatim>\<open>filepath.Clean\<close> on slash-separated paths.\<close>

fun split_slash :: "string \<Rightarrow> string list" where
  "split_slash [] = [[]]"
| "split_slash (c # cs) =
     (if c = CHR ''/'' then [] # split_slash cs
      else (case split_slash cs of [] \<Rightarrow> [[c]] | p # ps \<Rightarrow> (c # p) # ps))"

fun clean_parts :: "bool \<Rightarrow> string list \<Rightarrow> string list \<Rightarrow> string list" where
  "clean_parts rooted out [] = out"
| "clean_parts rooted out (p # ps) =
     (if p = [] \<or> p = ''.'' then clean_parts rooted out ps
      else if p = ''..'' then
        (if out \<noteq> [] \<and> last out \<noteq> ''..'' then clean_parts rooted (butlast out) ps
         else if rooted then clean_parts rooted out ps
         else clean_parts rooted (out @ [p]) ps)
      else clean_parts rooted (out @ [p]) ps)"

fun join_slash :: "string list \<Rightarrow> string" where
  "join_slash [] = []"
| "join_slash [p] = p"
| "join_slash (p # q # ps) = p @ CHR ''/'' # join_slash (q # ps)"

definition path_clean :: "string \<Rightarrow> string" where
  "path_clean s =
     (let rooted = (s \<noteq> [] \<and> hd s = CHR ''/''); out = clean_parts rooted [] (split_slash s)
      in if rooted then CHR ''/'' # join_slash out
         else if out = [] then ''.'' else join_slash out)"

definition path_join :: "string list \<Rightarrow> string" where
  "path_join ps = (let qs = filter (\<lambda>p. p \<noteq> []) ps in if qs = [] then [] else path_clean (join_slash qs))"

definition run_dir :: "string \<Rightarrow> string \<Rightarrow> string" where
  "run_dir root runID = path_join [root, ''runs'', runID]"

text \<open>
  \<open>entries\<close> is what \<^verbatim>\<open>os.ReadDir\<close> returned: an error (with whether it is \<^verbatim>\<open>fs.ErrNotExist\<close>) or
  the entries with whether each is a directory.
\<close>

definition run_ids :: "string \<Rightarrow> (go_error \<times> bool) + (string \<times> bool) list \<Rightarrow> go_error + string list" where
  "run_ids root entries =
     (case entries of
        Inl (err, not_exist) \<Rightarrow>
          if not_exist then Inr []
          else Inl (Errorf [T ''list runs under '', T root, T '': '', W err])
      | Inr es \<Rightarrow> Inr (sort (map fst (filter snd es))))"

subsection \<open>Opening\<close>

definition committed_of :: "('fs, 'l, 'r) spine \<Rightarrow> 'l \<Rightarrow> go_error option \<times> int" where
  "committed_of sp l =
     (case gr_committed sp group_name l of
        (None, off) \<Rightarrow> (None, off)
      | (Some e, off) \<Rightarrow>
          if errors_is e (Spine ErrNoGroup) then (None, off)
          else (Some (Errorf [T ''read committed offset: '', W e]), off))"

definition reposition :: "('fs, 'l, 'r) spine \<Rightarrow> 'l \<Rightarrow> go_error + 'r" where
  "reposition sp l =
     (case committed_of sp l of
        (Some err, _) \<Rightarrow> Inl err
      | (None, c) \<Rightarrow>
          if c > sp_next sp l then
            (case sp_reader sp l (sp_first sp l) of
               Inl e \<Rightarrow> Inl (Errorf [T ''reposition group '', T group_name, T '' to the start: '', W e])
             | Inr r \<Rightarrow> Inr r)
          else
            (case gr_reader sp group_name l of
               Inl e \<Rightarrow> Inl (Errorf [T ''reposition group '', T group_name, T '': '', W e])
             | Inr r \<Rightarrow> Inr r))"

definition open_with ::
  "('fs, 'l, 'r) spine \<Rightarrow> 'fs \<Rightarrow> durability \<Rightarrow> (go_error + ('l, 'r) evlog) \<times> recovery" where
  "open_with sp fs cfg =
     (case sp_open sp fs cfg of
        (Some e, _, rc) \<Rightarrow> (Inl (Errorf [T ''open event log: '', W e]), rc)
      | (None, l, rc) \<Rightarrow>
          (case gr_open sp group_name l of
             (Some e, _) \<Rightarrow> (Inl (Errorf [T ''open group '', T group_name, T '': '', W e]), rc)
           | (None, l) \<Rightarrow>
               (case reposition sp l of
                  Inl e \<Rightarrow> (Inl e, rc)
                | Inr r \<Rightarrow> (Inr \<lparr>el_log = l, el_reader = r\<rparr>, rc))))"

definition open_log :: "('fs, 'l, 'r) spine \<Rightarrow> 'fs \<Rightarrow> (go_error + ('l, 'r) evlog) \<times> recovery" where
  "open_log sp fs = open_with sp fs Sync"

definition zero_recovery :: recovery where
  "zero_recovery = \<lparr>rc_Discarded = 0, rc_Next = 0, rc_Corrupt = None\<rparr>"

definition open_dir ::
  "('fs, 'l, 'r) spine \<Rightarrow> string \<Rightarrow> string \<Rightarrow> (go_error + ('l, 'r) evlog) \<times> recovery" where
  "open_dir sp root runID =
     (case sp_dir_fs sp (run_dir root runID) of
        Inl e \<Rightarrow> (Inl (Errorf [T ''open run directory: '', W e]), zero_recovery)
      | Inr fs \<Rightarrow> open_log sp fs)"

subsection \<open>Writing\<close>

fun encode_all :: "(core_event \<Rightarrow> go_error option) \<Rightarrow> event list \<Rightarrow> go_error + core_event list" where
  "encode_all v [] = Inr []"
| "encode_all v (e # es) =
     (case to_core v e of
        Inl err \<Rightarrow> Inl (Errorf [T ''encode '', T (EventID e), T '': '', W err])
      | Inr rec \<Rightarrow> (case encode_all v es of Inl err \<Rightarrow> Inl err | Inr recs \<Rightarrow> Inr (rec # recs)))"

definition log_append ::
  "('fs, 'l, 'r) spine \<Rightarrow> event list \<Rightarrow> ('l, 'r) evlog \<Rightarrow> go_error option \<times> ('l, 'r) evlog" where
  "log_append sp es L =
     (if es = [] then (None, L)
      else case encode_all (sp_validate sp) es of
        Inl err \<Rightarrow> (Some err, L)
      | Inr recs \<Rightarrow>
          (case sp_append sp recs (el_log L) of
             (Some e, l) \<Rightarrow>
               (Some (Errorf [T ''append '', D (int (length recs)), T '' events: '', W e]), L\<lparr>el_log := l\<rparr>)
           | (None, l) \<Rightarrow> (None, L\<lparr>el_log := l\<rparr>)))"

subsection \<open>Reading\<close>

text \<open>
  The loop the four reading operations share: at most \<open>n\<close> records (unbounded when \<open>n \<le> 0\<close>),
  stopping at the end of the log; \<open>what\<close> names the operation in the error.
\<close>

partial_function (option) read_loop ::
  "('fs, 'l, 'r) spine \<Rightarrow> string \<Rightarrow> int \<Rightarrow> 'l \<Rightarrow> 'r \<Rightarrow> event list \<Rightarrow>
   (go_error option \<times> event list \<times> 'r) option" where
  "read_loop sp what n l r out =
     (if n \<le> 0 \<or> int (length out) < n then
        (case rd_next sp l r of
           (Inl e, r') \<Rightarrow>
             if end_of_log e then Some (None, out, r')
             else Some (Some (Errorf [T what, T '' at offset '', D (rd_offset sp r'), T '': '', W e]), out, r')
         | (Inr rc, r') \<Rightarrow>
             (case from_core (sr_Event rc) of
                Inl e \<Rightarrow> Some (Some (Errorf [T ''decode record at offset '', D (sr_Offset rc), T '': '', W e]), out, r')
              | Inr e \<Rightarrow> read_loop sp what n l r' (out @ [e])))
      else Some (None, out, r))"

declare read_loop.simps [code]

definition unprocessed_up_to ::
  "('fs, 'l, 'r) spine \<Rightarrow> int \<Rightarrow> ('l, 'r) evlog \<Rightarrow> (go_error option \<times> event list \<times> ('l, 'r) evlog) option" where
  "unprocessed_up_to sp n L =
     map_option (\<lambda>(err, out, r). (err, out, L\<lparr>el_reader := r\<rparr>))
       (read_loop sp ''read'' n (el_log L) (el_reader L) [])"

definition unprocessed ::
  "('fs, 'l, 'r) spine \<Rightarrow> ('l, 'r) evlog \<Rightarrow> (go_error option \<times> event list \<times> ('l, 'r) evlog) option" where
  "unprocessed sp L = unprocessed_up_to sp 0 L"

definition replay :: "('fs, 'l, 'r) spine \<Rightarrow> ('l, 'r) evlog \<Rightarrow> (go_error option \<times> event list) option" where
  "replay sp L =
     (case sp_reader sp (el_log L) (sp_first sp (el_log L)) of
        Inl e \<Rightarrow> Some (Some (Errorf [T ''position replay reader: '', W e]), [])
      | Inr r \<Rightarrow> map_option (\<lambda>(err, out, _). (err, out)) (read_loop sp ''replay'' 0 (el_log L) r []))"

definition since :: "('fs, 'l, 'r) spine \<Rightarrow> int \<Rightarrow> ('l, 'r) evlog \<Rightarrow> (go_error option \<times> event list) option" where
  "since sp from L =
     (let l = el_log L in
      if from < sp_first sp l \<or> from > sp_next sp l then
        Some (Some (Errorf [T ''read from '', D from, T '', log holds ['', D (sp_first sp l), T '','',
                            D (sp_next sp l), T ''): '', W (Sentinel ErrOffsetOutOfRange)]), [])
      else case sp_reader sp l from of
        Inl e \<Rightarrow>
          if errors_is e (Spine ErrNotFound)
          then Some (Some (Errorf [T ''read from '', D from, T '': '', W (Sentinel ErrOffsetOutOfRange)]), [])
          else Some (Some (Errorf [T ''position reader at '', D from, T '': '', W e]), [])
      | Inr r \<Rightarrow> map_option (\<lambda>(err, out, _). (err, out)) (read_loop sp ''read'' 0 l r []))"

definition last_event :: "('fs, 'l, 'r) spine \<Rightarrow> ('l, 'r) evlog \<Rightarrow> go_error + event option" where
  "last_event sp L =
     (let l = el_log L; nxt = sp_next sp l in
      if nxt = sp_first sp l then Inr None
      else case sp_read sp l (nxt - 1) of
        Inl e \<Rightarrow> Inl (Errorf [T ''read last record at '', D (nxt - 1), T '': '', W e])
      | Inr rc \<Rightarrow>
          (case from_core (sr_Event rc) of
             Inl e \<Rightarrow> Inl (Errorf [T ''decode last record at '', D (sr_Offset rc), T '': '', W e])
           | Inr e \<Rightarrow> Inr (Some e)))"

definition log_restore ::
  "('fs, 'l, 'r) spine \<Rightarrow> ('l, 'r) evlog \<Rightarrow> (go_error + string option \<times> int \<times> event list) option" where
  "log_restore sp L =
     (case sp_restore sp (el_log L) of
        (err, snap, r) \<Rightarrow>
          (case err of
             Some e \<Rightarrow>
               if errors_is e (Spine ErrNoSnapshot) then
                 map_option (\<lambda>(err, out, _). case err of Some e \<Rightarrow> Inl e
                               | None \<Rightarrow> Inr (ss_State snap, ss_Offset snap, out))
                   (read_loop sp ''restore'' 0 (el_log L) r [])
               else Some (Inl (Errorf [T ''restore: '', W e]))
           | None \<Rightarrow>
               map_option (\<lambda>(err, out, _). case err of Some e \<Rightarrow> Inl e
                             | None \<Rightarrow> Inr (ss_State snap, ss_Offset snap, out))
                 (read_loop sp ''restore'' 0 (el_log L) r [])))"

subsection \<open>Positions\<close>

definition log_read :: "('fs, 'l, 'r) spine \<Rightarrow> ('l, 'r) evlog \<Rightarrow> int" where
  "log_read sp L = rd_offset sp (el_reader L)"

definition log_next :: "('fs, 'l, 'r) spine \<Rightarrow> ('l, 'r) evlog \<Rightarrow> int" where
  "log_next sp L = sp_next sp (el_log L)"

definition log_pending :: "('fs, 'l, 'r) spine \<Rightarrow> ('l, 'r) evlog \<Rightarrow> int" where
  "log_pending sp L = sp_next sp (el_log L) - rd_offset sp (el_reader L)"

definition log_committed :: "('fs, 'l, 'r) spine \<Rightarrow> ('l, 'r) evlog \<Rightarrow> go_error option \<times> int" where
  "log_committed sp L = committed_of sp (el_log L)"

definition log_commit ::
  "('fs, 'l, 'r) spine \<Rightarrow> ('l, 'r) evlog \<Rightarrow> go_error option \<times> ('l, 'r) evlog" where
  "log_commit sp L =
     (case gr_commit sp group_name (rd_offset sp (el_reader L)) (el_log L) of
        (Some e, l) \<Rightarrow> (Some (Errorf [T ''commit '', T group_name, T '' at '',
                                      D (rd_offset sp (el_reader L)), T '': '', W e]), L\<lparr>el_log := l\<rparr>)
      | (None, l) \<Rightarrow> (None, L\<lparr>el_log := l\<rparr>))"

definition mark_folded ::
  "('fs, 'l, 'r) spine \<Rightarrow> ('l, 'r) evlog \<Rightarrow> go_error option \<times> ('l, 'r) evlog" where
  "mark_folded sp L =
     (case rd_seek sp (el_log L) (sp_next sp (el_log L)) (el_reader L) of
        (Some e, r) \<Rightarrow> (Some (Errorf [T ''move group '', T group_name, T '' to the tail at '',
                                      D (sp_next sp (el_log L)), T '': '', W e]), L\<lparr>el_reader := r\<rparr>)
      | (None, r) \<Rightarrow> (None, L\<lparr>el_reader := r\<rparr>))"

definition log_save ::
  "('fs, 'l, 'r) spine \<Rightarrow> string \<Rightarrow> ('l, 'r) evlog \<Rightarrow> go_error option \<times> ('l, 'r) evlog" where
  "log_save sp state L =
     (let at = rd_offset sp (el_reader L) in
      case sp_snapshot sp at state (el_log L) of
        (Some e, l) \<Rightarrow> (Some (Errorf [T ''write snapshot at '', D at, T '': '', W e]), L\<lparr>el_log := l\<rparr>)
      | (None, l) \<Rightarrow> log_commit sp (L\<lparr>el_log := l\<rparr>))"

definition rewind ::
  "('fs, 'l, 'r) spine \<Rightarrow> recovery \<Rightarrow> ('l, 'r) evlog \<Rightarrow> go_error option \<times> ('l, 'r) evlog" where
  "rewind sp rc L =
     (if rc_Discarded rc = 0 then (None, L)
      else
        let stop = (case sp_latest sp (el_log L) of
                      Inr s \<Rightarrow>
                        if ss_Offset s > rc_Next rc
                        then Some (Errorf [W (Sentinel ErrStrandedSnapshot), T '': it folded records up to '',
                                           D (ss_Offset s), T '', the log now ends at '', D (rc_Next rc)])
                        else None
                    | Inl e \<Rightarrow>
                        if errors_is e (Spine ErrNoSnapshot) then None
                        else Some (Errorf [T ''read the latest snapshot: '', W e]))
        in case stop of
             Some err \<Rightarrow> (Some err, L)
           | None \<Rightarrow>
               (case log_committed sp L of
                  (Some err, _) \<Rightarrow> (Some err, L)
                | (None, c) \<Rightarrow>
                    if c \<le> rc_Next rc then (None, L)
                    else (case gr_commit sp group_name (rc_Next rc) (el_log L) of
                            (Some e, l) \<Rightarrow> (Some (Errorf [T ''rewind '', T group_name, T '' from '', D c,
                                                     T '' to '', D (rc_Next rc), T '': '', W e]), L\<lparr>el_log := l\<rparr>)
                          | (None, l) \<Rightarrow>
                              (case reposition sp l of
                                 Inl err \<Rightarrow> (Some err, L\<lparr>el_log := l\<rparr>)
                               | Inr r \<Rightarrow> (None, \<lparr>el_log = l, el_reader = r\<rparr>)))))"

definition log_close :: "('fs, 'l, 'r) spine \<Rightarrow> ('l, 'r) evlog \<Rightarrow> go_error option" where
  "log_close sp L =
     (case sp_close sp (el_log L) of
        None \<Rightarrow> None | Some e \<Rightarrow> Some (Errorf [T ''close event log: '', W e]))"

subsection \<open>The log as a history with a cursor\<close>

text \<open>
  What the simulation relies on: appending extends the history, draining returns the next
  records in order and moves the cursor past exactly what it returned. \<open>strip\<close> is the one thing
  a record forgets.
\<close>

definition strip :: "event \<Rightarrow> event" where
  "strip e = e\<lparr>RecordedAt := 0\<rparr>"

locale event_history =
  fixes hist :: "'g \<Rightarrow> event list" and cur :: "'g \<Rightarrow> nat" and wf :: "'g \<Rightarrow> bool"
    and put :: "event list \<Rightarrow> 'g \<Rightarrow> go_error option \<times> 'g"
    and drain :: "int \<Rightarrow> 'g \<Rightarrow> (go_error option \<times> event list \<times> 'g) option"
  assumes cur_le: "wf g \<Longrightarrow> cur g \<le> length (hist g)"
    and put_ok: "wf g \<Longrightarrow> list_all encodable es \<Longrightarrow> put es g = (None, g') \<Longrightarrow>
          wf g' \<and> hist g' = hist g @ map strip es \<and> cur g' = cur g"
    and drain_ok: "wf g \<Longrightarrow> \<exists>err m g'. drain n g = Some (err, take m (drop (cur g) (hist g)), g') \<and>
          wf g' \<and> hist g' = hist g \<and> cur g' = cur g + m \<and>
          (err = None \<longrightarrow> (if n \<le> 0 then m = length (hist g) - cur g
                            else m = min (nat n) (length (hist g) - cur g)))"
begin

lemma drain_exact:
  assumes "wf g" "drain n g = Some (None, out, g')"
  shows "wf g' \<and> hist g' = hist g \<and> cur g' = cur g + length out \<and>
    out = take (length out) (drop (cur g) (hist g)) \<and>
    length out = (if n \<le> 0 then length (hist g) - cur g else min (nat n) (length (hist g) - cur g))"
proof -
  obtain err m h where d: "drain n g = Some (err, take m (drop (cur g) (hist g)), h)" "wf h"
    "hist h = hist g" "cur h = cur g + m" "err = None \<longrightarrow> (if n \<le> 0 then m = length (hist g) - cur g
       else m = min (nat n) (length (hist g) - cur g))" using drain_ok [OF assms(1)] by blast
  then have eq: "err = None" "out = take m (drop (cur g) (hist g))" "g' = h" using assms(2) by auto
  then have "length out = m" using d(5) by (auto split: if_splits)
  with d eq show ?thesis by (auto split: if_splits)
qed

text \<open>A sequence of bounded drains hands out a contiguous part of the history, once.\<close>

fun drains :: "int list \<Rightarrow> 'g \<Rightarrow> (event list \<times> 'g) option" where
  "drains [] g = Some ([], g)"
| "drains (n # ns) g =
     (case drain n g of
        Some (None, out, g') \<Rightarrow> map_option (\<lambda>(outs, h). (out @ outs, h)) (drains ns g')
      | _ \<Rightarrow> None)"

lemma drains_contiguous:
  assumes "wf g" "drains ns g = Some (outs, h)"
  shows "wf h \<and> hist h = hist g \<and> cur h = cur g + length outs \<and>
    outs = take (length outs) (drop (cur g) (hist g))"
  using assms
proof (induction ns arbitrary: g outs)
  case Nil
  then show ?case by simp
next
  case (Cons n ns)
  then obtain out g' rest where d: "drain n g = Some (None, out, g')" and r: "drains ns g' = Some (rest, h)"
    and o: "outs = out @ rest" by (auto split: option.splits)
  have g': "wf g'" "hist g' = hist g" "cur g' = cur g + length out"
    and out: "take (length out) (drop (cur g) (hist g)) = out"
    using drain_exact [OF Cons.prems(1) d] by metis+
  then have IH: "wf h \<and> hist h = hist g \<and> cur h = cur g + length out + length rest \<and>
      rest = take (length rest) (drop (cur g + length out) (hist g))"
    using Cons.IH [OF _ r] by metis
  have "take (length out + length rest) (drop (cur g) (hist g))
      = take (length out) (drop (cur g) (hist g)) @
        take (length rest) (drop (length out) (drop (cur g) (hist g)))" by (rule take_add)
  also have "\<dots> = outs" using out IH o by (simp add: add.commute)
  finally show ?case using IH o by simp
qed

end

definition hist_of :: "('l \<Rightarrow> contents) \<Rightarrow> ('l, 'r) evlog \<Rightarrow> event list" where
  "hist_of disk L = map (\<lambda>r. projr (from_core r)) (ab_recs (disk (el_log L)))"

definition cur_of :: "('fs, 'l, 'r) spine \<Rightarrow> ('l \<Rightarrow> contents) \<Rightarrow> ('l, 'r) evlog \<Rightarrow> nat" where
  "cur_of sp disk L = nat (rd_offset sp (el_reader L) - ab_first (disk (el_log L)))"

definition wf_of :: "('fs, 'l, 'r) spine \<Rightarrow> ('l \<Rightarrow> contents) \<Rightarrow> ('l, 'r) evlog \<Rightarrow> bool" where
  "wf_of sp disk L \<longleftrightarrow>
     list_all (\<lambda>r. is_ok (from_core r)) (ab_recs (disk (el_log L))) \<and>
     ab_first (disk (el_log L)) \<le> rd_offset sp (el_reader L) \<and>
     rd_offset sp (el_reader L) \<le> ab_next (disk (el_log L))"

lemma encode_all_decode:
  "encode_all v es = Inr recs \<Longrightarrow> list_all encodable es \<Longrightarrow>
     map (\<lambda>r. projr (from_core r)) recs = map strip es \<and> list_all (\<lambda>r. is_ok (from_core r)) recs"
proof (induction es arbitrary: recs)
  case Nil
  then show ?case by simp
next
  case (Cons e es)
  then obtain rec rest where "to_core v e = Inr rec" "encode_all v es = Inr rest" "recs = rec # rest"
    by (auto split: sum.splits)
  with Cons show ?case using from_core_to_core [of v e rec] by (auto simp: strip_def)
qed

lemma encode_all_Inr_iff:
  "is_ok (encode_all v es) \<longleftrightarrow> list_all (\<lambda>e. is_ok (to_core v e)) es"
proof (induction es)
  case (Cons e es)
  then show ?case by (cases "to_core v e"; cases "encode_all v es") auto
qed simp

context spine_laws
begin

abbreviation recs :: "'l \<Rightarrow> core_event list" where
  "recs l \<equiv> ab_recs (disk l)"

lemma read_loop_spec:
  assumes "rd_offset sp r = ab_first (disk l) + int k" "k \<le> length (recs l)"
    "list_all (\<lambda>r. is_ok (from_core r)) (recs l)" "0 < n \<Longrightarrow> int (length out) \<le> n"
  shows "\<exists>err m r'. read_loop sp what n l r out
      = Some (err, out @ take m (drop k (map (\<lambda>r. projr (from_core r)) (recs l))), r') \<and>
    k + m \<le> length (recs l) \<and> rd_offset sp r' = ab_first (disk l) + int (k + m) \<and>
    (0 < n \<longrightarrow> int (length out + m) \<le> n) \<and>
    (err = None \<longrightarrow> k + m = length (recs l) \<or> 0 < n \<and> int (length out + m) = n)"
  using assms
proof (induction "length (recs l) - k" arbitrary: k r out rule: less_induct)
  case less
  let ?es = "map (\<lambda>r. projr (from_core r)) (recs l)"
  show ?case
  proof (cases "n \<le> 0 \<or> int (length out) < n")
    case False
    then show ?thesis using less.prems
      by (intro exI [of _ None] exI [of _ 0] exI [of _ r]) (auto simp: read_loop.simps)
  next
    case True
    show ?thesis
    proof (cases "rd_next sp l r")
      case (Pair res r')
      show ?thesis
      proof (cases res)
        case (Inl e)
        have off: "rd_offset sp r' = ab_first (disk l) + int k"
          using rd_next_err Pair Inl less.prems(1) by simp
        have tail: "k = length (recs l)" if "end_of_log e"
          using rd_next_end [OF _ that, of l r r'] Pair Inl less.prems(1,2) by (simp add: ab_next_def)
        show ?thesis
          using True Pair Inl off tail less.prems
          by (cases "end_of_log e")
             (auto simp: read_loop.simps intro!: exI [of _ "0::nat"])
      next
        case (Inr rc)
        then have k: "k < length (recs l)"
          and ev: "sr_Event rc = recs l ! k" and off: "rd_offset sp r' = ab_first (disk l) + int (Suc k)"
          using rd_next_ok [of l r rc r'] Pair less.prems(1) by (simp_all add: ab_next_def)
        obtain e where e: "from_core (recs l ! k) = Inr e"
          using less.prems(3) k by (auto simp: list_all_length is_ok_iff)
        have "\<exists>err m r''. read_loop sp what n l r' (out @ [e])
            = Some (err, (out @ [e]) @ take m (drop (Suc k) ?es), r'') \<and>
          Suc k + m \<le> length (recs l) \<and> rd_offset sp r'' = ab_first (disk l) + int (Suc k + m) \<and>
          (0 < n \<longrightarrow> int (length (out @ [e]) + m) \<le> n) \<and>
          (err = None \<longrightarrow> Suc k + m = length (recs l) \<or> 0 < n \<and> int (length (out @ [e]) + m) = n)"
          using less.hyps [of "Suc k" r' "out @ [e]"] k off less.prems(3) True by auto
        then obtain err m r'' where IH: "read_loop sp what n l r' (out @ [e])
            = Some (err, (out @ [e]) @ take m (drop (Suc k) ?es), r'')"
          "Suc k + m \<le> length (recs l)" "rd_offset sp r'' = ab_first (disk l) + int (Suc k + m)"
          "0 < n \<longrightarrow> int (length (out @ [e]) + m) \<le> n"
          "err = None \<longrightarrow> Suc k + m = length (recs l) \<or> 0 < n \<and> int (length (out @ [e]) + m) = n"
          by blast
        have "drop k ?es = e # drop (Suc k) ?es"
          using k e drop_nth_Cons [of k ?es] by simp
        then have "out @ take (Suc m) (drop k ?es) = (out @ [e]) @ take m (drop (Suc k) ?es)" by simp
        moreover have "read_loop sp what n l r out = read_loop sp what n l r' (out @ [e])"
          using True Pair Inr ev e by (subst read_loop.simps) simp
        ultimately show ?thesis
          using IH by (intro exI [of _ err] exI [of _ "Suc m"] exI [of _ r'']) auto
      qed
    qed
  qed
qed

end


context spine_laws
begin

lemma wf_cur:
  assumes "wf_of sp disk L"
  shows "rd_offset sp (el_reader L) = ab_first (disk (el_log L)) + int (cur_of sp disk L)"
    "cur_of sp disk L \<le> length (recs (el_log L))"
  using assms by (auto simp: wf_of_def cur_of_def ab_next_def)

lemma length_hist [simp]: "length (hist_of disk L) = length (recs (el_log L))"
  by (simp add: hist_of_def)

lemma log_append_ok:
  assumes "wf_of sp disk L" "list_all encodable es" "log_append sp es L = (None, L')"
  shows "wf_of sp disk L' \<and> hist_of disk L' = hist_of disk L @ map strip es \<and>
    cur_of sp disk L' = cur_of sp disk L"
proof (cases "es = []")
  case True
  with assms show ?thesis by (simp add: log_append_def)
next
  case False
  with assms(3) obtain rs l where enc: "encode_all (sp_validate sp) es = Inr rs"
    and app: "sp_append sp rs (el_log L) = (None, l)" and L': "L' = L\<lparr>el_log := l\<rparr>"
    by (auto simp: log_append_def split: sum.splits prod.splits option.splits)
  note dec = encode_all_decode [OF enc assms(2)]
  from append_ok [OF app] dec assms(1) show ?thesis
    by (auto simp: L' wf_of_def hist_of_def cur_of_def ab_next_def)
qed

lemma unprocessed_ok:
  assumes "wf_of sp disk L"
  shows "\<exists>err m L'. unprocessed_up_to sp n L
      = Some (err, take m (drop (cur_of sp disk L) (hist_of disk L)), L') \<and>
    wf_of sp disk L' \<and> hist_of disk L' = hist_of disk L \<and> cur_of sp disk L' = cur_of sp disk L + m \<and>
    (err = None \<longrightarrow> (if n \<le> 0 then m = length (hist_of disk L) - cur_of sp disk L
                      else m = min (nat n) (length (hist_of disk L) - cur_of sp disk L)))"
proof -
  note w = wf_cur [OF assms]
  have dec: "list_all (\<lambda>r. is_ok (from_core r)) (recs (el_log L))" using assms by (simp add: wf_of_def)
  obtain err m r' where rl: "read_loop sp ''read'' n (el_log L) (el_reader L) []
      = Some (err, take m (drop (cur_of sp disk L) (hist_of disk L)), r')"
    "cur_of sp disk L + m \<le> length (recs (el_log L))"
    "rd_offset sp r' = ab_first (disk (el_log L)) + int (cur_of sp disk L + m)"
    "0 < n \<longrightarrow> int m \<le> n"
    "err = None \<longrightarrow> cur_of sp disk L + m = length (recs (el_log L)) \<or> 0 < n \<and> int m = n"
    using read_loop_spec [OF w dec, of n "[]" "''read''"] by (auto simp: hist_of_def)
  let ?L = "L\<lparr>el_reader := r'\<rparr>"
  have "wf_of sp disk ?L" "hist_of disk ?L = hist_of disk L" "cur_of sp disk ?L = cur_of sp disk L + m"
    using rl(2,3) dec by (auto simp: wf_of_def hist_of_def cur_of_def ab_next_def)
  then show ?thesis
    using rl by (intro exI [of _ err] exI [of _ m] exI [of _ ?L]) (auto simp: unprocessed_up_to_def)
qed

end

sublocale spine_laws \<subseteq> elog: event_history "hist_of disk" "cur_of sp disk" "wf_of sp disk" "log_append sp" "unprocessed_up_to sp"
proof unfold_locales
  fix g assume "wf_of sp disk g"
  then show "cur_of sp disk g \<le> length (hist_of disk g)" using wf_cur(2) by simp
next
  fix g es g' assume "wf_of sp disk g" "list_all encodable es" "log_append sp es g = (None, g')"
  then show "wf_of sp disk g' \<and> hist_of disk g' = hist_of disk g @ map strip es \<and>
      cur_of sp disk g' = cur_of sp disk g" by (rule log_append_ok)
next
  fix g n assume "wf_of sp disk g"
  then show "\<exists>err m g'. unprocessed_up_to sp n g
      = Some (err, take m (drop (cur_of sp disk g) (hist_of disk g)), g') \<and>
    wf_of sp disk g' \<and> hist_of disk g' = hist_of disk g \<and> cur_of sp disk g' = cur_of sp disk g + m \<and>
    (err = None \<longrightarrow> (if n \<le> 0 then m = length (hist_of disk g) - cur_of sp disk g
                      else m = min (nat n) (length (hist_of disk g) - cur_of sp disk g)))"
    by (rule unprocessed_ok)
qed

subsection \<open>Whole reads, snapshots and commits\<close>

text \<open>
  A commit is backed when a snapshot that folded at least as much is on disk, and no snapshot
  is ahead of the cursor. This is what makes it safe to crash at any point.
\<close>

definition backed :: "('fs, 'l, 'r) spine \<Rightarrow> ('l \<Rightarrow> contents) \<Rightarrow> ('l, 'r) evlog \<Rightarrow> bool" where
  "backed sp disk L \<longleftrightarrow>
     (\<forall>c. ab_commit (disk (el_log L)) group_name = Some c \<longrightarrow>
        (\<exists>p st. ab_snap (disk (el_log L)) = Some (p, st) \<and> c \<le> p)) \<and>
     (\<forall>p st. ab_snap (disk (el_log L)) = Some (p, st) \<longrightarrow> p \<le> rd_offset sp (el_reader L))"

context spine_laws
begin

lemma read_rest:
  assumes "rd_offset sp r = ab_first (disk l) + int k" "k \<le> length (recs l)"
    "list_all (\<lambda>r. is_ok (from_core r)) (recs l)"
  shows "\<exists>err out r'. read_loop sp what 0 l r [] = Some (err, out, r') \<and>
    (err = None \<longrightarrow> out = drop k (map (\<lambda>r. projr (from_core r)) (recs l)))"
  using read_loop_spec [OF assms, of 0 "[]" what] by auto

lemma replay_ok:
  assumes "wf_of sp disk L"
  shows "\<exists>err out. replay sp L = Some (err, out) \<and> (err = None \<longrightarrow> out = hist_of disk L)"
proof (cases "sp_reader sp (el_log L) (sp_first sp (el_log L))")
  case (Inl e)
  then show ?thesis by (simp add: replay_def)
next
  case (Inr r)
  have "rd_offset sp r = ab_first (disk (el_log L)) + int 0" using reader_at [OF Inr] by simp
  from read_rest [OF this _, of "''replay''"] assms Inr show ?thesis
    by (auto simp: replay_def hist_of_def wf_of_def)
qed

lemma since_ok:
  assumes "wf_of sp disk L" "ab_first (disk (el_log L)) \<le> from" "from \<le> ab_next (disk (el_log L))"
  shows "\<exists>err out. since sp from L = Some (err, out) \<and>
    (err = None \<longrightarrow> out = drop (nat (from - ab_first (disk (el_log L)))) (hist_of disk L))"
proof (cases "sp_reader sp (el_log L) from")
  case (Inl e)
  with assms show ?thesis by (simp add: since_def Let_def)
next
  case (Inr r)
  let ?k = "nat (from - ab_first (disk (el_log L)))"
  have "rd_offset sp r = ab_first (disk (el_log L)) + int ?k" "?k \<le> length (recs (el_log L))"
    using reader_at [OF Inr] assms by (auto simp: ab_next_def)
  from read_rest [OF this, of "''read''"] assms Inr show ?thesis
    by (auto simp: since_def hist_of_def wf_of_def Let_def)
qed

lemma since_out_of_range:
  assumes "from < ab_first (disk (el_log L)) \<or> ab_next (disk (el_log L)) < from"
  shows "\<exists>e. since sp from L = Some (Some e, []) \<and> errors_is e (Sentinel ErrOffsetOutOfRange)"
  using assms by (auto simp: since_def Let_def)

lemma last_event_ok:
  assumes "wf_of sp disk L" "last_event sp L = Inr x"
  shows "x = (if hist_of disk L = [] then None else Some (last (hist_of disk L)))"
proof (cases "recs (el_log L) = []")
  case True
  with assms show ?thesis by (simp add: last_event_def ab_next_def hist_of_def)
next
  case False
  let ?rs = "recs (el_log L)" and ?p = "ab_next (disk (el_log L)) - 1"
  have idx: "nat (?p - ab_first (disk (el_log L))) = length ?rs - 1"
    using False by (simp add: ab_next_def)
  have ne: "sp_next sp (el_log L) \<noteq> sp_first sp (el_log L)" using False by (simp add: ab_next_def)
  obtain rc where rc: "sp_read sp (el_log L) ?p = Inr rc"
    using assms(2) ne by (cases "sp_read sp (el_log L) ?p") (auto simp: last_event_def Let_def)
  then have ev: "sr_Event rc = last ?rs" using read_ok [OF rc] idx False by (simp add: last_conv_nth)
  have "is_ok (from_core (last ?rs))" using assms(1) False by (simp add: wf_of_def list_all_iff)
  then obtain e where "from_core (last ?rs) = Inr e" by (auto simp: is_ok_iff)
  with assms(2) ne rc ev False show ?thesis
    by (simp add: last_event_def Let_def hist_of_def last_map)
qed

lemma mark_folded_ok:
  assumes "wf_of sp disk L" "mark_folded sp L = (None, L')"
  shows "el_log L' = el_log L \<and> wf_of sp disk L' \<and> cur_of sp disk L' = length (hist_of disk L')"
proof -
  obtain r where r: "rd_seek sp (el_log L) (sp_next sp (el_log L)) (el_reader L) = (None, r)"
    and L': "L' = L\<lparr>el_reader := r\<rparr>"
    using assms(2) by (auto simp: mark_folded_def split: prod.splits option.splits)
  from seek_ok [OF r] assms(1) show ?thesis
    by (auto simp: L' wf_of_def cur_of_def ab_next_def)
qed

lemma log_commit_effect:
  assumes "log_commit sp L = (err, L')"
  shows "el_reader L' = el_reader L"
    "disk (el_log L') = disk (el_log L) \<or>
     disk (el_log L') = (disk (el_log L))\<lparr>ab_commit := (ab_commit (disk (el_log L)))(group_name \<mapsto> rd_offset sp (el_reader L))\<rparr>"
    "err = None \<Longrightarrow> ab_commit (disk (el_log L')) group_name = Some (rd_offset sp (el_reader L))"
proof -
  obtain cerr l where g: "gr_commit sp group_name (rd_offset sp (el_reader L)) (el_log L) = (cerr, l)"
    by (cases "gr_commit sp group_name (rd_offset sp (el_reader L)) (el_log L)")
  have "disk l = disk (el_log L) \<or>
     disk l = (disk (el_log L))\<lparr>ab_commit := (ab_commit (disk (el_log L)))(group_name \<mapsto> rd_offset sp (el_reader L))\<rparr>"
    using g commit_ok commit_err by (cases cerr) blast+
  moreover have "cerr = None \<Longrightarrow> ab_commit (disk l) group_name = Some (rd_offset sp (el_reader L))"
    using g commit_ok by simp
  ultimately show "el_reader L' = el_reader L"
    "disk (el_log L') = disk (el_log L) \<or>
     disk (el_log L') = (disk (el_log L))\<lparr>ab_commit := (ab_commit (disk (el_log L)))(group_name \<mapsto> rd_offset sp (el_reader L))\<rparr>"
    "err = None \<Longrightarrow> ab_commit (disk (el_log L')) group_name = Some (rd_offset sp (el_reader L))"
    using assms g by (auto simp: log_commit_def split: option.splits)
qed

text \<open>Every outcome of a save: what it can leave on disk, and what success guarantees.\<close>

lemma log_save_effect:
  assumes "log_save sp st L = (err, L')"
  shows "el_reader L' = el_reader L" "ab_recs (disk (el_log L')) = recs (el_log L)"
    "ab_first (disk (el_log L')) = ab_first (disk (el_log L))"
    "disk (el_log L') = disk (el_log L) \<or>
     ab_snap (disk (el_log L')) = Some (rd_offset sp (el_reader L), st) \<and>
     (ab_commit (disk (el_log L')) = ab_commit (disk (el_log L)) \<or>
      ab_commit (disk (el_log L')) = (ab_commit (disk (el_log L)))(group_name \<mapsto> rd_offset sp (el_reader L)))"
    "err = None \<Longrightarrow> ab_snap (disk (el_log L')) = Some (rd_offset sp (el_reader L), st) \<and>
       ab_commit (disk (el_log L')) group_name = Some (rd_offset sp (el_reader L))"
proof -
  let ?at = "rd_offset sp (el_reader L)"
  obtain serr l where s: "sp_snapshot sp ?at st (el_log L) = (serr, l)"
    by (cases "sp_snapshot sp ?at st (el_log L)")
  have d: "disk l = disk (el_log L) \<or> disk l = (disk (el_log L))\<lparr>ab_snap := Some (?at, st)\<rparr>"
    "serr = None \<Longrightarrow> disk l = (disk (el_log L))\<lparr>ab_snap := Some (?at, st)\<rparr>"
    using s snapshot_ok snapshot_err by (cases serr; blast)+
  have "el_reader L' = el_reader L \<and> ab_recs (disk (el_log L')) = recs (el_log L) \<and>
    ab_first (disk (el_log L')) = ab_first (disk (el_log L)) \<and>
    (disk (el_log L') = disk (el_log L) \<or> ab_snap (disk (el_log L')) = Some (?at, st) \<and>
     (ab_commit (disk (el_log L')) = ab_commit (disk (el_log L)) \<or>
      ab_commit (disk (el_log L')) = (ab_commit (disk (el_log L)))(group_name \<mapsto> ?at))) \<and>
    (err = None \<longrightarrow> ab_snap (disk (el_log L')) = Some (?at, st) \<and>
       ab_commit (disk (el_log L')) group_name = Some ?at)"
  proof (cases serr)
    case (Some e)
    with assms s d(1) show ?thesis by (auto simp: log_save_def Let_def)
  next
    case None
    with assms s have c: "log_commit sp (L\<lparr>el_log := l\<rparr>) = (err, L')" by (simp add: log_save_def Let_def)
    from log_commit_effect [OF c] d(2) [OF None] show ?thesis by auto
  qed
  then show "el_reader L' = el_reader L" "ab_recs (disk (el_log L')) = recs (el_log L)"
    "ab_first (disk (el_log L')) = ab_first (disk (el_log L))"
    "disk (el_log L') = disk (el_log L) \<or>
     ab_snap (disk (el_log L')) = Some (?at, st) \<and>
     (ab_commit (disk (el_log L')) = ab_commit (disk (el_log L)) \<or>
      ab_commit (disk (el_log L')) = (ab_commit (disk (el_log L)))(group_name \<mapsto> ?at))"
    "err = None \<Longrightarrow> ab_snap (disk (el_log L')) = Some (?at, st) \<and>
       ab_commit (disk (el_log L')) group_name = Some ?at"
    by blast+
qed

lemma log_save_keeps:
  assumes "log_save sp st L = (err, L')"
  shows "wf_of sp disk L' = wf_of sp disk L" "hist_of disk L' = hist_of disk L"
    "cur_of sp disk L' = cur_of sp disk L" "backed sp disk L \<Longrightarrow> backed sp disk L'"
proof -
  note e = log_save_effect [OF assms]
  show "wf_of sp disk L' = wf_of sp disk L" "hist_of disk L' = hist_of disk L"
    "cur_of sp disk L' = cur_of sp disk L"
    using e(1-3) by (simp_all add: wf_of_def hist_of_def cur_of_def ab_next_def)
  assume b: "backed sp disk L"
  from e(4) show "backed sp disk L'"
  proof
    assume "disk (el_log L') = disk (el_log L)"
    with b e(1) show ?thesis by (simp add: backed_def)
  next
    assume "ab_snap (disk (el_log L')) = Some (rd_offset sp (el_reader L), st) \<and>
     (ab_commit (disk (el_log L')) = ab_commit (disk (el_log L)) \<or>
      ab_commit (disk (el_log L')) = (ab_commit (disk (el_log L)))(group_name \<mapsto> rd_offset sp (el_reader L)))"
    with b e(1) show ?thesis unfolding backed_def by fastforce
  qed
qed

lemma log_append_disk:
  assumes "log_append sp es L = (err, L')"
  shows "el_reader L' = el_reader L" "ab_snap (disk (el_log L')) = ab_snap (disk (el_log L))"
    "ab_commit (disk (el_log L')) = ab_commit (disk (el_log L))"
    "ab_first (disk (el_log L')) = ab_first (disk (el_log L))"
    "\<exists>more. ab_recs (disk (el_log L')) = recs (el_log L) @ more"
proof -
  have "el_reader L' = el_reader L \<and>
     (\<exists>more. disk (el_log L') = (disk (el_log L))\<lparr>ab_recs := recs (el_log L) @ more\<rparr>)"
  proof (cases "encode_all (sp_validate sp) es")
    case (Inl e)
    with assms show ?thesis by (auto simp: log_append_def split: if_splits intro: exI [of _ "[]"])
  next
    case (Inr rs)
    obtain aerr l where a: "sp_append sp rs (el_log L) = (aerr, l)"
      by (cases "sp_append sp rs (el_log L)")
    have "\<exists>more. disk l = (disk (el_log L))\<lparr>ab_recs := recs (el_log L) @ more\<rparr>"
      using a append_ok append_err by (cases aerr) blast+
    with assms Inr a show ?thesis
      by (cases "es = []") (auto simp: log_append_def split: option.splits intro: exI [of _ "[]"])
  qed
  then show "el_reader L' = el_reader L" "ab_snap (disk (el_log L')) = ab_snap (disk (el_log L))"
    "ab_commit (disk (el_log L')) = ab_commit (disk (el_log L))"
    "ab_first (disk (el_log L')) = ab_first (disk (el_log L))"
    "\<exists>more. ab_recs (disk (el_log L')) = recs (el_log L) @ more" by auto
qed

end

context spine_laws
begin

lemma log_restore_ok:
  assumes "wf_of sp disk L"
    "\<And>p st. ab_snap (disk (el_log L)) = Some (p, st) \<Longrightarrow>
       ab_first (disk (el_log L)) \<le> p \<and> p \<le> ab_next (disk (el_log L))"
  shows "\<exists>res. log_restore sp L = Some res \<and>
    (\<forall>st off tail. res = Inr (st, off, tail) \<longrightarrow>
       (case ab_snap (disk (el_log L)) of
          None \<Rightarrow> st = None \<and> off = 0 \<and> tail = hist_of disk L
        | Some (p, s) \<Rightarrow> st = Some s \<and> off = p \<and>
            tail = drop (nat (p - ab_first (disk (el_log L)))) (hist_of disk L)))"
proof -
  obtain err s r where re: "sp_restore sp (el_log L) = (err, s, r)" by (cases "sp_restore sp (el_log L)")
  have dec: "list_all (\<lambda>r. is_ok (from_core r)) (recs (el_log L))" using assms(1) by (simp add: wf_of_def)
  show ?thesis
  proof (cases err)
    case None
    then obtain p st where p: "ss_State s = Some st" "ab_snap (disk (el_log L)) = Some (p, st)" "ss_Offset s = p"
      "rd_offset sp r = p" using restore_ok re by blast
    let ?k = "nat (p - ab_first (disk (el_log L)))"
    have "rd_offset sp r = ab_first (disk (el_log L)) + int ?k" "?k \<le> length (recs (el_log L))"
      using assms(2) [OF p(2)] p(4) by (auto simp: ab_next_def)
    from read_rest [OF this dec, of "''restore''"]
    obtain lerr out r' where rl: "read_loop sp ''restore'' 0 (el_log L) r [] = Some (lerr, out, r')"
      "lerr = None \<longrightarrow> out = drop ?k (hist_of disk L)" by (auto simp: hist_of_def)
    with re None p show ?thesis by (cases lerr) (simp_all add: log_restore_def)
  next
    case (Some e)
    show ?thesis
    proof (cases "errors_is e (Spine ErrNoSnapshot)")
      case True
      with restore_none re Some have n: "ab_snap (disk (el_log L)) = None"
        "s = \<lparr>ss_Offset = 0, ss_State = None\<rparr>" "rd_offset sp r = ab_first (disk (el_log L)) + int 0" by auto
      from read_rest [OF n(3) _ dec, of "''restore''"]
      obtain lerr out r' where "read_loop sp ''restore'' 0 (el_log L) r [] = Some (lerr, out, r')"
        "lerr = None \<longrightarrow> out = hist_of disk L" by (auto simp: hist_of_def)
      with re Some True n(1,2) show ?thesis by (cases lerr) (simp_all add: log_restore_def)
    next
      case False
      with re Some show ?thesis by (simp add: log_restore_def)
    qed
  qed
qed

lemma committed_of_ok:
  assumes "committed_of sp l = (None, c)"
  shows "c = ab_resume group_name (disk l)"
proof -
  obtain err p where g: "gr_committed sp group_name l = (err, p)" by (cases "gr_committed sp group_name l")
  show ?thesis
  proof (cases err)
    case None
    with g committed_ok assms show ?thesis by (simp add: committed_of_def ab_resume_def)
  next
    case (Some e)
    with g committed_none assms show ?thesis
      by (cases "errors_is e (Spine ErrNoGroup)") (auto simp: committed_of_def ab_resume_def)
  qed
qed

text \<open>Repositioning resumes at the commit, and at the start when the commit outlived its records.\<close>

lemma reposition_ok:
  assumes "reposition sp l = Inr r"
  shows "rd_offset sp r = (if ab_resume group_name (disk l) > ab_next (disk l) then ab_first (disk l)
    else ab_resume group_name (disk l))"
proof -
  obtain c where c: "committed_of sp l = (None, c)"
    using assms by (auto simp: reposition_def split: prod.splits option.splits)
  with assms committed_of_ok [OF c] show ?thesis
    by (auto simp: reposition_def reader_at group_reader split: if_splits sum.splits)
qed

lemma open_with_ok:
  assumes "open_with sp fs cfg = (Inr L, rc)"
    "\<And>l rc. sp_open sp fs cfg = (None, l, rc) \<Longrightarrow>
       list_all (\<lambda>r. is_ok (from_core r)) (recs l) \<and> ab_first (disk l) \<le> ab_resume group_name (disk l)"
  shows "wf_of sp disk L"
proof -
  obtain l0 l where o: "sp_open sp fs cfg = (None, l0, rc)" "gr_open sp group_name l0 = (None, l)"
    and r: "reposition sp l = Inr (el_reader L)" and L: "el_log L = l"
    using assms(1)
    by (auto simp: open_with_def split: prod.splits option.splits sum.splits)
  have "disk l = disk l0" by (rule group_open [OF o(2)])
  with assms(2) [OF o(1)] reposition_ok [OF r] show ?thesis by (auto simp: wf_of_def L)
qed

text \<open>
  After a truncation at \<open>rc_Next\<close>, a successful rewind leaves neither a snapshot nor a commit
  beyond it; a snapshot that is beyond it is refused.
\<close>

lemma rewind_ok:
  assumes "rewind sp rc L = (None, L')" "rc_Discarded rc \<noteq> 0"
  shows "ab_resume group_name (disk (el_log L')) \<le> rc_Next rc"
    "ab_snap (disk (el_log L')) = ab_snap (disk (el_log L))"
    "ab_recs (disk (el_log L')) = recs (el_log L)"
    "\<And>p st. ab_snap (disk (el_log L')) = Some (p, st) \<Longrightarrow> p \<le> rc_Next rc"
proof -
  have latest: "\<And>s. sp_latest sp (el_log L) = Inr s \<Longrightarrow> ss_Offset s \<le> rc_Next rc"
    using assms by (auto simp: rewind_def Let_def split: if_splits option.splits sum.splits prod.splits)
  obtain c where c: "committed_of sp (el_log L) = (None, c)"
    using assms
    by (auto simp: rewind_def Let_def log_committed_def split: if_splits option.splits sum.splits prod.splits)
  note cr = committed_of_ok [OF c]
  have eff: "ab_resume group_name (disk (el_log L')) \<le> rc_Next rc \<and>
    ab_snap (disk (el_log L')) = ab_snap (disk (el_log L)) \<and> ab_recs (disk (el_log L')) = recs (el_log L)"
  proof (cases "c \<le> rc_Next rc")
    case True
    with assms c cr show ?thesis
      by (auto simp: rewind_def Let_def log_committed_def split: if_splits option.splits sum.splits)
  next
    case False
    with assms c obtain l where "gr_commit sp group_name (rc_Next rc) (el_log L) = (None, l)" "el_log L' = l"
      by (auto simp: rewind_def Let_def log_committed_def split: if_splits option.splits sum.splits prod.splits)
    with commit_ok show ?thesis by (auto simp: ab_resume_def)
  qed
  then show "ab_resume group_name (disk (el_log L')) \<le> rc_Next rc"
    "ab_snap (disk (el_log L')) = ab_snap (disk (el_log L))" "ab_recs (disk (el_log L')) = recs (el_log L)"
    by blast+
  fix p st assume "ab_snap (disk (el_log L')) = Some (p, st)"
  with eff have snap: "ab_snap (disk (el_log L)) = Some (p, st)" by simp
  show "p \<le> rc_Next rc"
  proof (cases "sp_latest sp (el_log L)")
    case (Inr b)
    with latest_ok [OF Inr] latest [OF Inr] snap show ?thesis by auto
  next
    case (Inl e)
    with latest_none [OF Inl] snap assms show ?thesis by (auto simp: rewind_def Let_def split: if_splits)
  qed
qed

end

end
