(* ===== verification/Metrics.thy ===== *)
theory Metrics
  imports Prelude
begin

text \<open>
  \<^verbatim>\<open>internal/metrics/metrics.go\<close>: the recorder the components report to. Components keep the
  calls they made, in order (\<open>metric_call\<close>), and \<open>record_call\<close> is what the recorder does with
  one. Prometheus collectors are counters here: the number of observations of a histogram,
  the value of a counter per label, how often the freshness gauge was set. The durations and
  times observed are wall-clock readings and are left out. The pending gauge is the package's
  own map from run ID to backlog, summed at scrape time.
\<close>

datatype metric_call =
    ObserveTick
  | ObserveEvent string
  | ObserveSnapshotDropped
  | ObservePublish
  | ObservePending string int
  | ObserveSnapshotSaveRetry
  | ObserveSnapshotSaveFailure
  | ForgetRun string
  | ObserveRPC string string

record recorder =
  tickObservations :: int
  eventsProcessed :: "string \<Rightarrow> int"
  snapshotsDroppedTotal :: int
  publishes :: int
  saveRetriesTotal :: int
  saveFailuresTotal :: int
  rpcObservations :: "string \<times> string \<Rightarrow> int"
  pendingByRun :: "(string \<times> int) list"

definition new_recorder :: recorder where
  "new_recorder =
     \<lparr>tickObservations = 0, eventsProcessed = (\<lambda>_. 0), snapshotsDroppedTotal = 0, publishes = 0,
      saveRetriesTotal = 0, saveFailuresTotal = 0, rpcObservations = (\<lambda>_. 0), pendingByRun = []\<rparr>"

fun record_call :: "recorder \<Rightarrow> metric_call \<Rightarrow> recorder" where
  "record_call r ObserveTick = r\<lparr>tickObservations := tickObservations r + 1\<rparr>"
| "record_call r (ObserveEvent out) =
     r\<lparr>eventsProcessed := (eventsProcessed r)(out := eventsProcessed r out + 1)\<rparr>"
| "record_call r ObserveSnapshotDropped = r\<lparr>snapshotsDroppedTotal := snapshotsDroppedTotal r + 1\<rparr>"
| "record_call r ObservePublish = r\<lparr>publishes := publishes r + 1\<rparr>"
| "record_call r (ObservePending run n) =
     r\<lparr>pendingByRun := (run, n) # filter (\<lambda>p. fst p \<noteq> run) (pendingByRun r)\<rparr>"
| "record_call r ObserveSnapshotSaveRetry = r\<lparr>saveRetriesTotal := saveRetriesTotal r + 1\<rparr>"
| "record_call r ObserveSnapshotSaveFailure = r\<lparr>saveFailuresTotal := saveFailuresTotal r + 1\<rparr>"
| "record_call r (ForgetRun run) =
     r\<lparr>pendingByRun := filter (\<lambda>p. fst p \<noteq> run) (pendingByRun r)\<rparr>"
| "record_call r (ObserveRPC method code) =
     r\<lparr>rpcObservations := (rpcObservations r)((method, code) := rpcObservations r (method, code) + 1)\<rparr>"

definition total_pending :: "recorder \<Rightarrow> int" where
  "total_pending r = sum_list (map snd (pendingByRun r))"

text \<open>A nil recorder takes no call: \<open>observe\<close> appends only when there is one.\<close>

definition observe :: "bool \<Rightarrow> metric_call \<Rightarrow> metric_call list \<Rightarrow> metric_call list" where
  "observe has c cs = (if has then cs @ [c] else cs)"

lemma pending_distinct:
  "distinct (map fst (pendingByRun r)) \<Longrightarrow> distinct (map fst (pendingByRun (record_call r c)))"
  by (cases c) (auto simp: distinct_map_filter)

lemma pending_recorded:
  "map_of (pendingByRun (record_call r (ObservePending run n))) run = Some n"
  "other \<noteq> run \<Longrightarrow> map_of (pendingByRun (record_call r (ObservePending run n))) other
     = map_of (pendingByRun r) other"
proof -
  have "map_of (filter (\<lambda>p. fst p \<noteq> run) xs) other = map_of xs other" if "other \<noteq> run"
    for xs :: "(string \<times> int) list"
    using that by (induction xs) auto
  then show "other \<noteq> run \<Longrightarrow> map_of (pendingByRun (record_call r (ObservePending run n))) other
     = map_of (pendingByRun r) other" by simp
qed simp

lemma sum_filter_key:
  assumes "distinct (map fst xs)"
  shows "sum_list (map snd (filter (\<lambda>p. fst p \<noteq> k) xs))
       = sum_list (map snd xs) - (case map_of xs k of None \<Rightarrow> 0 | Some v \<Rightarrow> (v :: int))"
  using assms
proof (induction xs)
  case Nil
  then show ?case by simp
next
  case (Cons x xs)
  show ?case
  proof (cases "fst x = k")
    case True
    with Cons.prems have "k \<notin> fst ` set xs" by auto
    then have "\<forall>p \<in> set xs. fst p \<noteq> k" by (metis image_eqI)
    then have "filter (\<lambda>p. fst p \<noteq> k) xs = xs" by simp
    moreover from True Cons.prems have "map_of xs k = None" by (simp add: map_of_eq_None_iff)
    ultimately show ?thesis using True by (cases x) simp
  next
    case False
    with Cons show ?thesis by (cases x) auto
  qed
qed

text \<open>Recording or forgetting one run moves the total by exactly that run's change.\<close>

lemma total_pending_record:
  assumes "distinct (map fst (pendingByRun r))"
  shows "total_pending (record_call r (ObservePending run n))
       = total_pending r - (case map_of (pendingByRun r) run of None \<Rightarrow> 0 | Some v \<Rightarrow> v) + n"
    "total_pending (record_call r (ForgetRun run))
       = total_pending r - (case map_of (pendingByRun r) run of None \<Rightarrow> 0 | Some v \<Rightarrow> v)"
  using sum_filter_key [OF assms, of run] by (simp_all add: total_pending_def)

end
