(* ===== verification/Processor.thy ===== *)
theory Processor
  imports Garden Metrics "HOL-Library.List_Lexorder" "HOL-Library.Char_ord"
begin

text \<open>
  \<^verbatim>\<open>internal/processor/processor.go\<close>: validate, deduplicate, apply. The deduplication table is
  a set of keys. \<^verbatim>\<open>ByType\<close> is a Go map, kept as the association list with ascending keys,
  which is the one list that stands for a map. The processor owns the garden; the simulation
  reads it through the processor, as the shared pointer does.
\<close>

type_synonym counts = "(string \<times> int) list"

fun count_add :: "string \<Rightarrow> int \<Rightarrow> counts \<Rightarrow> counts" where
  "count_add k v [] = [(k, v)]"
| "count_add k v ((a, b) # ps) =
     (if k < a then (k, v) # (a, b) # ps
      else if k = a then (a, b + v) # ps
      else (a, b) # count_add k v ps)"

record proc_stats =
  Received :: int
  Applied :: int
  NoEffect :: int
  Duplicates :: int
  Rejected :: int
  UnknownEntity :: int
  ByType :: counts

definition zero_stats :: proc_stats where
  "zero_stats = \<lparr>Received = 0, Applied = 0, NoEffect = 0, Duplicates = 0, Rejected = 0,
     UnknownEntity = 0, ByType = []\<rparr>"

record proc_result =
  res_Outcome :: outcome
  res_Duplicate :: bool
  res_Err :: "go_error option"

record processor =
  p_garden :: garden
  p_applied :: "string set"
  p_stats :: proc_stats
  p_metrics :: bool
  p_obs :: "metric_call list"

definition new_processor :: "garden \<Rightarrow> bool \<Rightarrow> processor" where
  "new_processor g m =
     \<lparr>p_garden = g, p_applied = {}, p_stats = zero_stats, p_metrics = m, p_obs = []\<rparr>"

definition p_observe :: "metric_call \<Rightarrow> processor \<Rightarrow> processor" where
  "p_observe c p = p\<lparr>p_obs := observe (p_metrics p) c (p_obs p)\<rparr>"

definition process :: "processor \<Rightarrow> event \<Rightarrow> proc_result \<times> processor" where
  "process p e =
     (let p = p\<lparr>p_stats := (p_stats p)\<lparr>Received := Received (p_stats p) + 1\<rparr>\<rparr> in
      case validate_event e of
        Some err \<Rightarrow>
          (\<lparr>res_Outcome = OutcomeUnset, res_Duplicate = False, res_Err = Some err\<rparr>,
           p_observe (ObserveEvent ''rejected'')
             (p\<lparr>p_stats := (p_stats p)\<lparr>Rejected := Rejected (p_stats p) + 1\<rparr>\<rparr>))
      | None \<Rightarrow>
          (let key = idempotency_key e in
           if key \<in> p_applied p then
             (\<lparr>res_Outcome = OutcomeUnset, res_Duplicate = True, res_Err = None\<rparr>,
              p_observe (ObserveEvent ''duplicate'')
                (p\<lparr>p_stats := (p_stats p)\<lparr>Duplicates := Duplicates (p_stats p) + 1\<rparr>\<rparr>))
           else
             (let (out, g) = apply_event (p_garden p) e;
                  st = (p_stats p)\<lparr>ByType := count_add (Type e) 1 (ByType (p_stats p))\<rparr>;
                  p = p\<lparr>p_applied := insert key (p_applied p), p_garden := g\<rparr>
              in (\<lparr>res_Outcome = out, res_Duplicate = False, res_Err = None\<rparr>,
                  case out of
                    OutcomeApplied \<Rightarrow>
                      p_observe (ObserveEvent ''applied'')
                        (p\<lparr>p_stats := st\<lparr>Applied := Applied st + 1\<rparr>\<rparr>)
                  | OutcomeUnknownEntity \<Rightarrow>
                      p_observe (ObserveEvent ''unknown_entity'')
                        (p\<lparr>p_stats := st\<lparr>UnknownEntity := UnknownEntity st + 1\<rparr>\<rparr>)
                  | _ \<Rightarrow>
                      p_observe (ObserveEvent ''no_effect'')
                        (p\<lparr>p_stats := st\<lparr>NoEffect := NoEffect st + 1\<rparr>\<rparr>)))))"

fun process_batch_loop ::
  "go_error list \<Rightarrow> processor \<Rightarrow> event list \<Rightarrow> go_error list \<times> processor" where
  "process_batch_loop errs p [] = (errs, p)"
| "process_batch_loop errs p (e # es) =
     (let (r, p') = process p e
      in process_batch_loop (case res_Err r of None \<Rightarrow> errs | Some err \<Rightarrow> errs @ [err]) p' es)"

definition process_batch :: "processor \<Rightarrow> event list \<Rightarrow> go_error option \<times> processor" where
  "process_batch p es = (let (errs, p') = process_batch_loop [] p es in (errors_join errs, p'))"

definition restore_stats :: "processor \<Rightarrow> proc_stats \<Rightarrow> processor" where
  "restore_stats p s = p\<lparr>p_stats := s\<rparr>"

subsection \<open>Consuming each key once\<close>

text \<open>
  What an idempotent consumer promises: a valid event whose key is new is applied and its key
  remembered; any other event leaves both the state and the keys alone. Everything the
  simulation, the replay and the restart need of the processor follows from these two laws.
\<close>

fun first_seen :: "('e \<Rightarrow> bool) \<Rightarrow> ('e \<Rightarrow> 'k) \<Rightarrow> 'k set \<Rightarrow> 'e list \<Rightarrow> 'e list" where
  "first_seen valid key K [] = []"
| "first_seen valid key K (e # es) =
     (if valid e \<and> key e \<notin> K then e # first_seen valid key (insert (key e) K) es
      else first_seen valid key K es)"

locale exactly_once =
  fixes valid :: "'e \<Rightarrow> bool" and key :: "'e \<Rightarrow> 'k" and app :: "'s \<Rightarrow> 'e \<Rightarrow> 's"
    and consume :: "'c \<Rightarrow> 'e \<Rightarrow> 'c" and state :: "'c \<Rightarrow> 's" and seen :: "'c \<Rightarrow> 'k set"
  assumes fresh_state: "valid e \<Longrightarrow> key e \<notin> seen c \<Longrightarrow> state (consume c e) = app (state c) e"
    and fresh_seen: "valid e \<Longrightarrow> key e \<notin> seen c \<Longrightarrow> seen (consume c e) = insert (key e) (seen c)"
    and stale_state: "\<not> valid e \<or> key e \<in> seen c \<Longrightarrow> state (consume c e) = state c"
    and stale_seen: "\<not> valid e \<or> key e \<in> seen c \<Longrightarrow> seen (consume c e) = seen c"
begin

lemma seen_run:
  "seen (run_list consume c es) = seen c \<union> key ` {e \<in> set es. valid e}"
proof (induction es arbitrary: c)
  case Nil
  then show ?case by simp
next
  case (Cons e es)
  show ?case
  proof (cases "valid e \<and> key e \<notin> seen c")
    case True
    then show ?thesis by (auto simp: Cons fresh_seen)
  next
    case False
    then show ?thesis by (auto simp: Cons stale_seen)
  qed
qed

lemma state_run:
  "state (run_list consume c es) = run_list app (state c) (first_seen valid key (seen c) es)"
  by (induction es arbitrary: c) (auto simp: fresh_state fresh_seen stale_state stale_seen)

lemma state_run_cong:
  "state c = state d \<Longrightarrow> seen c = seen d \<Longrightarrow>
     state (run_list consume c es) = state (run_list consume d es)"
  by (simp add: state_run)

lemma redelivery_absorbed:
  assumes "x \<in> set xs" "valid x" "key e = key x"
  shows "state (run_list consume c (xs @ e # ys)) = state (run_list consume c (xs @ ys))"
    "seen (run_list consume c (xs @ e # ys)) = seen (run_list consume c (xs @ ys))"
proof -
  let ?c = "run_list consume c xs"
  have "key e \<in> seen ?c" using assms by (auto simp: seen_run)
  then have "state (consume ?c e) = state ?c" "seen (consume ?c e) = seen ?c"
    by (simp_all add: stale_state stale_seen)
  then show "state (run_list consume c (xs @ e # ys)) = state (run_list consume c (xs @ ys))"
    "seen (run_list consume c (xs @ e # ys)) = seen (run_list consume c (xs @ ys))"
    by (simp_all add: run_list_append state_run seen_run)
qed

lemma first_seen_disjoint:
  assumes "\<forall>e \<in> set es. valid e \<longrightarrow> key e \<notin> K"
  shows "first_seen valid key (K \<union> L) es = first_seen valid key L es"
  using assms by (induction es arbitrary: L) (auto simp flip: Un_insert_right)

text \<open>Forgetting the keys at a cut is harmless when no key occurs on both sides of it.\<close>

lemma restart_sound:
  assumes "\<forall>e \<in> set ys. valid e \<longrightarrow> key e \<notin> seen (run_list consume c xs)"
    and "state d = state (run_list consume c xs)" and "seen d = {}"
  shows "state (run_list consume d ys) = state (run_list consume c (xs @ ys))"
  using first_seen_disjoint [OF assms(1), of "{}"] assms(2,3)
  by (simp add: run_list_append state_run)

end

definition consume :: "processor \<Rightarrow> event \<Rightarrow> processor" where
  "consume p e = snd (process p e)"

definition apply_to :: "garden \<Rightarrow> event \<Rightarrow> garden" where
  "apply_to g e = snd (apply_event g e)"

lemma p_observe_sel [simp]:
  "p_garden (p_observe c p) = p_garden p" "p_applied (p_observe c p) = p_applied p"
  "p_stats (p_observe c p) = p_stats p" "p_metrics (p_observe c p) = p_metrics p"
  by (simp_all add: p_observe_def)

lemma process_invalid:
  assumes "\<not> event_ok e"
  shows "p_garden (consume p e) = p_garden p" "p_applied (consume p e) = p_applied p"
    "p_stats (consume p e)
       = (p_stats p)\<lparr>Received := Received (p_stats p) + 1, Rejected := Rejected (p_stats p) + 1\<rparr>"
    "res_Err (fst (process p e)) = validate_event e"
proof -
  obtain err where "validate_event e = Some err"
    using assms validate_event_None_iff [of e] by fastforce
  then show "p_garden (consume p e) = p_garden p" "p_applied (consume p e) = p_applied p"
    "p_stats (consume p e)
       = (p_stats p)\<lparr>Received := Received (p_stats p) + 1, Rejected := Rejected (p_stats p) + 1\<rparr>"
    "res_Err (fst (process p e)) = validate_event e"
    by (simp_all add: consume_def process_def Let_def)
qed

lemma process_duplicate:
  assumes "event_ok e" "idempotency_key e \<in> p_applied p"
  shows "p_garden (consume p e) = p_garden p" "p_applied (consume p e) = p_applied p"
    "p_stats (consume p e)
       = (p_stats p)\<lparr>Received := Received (p_stats p) + 1, Duplicates := Duplicates (p_stats p) + 1\<rparr>"
    "res_Err (fst (process p e)) = None" "res_Duplicate (fst (process p e))"
proof -
  have "validate_event e = None" using assms by (simp add: validate_event_None_iff)
  with assms(2) show "p_garden (consume p e) = p_garden p" "p_applied (consume p e) = p_applied p"
    "p_stats (consume p e)
       = (p_stats p)\<lparr>Received := Received (p_stats p) + 1, Duplicates := Duplicates (p_stats p) + 1\<rparr>"
    "res_Err (fst (process p e)) = None" "res_Duplicate (fst (process p e))"
    by (simp_all add: consume_def process_def Let_def)
qed

lemma process_fresh:
  assumes "event_ok e" "idempotency_key e \<notin> p_applied p"
  shows "p_garden (consume p e) = apply_to (p_garden p) e"
    "p_applied (consume p e) = insert (idempotency_key e) (p_applied p)"
    "p_stats (consume p e) =
       (let st = (p_stats p)\<lparr>Received := Received (p_stats p) + 1,
                   ByType := count_add (Type e) 1 (ByType (p_stats p))\<rparr>
        in case fst (apply_event (p_garden p) e) of
             OutcomeApplied \<Rightarrow> st\<lparr>Applied := Applied st + 1\<rparr>
           | OutcomeUnknownEntity \<Rightarrow> st\<lparr>UnknownEntity := UnknownEntity st + 1\<rparr>
           | _ \<Rightarrow> st\<lparr>NoEffect := NoEffect st + 1\<rparr>)"
    "fst (process p e) = \<lparr>res_Outcome = fst (apply_event (p_garden p) e), res_Duplicate = False,
       res_Err = None\<rparr>"
proof -
  have "validate_event e = None" using assms by (simp add: validate_event_None_iff)
  with assms(2) show "p_garden (consume p e) = apply_to (p_garden p) e"
    "p_applied (consume p e) = insert (idempotency_key e) (p_applied p)"
    "p_stats (consume p e) =
       (let st = (p_stats p)\<lparr>Received := Received (p_stats p) + 1,
                   ByType := count_add (Type e) 1 (ByType (p_stats p))\<rparr>
        in case fst (apply_event (p_garden p) e) of
             OutcomeApplied \<Rightarrow> st\<lparr>Applied := Applied st + 1\<rparr>
           | OutcomeUnknownEntity \<Rightarrow> st\<lparr>UnknownEntity := UnknownEntity st + 1\<rparr>
           | _ \<Rightarrow> st\<lparr>NoEffect := NoEffect st + 1\<rparr>)"
    "fst (process p e) = \<lparr>res_Outcome = fst (apply_event (p_garden p) e), res_Duplicate = False,
       res_Err = None\<rparr>"
    by (auto simp: consume_def apply_to_def process_def Let_def split_beta split: outcome.splits)
qed

interpretation proc: exactly_once event_ok idempotency_key apply_to consume p_garden p_applied
proof unfold_locales
  fix e and c :: processor assume stale: "\<not> event_ok e \<or> idempotency_key e \<in> p_applied c"
  then show "p_garden (consume c e) = p_garden c" "p_applied (consume c e) = p_applied c"
    by (cases "event_ok e"; simp add: process_invalid process_duplicate)+
qed (simp_all add: process_fresh)

lemma process_batch_loop_run:
  "process_batch_loop errs p es
     = (errs @ map (\<lambda>e. the (validate_event e)) (filter (\<lambda>e. \<not> event_ok e) es),
        run_list consume p es)"
proof (induction es arbitrary: errs p)
  case Nil
  then show ?case by simp
next
  case (Cons e es)
  have err: "res_Err (fst (process p e)) = (if event_ok e then None else validate_event e)"
    using process_invalid(4) [of e p] process_duplicate(4) [of e p] process_fresh(4) [of e p]
    by (cases "idempotency_key e \<in> p_applied p") auto
  show ?case
  proof (cases "event_ok e")
    case True
    with err Cons show ?thesis by (simp add: split_beta consume_def)
  next
    case False
    then obtain v where "validate_event e = Some v"
      using validate_event_None_iff [of e] by fastforce
    with False err Cons show ?thesis by (simp add: split_beta consume_def)
  qed
qed

lemma process_batch_run:
  "snd (process_batch p es) = run_list consume p es"
  "fst (process_batch p es) = None \<longleftrightarrow> list_all event_ok es"
  by (simp_all add: process_batch_def process_batch_loop_run list_all_iff filter_empty_conv)

subsection \<open>The counters\<close>

definition count_total :: "counts \<Rightarrow> int" where
  "count_total m = sum_list (map snd m)"

definition count_keys_sorted :: "counts \<Rightarrow> bool" where
  "count_keys_sorted m \<longleftrightarrow> sorted_wrt (<) (map fst m)"

lemma count_total_add [simp]: "count_total (count_add k v m) = count_total m + v"
  by (induction k v m rule: count_add.induct) (auto simp: count_total_def)

lemma count_add_keys: "set (map fst (count_add k v m)) = insert k (set (map fst m))"
  by (induction k v m rule: count_add.induct) auto

lemma count_add_sorted: "count_keys_sorted m \<Longrightarrow> count_keys_sorted (count_add k v m)"
  unfolding count_keys_sorted_def
proof (induction k v m rule: count_add.induct)
  case (2 k v a b ps)
  then show ?case using count_add_keys [of k v ps] by (auto simp: not_less less_le)
qed simp

lemma count_add_lookup:
  "count_keys_sorted m \<Longrightarrow> map_of (count_add k v m) j =
     (if j = k then Some ((case map_of m k of None \<Rightarrow> 0 | Some n \<Rightarrow> n) + v) else map_of m j)"
  unfolding count_keys_sorted_def
proof (induction k v m rule: count_add.induct)
  case (2 k v a b ps)
  have "k \<noteq> a \<Longrightarrow> k < a \<Longrightarrow> map_of ps k = None"
    using "2.prems" by (auto simp: map_of_eq_None_iff)
  with 2 show ?case by auto
qed simp

definition stats_ok :: "proc_stats \<Rightarrow> bool" where
  "stats_ok s \<longleftrightarrow>
     Received s = Applied s + NoEffect s + Duplicates s + Rejected s + UnknownEntity s \<and>
     count_total (ByType s) = Applied s + NoEffect s + UnknownEntity s \<and>
     count_keys_sorted (ByType s)"

lemma zero_stats_ok: "stats_ok zero_stats"
  by (simp add: stats_ok_def zero_stats_def count_total_def count_keys_sorted_def)

lemma consume_stats_ok:
  assumes "stats_ok (p_stats p)"
  shows "stats_ok (p_stats (consume p e))"
proof (cases "event_ok e")
  case False
  with assms show ?thesis by (simp add: process_invalid stats_ok_def)
next
  case True
  show ?thesis
  proof (cases "idempotency_key e \<in> p_applied p")
    case dup: True
    with True assms show ?thesis by (simp add: process_duplicate stats_ok_def)
  next
    case False
    with True assms show ?thesis
      by (auto simp: process_fresh stats_ok_def count_add_sorted Let_def split: outcome.splits)
  qed
qed

lemma consume_garden_wf: "garden_wf (p_garden p) \<Longrightarrow> garden_wf (p_garden (consume p e))"
  using process_fresh(1) process_invalid(1) process_duplicate(1) apply_event_wf
  by (cases "event_ok e"; cases "idempotency_key e \<in> p_applied p") (auto simp: apply_to_def)

lemma apply_to_shape: "garden_shape g \<Longrightarrow> garden_shape (apply_to g e)"
  by (simp add: apply_to_def apply_event_shape)

lemma consume_metrics [simp]: "p_metrics (consume p e) = p_metrics p"
  by (auto simp: consume_def process_def Let_def split_beta split: option.splits outcome.splits)

lemma run_consume_metrics [simp]: "p_metrics (run_list consume p es) = p_metrics p"
  by (induction es arbitrary: p) auto

lemma run_consume_stats_ok: "stats_ok (p_stats p) \<Longrightarrow> stats_ok (p_stats (run_list consume p es))"
  using run_list_invariant [where P = "\<lambda>p. stats_ok (p_stats p)" and f = consume] consume_stats_ok
  by blast

lemma run_consume_garden_wf: "garden_wf (p_garden p) \<Longrightarrow> garden_wf (p_garden (run_list consume p es))"
  using run_list_invariant [where P = "\<lambda>p. garden_wf (p_garden p)" and f = consume] consume_garden_wf
  by blast

lemma run_consume_received:
  "Received (p_stats (run_list consume p es)) = Received (p_stats p) + int (length es)"
proof (induction es arbitrary: p)
  case Nil
  then show ?case by simp
next
  case (Cons e es)
  have "Received (p_stats (consume p e)) = Received (p_stats p) + 1"
    by (cases "event_ok e"; cases "idempotency_key e \<in> p_applied p")
       (simp_all add: process_invalid process_duplicate process_fresh Let_def split: outcome.splits)
  with Cons show ?case by simp
qed

subsection \<open>Properties of the processor\<close>

text \<open>
  C6. The garden after a batch is the garden after applying, in order, the first valid
  occurrence of every idempotency key the processor has not seen: redeliveries and invalid
  events do not count, and the batch reports an error exactly when some event is invalid.
\<close>

theorem batch_applies_first_occurrences:
  "p_garden (snd (process_batch p es))
     = run_list apply_to (p_garden p) (first_seen event_ok idempotency_key (p_applied p) es) \<and>
   p_applied (snd (process_batch p es)) = p_applied p \<union> idempotency_key ` {e \<in> set es. event_ok e} \<and>
   (fst (process_batch p es) = None \<longleftrightarrow> list_all event_ok es)"
  by (simp add: process_batch_run proc.state_run proc.seen_run)

text \<open>
  C7. A redelivery, wherever it arrives after the first delivery, leaves the garden and the
  table of keys as they would be without it.
\<close>

theorem redelivery_is_absorbed:
  assumes "e \<in> set xs" "event_ok e"
  shows "p_garden (snd (process_batch p (xs @ e\<lparr>Attempt := a\<rparr> # ys))) = p_garden (snd (process_batch p (xs @ ys))) \<and>
    p_applied (snd (process_batch p (xs @ e\<lparr>Attempt := a\<rparr> # ys))) = p_applied (snd (process_batch p (xs @ ys)))"
  using proc.redelivery_absorbed [OF assms, of "e\<lparr>Attempt := a\<rparr>"] by (simp add: process_batch_run)

theorem redelivery_is_absorbed_witness:
  "p_garden (snd (process_batch (new_processor two_plants False) [rain_on 1, (rain_on 1)\<lparr>Attempt := 2\<rparr>]))
     = p_garden (snd (process_batch (new_processor two_plants False) [rain_on 1]))"
proof -
  have "event_ok (rain_on 1)"
    by (simp add: rain_on_def event_ok_def type_valid_def is_organism_event_def organism_id_def)
  then show ?thesis
    using redelivery_is_absorbed [of "rain_on 1" "[rain_on 1]" "new_processor two_plants False" 2 "[]"] by simp
qed

text \<open>
  C8. The counters account for every event: received is the sum of the five dispositions, the
  per-type counts add up to the events that were neither rejected nor duplicates, and a batch
  adds its length to received.
\<close>

theorem counters_account_for_every_event:
  assumes "stats_ok (p_stats p)"
  shows "stats_ok (p_stats (snd (process_batch p es))) \<and>
    Received (p_stats (snd (process_batch p es))) = Received (p_stats p) + int (length es)"
  using run_consume_stats_ok [OF assms] by (simp add: process_batch_run run_consume_received)

theorem counters_account_for_every_event_witness:
  "stats_ok (p_stats (snd (process_batch (new_processor two_plants True) [rain_on 1, rain_on 1])))"
  using counters_account_for_every_event [of "new_processor two_plants True" "[rain_on 1, rain_on 1]"]
    zero_stats_ok by (simp add: new_processor_def)

end
