(* ===== verification/Snapshot.thy ===== *)
theory Snapshot
  imports Processor Controls Json
begin

text \<open>
  The snapshot of a projection (\<^verbatim>\<open>internal/sim/snapshot.go\<close>, type \<^verbatim>\<open>Snapshot\<close>) and its JSON form:
  struct fields in order, \<^verbatim>\<open>by_type\<close> with its keys sorted, durations as integers. Decoding
  reads \<^verbatim>\<open>null\<close> for a slice or map as the empty one; a repeated member replaces the earlier one.
\<close>

definition snapshot_schema_version :: int where "snapshot_schema_version = 2"

record snapshot =
  sn_SchemaVersion :: int
  sn_RunID :: string
  sn_Seed :: int
  sn_Tick :: int
  sn_Revision :: int
  sn_Controls :: controls
  sn_Organisms :: "organism list"
  sn_Processor :: proc_stats
  sn_Published :: int
  sn_Chain :: string
  sn_ChainSteps :: int
  sn_State :: string
  sn_MaxTicks :: int
  sn_TickInterval :: int
  sn_DuplicateEvery :: int

definition zero_controls :: controls where
  "zero_controls = \<lparr>EventsPerTick = 0, RainWeight = 0, GrowthWeight = 0, PestWeight = 0,
     WorkerCount = 0, BatchSize = 0, FailSnapshotEvery = 0\<rparr>"

definition zero_snapshot :: snapshot where
  "zero_snapshot = \<lparr>sn_SchemaVersion = 0, sn_RunID = '''', sn_Seed = 0, sn_Tick = 0, sn_Revision = 0,
     sn_Controls = zero_controls, sn_Organisms = [], sn_Processor = zero_stats, sn_Published = 0,
     sn_Chain = '''', sn_ChainSteps = 0, sn_State = '''', sn_MaxTicks = 0, sn_TickInterval = 0,
     sn_DuplicateEvery = 0\<rparr>"

subsection \<open>Encoding\<close>

definition controls_json :: "controls \<Rightarrow> json" where
  "controls_json c = JObj
     [(''events_per_tick'', json_int (EventsPerTick c)), (''rain_weight'', json_int (RainWeight c)),
      (''growth_weight'', json_int (GrowthWeight c)), (''pest_weight'', json_int (PestWeight c)),
      (''worker_count'', json_int (WorkerCount c)), (''batch_size'', json_int (BatchSize c)),
      (''fail_snapshot_every'', json_int (FailSnapshotEvery c))]"

definition organism_json :: "organism \<Rightarrow> json" where
  "organism_json o' = JObj
     [(''id'', JStr (ID o')), (''moisture'', json_int (Moisture o')), (''health'', json_int (Health o')),
      (''stage'', json_int (Stage o'))]"

definition counts_json :: "counts \<Rightarrow> json" where
  "counts_json m = JObj (map (\<lambda>(k, v). (k, json_int v)) m)"

definition stats_json :: "proc_stats \<Rightarrow> json" where
  "stats_json s = JObj
     [(''received'', json_int (Received s)), (''applied'', json_int (Applied s)),
      (''no_effect'', json_int (NoEffect s)), (''duplicates'', json_int (Duplicates s)),
      (''rejected'', json_int (Rejected s)), (''unknown_entity'', json_int (UnknownEntity s)),
      (''by_type'', counts_json (ByType s))]"

definition snapshot_json :: "snapshot \<Rightarrow> json" where
  "snapshot_json s = JObj
     [(''schema_version'', json_int (sn_SchemaVersion s)), (''run_id'', JStr (sn_RunID s)),
      (''seed'', json_int (sn_Seed s)), (''tick'', json_int (sn_Tick s)),
      (''revision'', json_int (sn_Revision s)), (''controls'', controls_json (sn_Controls s)),
      (''organisms'', JArr (map organism_json (sn_Organisms s))),
      (''processor'', stats_json (sn_Processor s)), (''published'', json_int (sn_Published s)),
      (''chain'', JStr (sn_Chain s)), (''chain_steps'', json_int (sn_ChainSteps s)),
      (''state'', JStr (sn_State s)), (''max_ticks'', json_int (sn_MaxTicks s)),
      (''tick_interval'', json_int (sn_TickInterval s)),
      (''duplicate_every'', json_int (sn_DuplicateEvery s))]"

definition marshal_snapshot :: "snapshot \<Rightarrow> string" where
  "marshal_snapshot s = json_print (snapshot_json s)"

subsection \<open>Decoding\<close>

fun count_put :: "string \<Rightarrow> int \<Rightarrow> counts \<Rightarrow> counts" where
  "count_put k v [] = [(k, v)]"
| "count_put k v ((a, b) # ps) =
     (if k < a then (k, v) # (a, b) # ps else if k = a then (a, v) # ps else (a, b) # count_put k v ps)"

fun decode_counts :: "(string \<times> json) list \<Rightarrow> counts \<Rightarrow> counts option" where
  "decode_counts [] m = Some m"
| "decode_counts ((k, v) # ms) m =
     (case set_int (\<lambda>n _. n) v 0 of None \<Rightarrow> None | Some n \<Rightarrow> decode_counts ms (count_put k n m))"

definition set_counts :: "json \<Rightarrow> proc_stats \<Rightarrow> proc_stats option" where
  "set_counts v s =
     (case v of
        JNull \<Rightarrow> Some (s\<lparr>ByType := []\<rparr>)
      | JObj ms \<Rightarrow> map_option (\<lambda>m. s\<lparr>ByType := m\<rparr>) (decode_counts ms (ByType s))
      | _ \<Rightarrow> None)"

definition controls_fields :: "controls field_decoder list" where
  "controls_fields =
     [(''events_per_tick'', set_int (\<lambda>n c. c\<lparr>EventsPerTick := n\<rparr>)),
      (''rain_weight'', set_int (\<lambda>n c. c\<lparr>RainWeight := n\<rparr>)),
      (''growth_weight'', set_int (\<lambda>n c. c\<lparr>GrowthWeight := n\<rparr>)),
      (''pest_weight'', set_int (\<lambda>n c. c\<lparr>PestWeight := n\<rparr>)),
      (''worker_count'', set_int (\<lambda>n c. c\<lparr>WorkerCount := n\<rparr>)),
      (''batch_size'', set_int (\<lambda>n c. c\<lparr>BatchSize := n\<rparr>)),
      (''fail_snapshot_every'', set_int (\<lambda>n c. c\<lparr>FailSnapshotEvery := n\<rparr>))]"

definition organism_fields :: "organism field_decoder list" where
  "organism_fields =
     [(''id'', set_string (\<lambda>t o'. o'\<lparr>ID := t\<rparr>)), (''moisture'', set_int (\<lambda>n o'. o'\<lparr>Moisture := n\<rparr>)),
      (''health'', set_int (\<lambda>n o'. o'\<lparr>Health := n\<rparr>)), (''stage'', set_int (\<lambda>n o'. o'\<lparr>Stage := n\<rparr>))]"

definition stats_fields :: "proc_stats field_decoder list" where
  "stats_fields =
     [(''received'', set_int (\<lambda>n s. s\<lparr>Received := n\<rparr>)), (''applied'', set_int (\<lambda>n s. s\<lparr>Applied := n\<rparr>)),
      (''no_effect'', set_int (\<lambda>n s. s\<lparr>NoEffect := n\<rparr>)),
      (''duplicates'', set_int (\<lambda>n s. s\<lparr>Duplicates := n\<rparr>)),
      (''rejected'', set_int (\<lambda>n s. s\<lparr>Rejected := n\<rparr>)),
      (''unknown_entity'', set_int (\<lambda>n s. s\<lparr>UnknownEntity := n\<rparr>)), (''by_type'', set_counts)]"

definition zero_organism :: organism where
  "zero_organism = \<lparr>ID = '''', Moisture = 0, Health = 0, Stage = 0\<rparr>"

fun decode_list :: "(json \<Rightarrow> 'a option) \<Rightarrow> json list \<Rightarrow> 'a list option" where
  "decode_list d [] = Some []"
| "decode_list d (v # vs) =
     (case d v of None \<Rightarrow> None | Some x \<Rightarrow> map_option (\<lambda>xs. x # xs) (decode_list d vs))"

definition decode_organism :: "json \<Rightarrow> organism option" where
  "decode_organism v = decode_struct organism_fields v zero_organism"

definition set_organisms :: "json \<Rightarrow> snapshot \<Rightarrow> snapshot option" where
  "set_organisms v s =
     (case v of
        JNull \<Rightarrow> Some (s\<lparr>sn_Organisms := []\<rparr>)
      | JArr vs \<Rightarrow> map_option (\<lambda>os. s\<lparr>sn_Organisms := os\<rparr>) (decode_list decode_organism vs)
      | _ \<Rightarrow> None)"

definition set_controls_field :: "json \<Rightarrow> snapshot \<Rightarrow> snapshot option" where
  "set_controls_field v s =
     map_option (\<lambda>c. s\<lparr>sn_Controls := c\<rparr>) (decode_struct controls_fields v (sn_Controls s))"

definition set_processor :: "json \<Rightarrow> snapshot \<Rightarrow> snapshot option" where
  "set_processor v s =
     map_option (\<lambda>p. s\<lparr>sn_Processor := p\<rparr>) (decode_struct stats_fields v (sn_Processor s))"

definition snapshot_fields :: "snapshot field_decoder list" where
  "snapshot_fields =
     [(''schema_version'', set_int (\<lambda>n s. s\<lparr>sn_SchemaVersion := n\<rparr>)),
      (''run_id'', set_string (\<lambda>t s. s\<lparr>sn_RunID := t\<rparr>)),
      (''seed'', set_int (\<lambda>n s. s\<lparr>sn_Seed := n\<rparr>)),
      (''tick'', set_int (\<lambda>n s. s\<lparr>sn_Tick := n\<rparr>)),
      (''revision'', set_int (\<lambda>n s. s\<lparr>sn_Revision := n\<rparr>)),
      (''controls'', set_controls_field), (''organisms'', set_organisms), (''processor'', set_processor),
      (''published'', set_int (\<lambda>n s. s\<lparr>sn_Published := n\<rparr>)),
      (''chain'', set_string (\<lambda>t s. s\<lparr>sn_Chain := t\<rparr>)),
      (''chain_steps'', set_int (\<lambda>n s. s\<lparr>sn_ChainSteps := n\<rparr>)),
      (''state'', set_string (\<lambda>t s. s\<lparr>sn_State := t\<rparr>)),
      (''max_ticks'', set_int (\<lambda>n s. s\<lparr>sn_MaxTicks := n\<rparr>)),
      (''tick_interval'', set_int (\<lambda>n s. s\<lparr>sn_TickInterval := n\<rparr>)),
      (''duplicate_every'', set_int (\<lambda>n s. s\<lparr>sn_DuplicateEvery := n\<rparr>))]"

definition unmarshal_snapshot :: "string \<Rightarrow> snapshot option" where
  "unmarshal_snapshot t =
     (case json_parse t of None \<Rightarrow> None | Some v \<Rightarrow> decode_struct snapshot_fields v zero_snapshot)"

subsection \<open>Round trip\<close>

definition controls_fit :: "controls \<Rightarrow> bool" where
  "controls_fit c \<longleftrightarrow> in_int64 (EventsPerTick c) \<and> in_int64 (RainWeight c) \<and> in_int64 (GrowthWeight c) \<and>
     in_int64 (PestWeight c) \<and> in_int64 (WorkerCount c) \<and> in_int64 (BatchSize c) \<and>
     in_int64 (FailSnapshotEvery c)"

definition organism_fit :: "organism \<Rightarrow> bool" where
  "organism_fit o' \<longleftrightarrow> utf8_ok (ID o') \<and> in_int64 (Moisture o') \<and> in_int64 (Health o') \<and> in_int64 (Stage o')"

definition stats_fit :: "proc_stats \<Rightarrow> bool" where
  "stats_fit s \<longleftrightarrow> in_int64 (Received s) \<and> in_int64 (Applied s) \<and> in_int64 (NoEffect s) \<and>
     in_int64 (Duplicates s) \<and> in_int64 (Rejected s) \<and> in_int64 (UnknownEntity s) \<and>
     count_keys_sorted (ByType s) \<and> list_all (\<lambda>(k, v). utf8_ok k \<and> in_int64 v) (ByType s)"

definition snapshot_fit :: "snapshot \<Rightarrow> bool" where
  "snapshot_fit s \<longleftrightarrow> in_int64 (sn_SchemaVersion s) \<and> utf8_ok (sn_RunID s) \<and> in_int64 (sn_Seed s) \<and>
     in_int64 (sn_Tick s) \<and> in_int64 (sn_Revision s) \<and> controls_fit (sn_Controls s) \<and>
     list_all organism_fit (sn_Organisms s) \<and> stats_fit (sn_Processor s) \<and> in_int64 (sn_Published s) \<and>
     utf8_ok (sn_Chain s) \<and> in_int64 (sn_ChainSteps s) \<and> utf8_ok (sn_State s) \<and>
     in_int64 (sn_MaxTicks s) \<and> in_int64 (sn_TickInterval s) \<and> in_int64 (sn_DuplicateEvery s)"

lemmas field_eval = fields_distinct_def fold_char_def byte_def

lemma controls_fields_distinct: "fields_distinct controls_fields"
  by (simp add: field_eval controls_fields_def)

lemma organism_fields_distinct: "fields_distinct organism_fields"
  by (simp add: field_eval organism_fields_def)

lemma stats_fields_distinct: "fields_distinct stats_fields"
  by (simp add: field_eval stats_fields_def)

lemma snapshot_fields_distinct: "fields_distinct snapshot_fields"
  by (simp add: field_eval snapshot_fields_def)

lemma decode_controls_json:
  "controls_fit c \<Longrightarrow> decode_struct controls_fields (controls_json c) s = Some c"
  unfolding controls_json_def
  by (subst decode_struct_in_order [OF controls_fields_distinct, where vs = "map json_int
        [EventsPerTick c, RainWeight c, GrowthWeight c, PestWeight c, WorkerCount c, BatchSize c,
         FailSnapshotEvery c]"])
     (simp_all add: controls_fields_def controls_fit_def)

lemma decode_organism_json: "organism_fit o' \<Longrightarrow> decode_organism (organism_json o') = Some o'"
  unfolding organism_json_def decode_organism_def
  by (subst decode_struct_in_order [OF organism_fields_distinct, where vs = "[JStr (ID o'),
        json_int (Moisture o'), json_int (Health o'), json_int (Stage o')]"])
     (simp_all add: organism_fields_def organism_fit_def)

lemma decode_list_map:
  "(\<And>x. x \<in> set xs \<Longrightarrow> d (f x) = Some x) \<Longrightarrow> decode_list d (map f xs) = Some xs"
  by (induction xs) auto

lemma count_put_append:
  "\<forall>a \<in> set (map fst m). a < k \<Longrightarrow> count_put k v m = m @ [(k, v)]"
  by (induction k v m rule: count_put.induct) (auto simp: less_le_not_le)

lemma decode_counts_json:
  "count_keys_sorted (m @ ps) \<Longrightarrow> list_all (\<lambda>(k, v). in_int64 v) ps \<Longrightarrow>
     decode_counts (map (\<lambda>(k, v). (k, json_int v)) ps) m = Some (m @ ps)"
proof (induction ps arbitrary: m)
  case (Cons p ps)
  obtain k v where p: "p = (k, v)" by (cases p)
  have "\<forall>a \<in> set (map fst m). a < k"
    using Cons.prems(1) by (auto simp: p count_keys_sorted_def sorted_wrt_append)
  then have "count_put k v m = m @ [(k, v)]" by (rule count_put_append)
  with Cons p show ?case by simp
qed simp

lemma decode_stats_json:
  assumes "stats_fit s"
  shows "decode_struct stats_fields (stats_json s) zero_stats = Some s"
proof -
  have "list_all (\<lambda>(k, v). in_int64 v) (ByType s)" "count_keys_sorted (ByType s)"
    using assms by (auto simp: stats_fit_def list_all_iff)
  then have cnt: "set_counts (counts_json (ByType s)) p = Some (p\<lparr>ByType := ByType s\<rparr>)"
    if "ByType p = []" for p
    using decode_counts_json [of "[]" "ByType s"] that by (simp add: set_counts_def counts_json_def)
  show ?thesis
    using assms unfolding stats_json_def
    by (subst decode_struct_in_order [OF stats_fields_distinct, where vs = "[json_int (Received s),
          json_int (Applied s), json_int (NoEffect s), json_int (Duplicates s), json_int (Rejected s),
          json_int (UnknownEntity s), counts_json (ByType s)]"])
       (simp_all add: stats_fields_def cnt stats_fit_def zero_stats_def)
qed

lemma decode_snapshot_json:
  assumes "snapshot_fit s"
  shows "decode_struct snapshot_fields (snapshot_json s) zero_snapshot = Some s"
proof -
  have ctl: "set_controls_field (controls_json (sn_Controls s)) t = Some (t\<lparr>sn_Controls := sn_Controls s\<rparr>)" for t
    using assms by (simp add: set_controls_field_def decode_controls_json snapshot_fit_def)
  have st: "set_processor (stats_json (sn_Processor s)) t = Some (t\<lparr>sn_Processor := sn_Processor s\<rparr>)"
    if "sn_Processor t = zero_stats" for t
    using assms that by (simp add: set_processor_def decode_stats_json snapshot_fit_def)
  have "decode_list decode_organism (map organism_json (sn_Organisms s)) = Some (sn_Organisms s)"
    using assms by (intro decode_list_map) (simp add: decode_organism_json snapshot_fit_def list_all_iff)
  then have org: "set_organisms (JArr (map organism_json (sn_Organisms s))) t
      = Some (t\<lparr>sn_Organisms := sn_Organisms s\<rparr>)" for t
    by (simp add: set_organisms_def)
  show ?thesis
    using assms unfolding snapshot_json_def
    by (subst decode_struct_in_order [OF snapshot_fields_distinct, where vs = "[json_int (sn_SchemaVersion s),
          JStr (sn_RunID s), json_int (sn_Seed s), json_int (sn_Tick s), json_int (sn_Revision s),
          controls_json (sn_Controls s), JArr (map organism_json (sn_Organisms s)),
          stats_json (sn_Processor s), json_int (sn_Published s), JStr (sn_Chain s),
          json_int (sn_ChainSteps s), JStr (sn_State s), json_int (sn_MaxTicks s),
          json_int (sn_TickInterval s), json_int (sn_DuplicateEvery s)]"])
       (simp_all add: snapshot_fields_def ctl st org snapshot_fit_def zero_snapshot_def)
qed

text \<open>Field names are ASCII, so every key of the encoding is valid UTF-8.\<close>

definition ascii_fields :: "'s field_decoder list \<Rightarrow> bool" where
  "ascii_fields fs \<longleftrightarrow> list_all (\<lambda>f. ascii (fst f)) fs"

lemma fields_ascii:
  "ascii_fields controls_fields" "ascii_fields organism_fields" "ascii_fields stats_fields"
  "ascii_fields snapshot_fields"
  by (simp_all add: ascii_fields_def ascii_def byte_def controls_fields_def organism_fields_def
      stats_fields_def snapshot_fields_def)

lemma json_ok_zip:
  assumes "ascii_fields fs" "list_all json_ok vs" "ms = zip (map fst fs) vs"
  shows "json_ok (JObj ms)"
proof -
  have "utf8_ok (fst p) \<and> json_ok (snd p)" if "p \<in> set ms" for p
  proof -
    obtain k v where p: "p = (k, v)" by (cases p)
    have z: "(k, v) \<in> set (zip (map fst fs) vs)" using that assms(3) p by simp
    have "k \<in> set (map fst fs)" "v \<in> set vs" using set_zip_leftD [OF z] set_zip_rightD [OF z] .
    with assms(1,2) show ?thesis by (auto simp: p ascii_fields_def list_all_iff ascii_utf8)
  qed
  then show ?thesis by simp
qed

lemma controls_json_ok: "json_ok (controls_json c)"
  unfolding controls_json_def
  by (rule json_ok_zip [OF fields_ascii(1), where vs = "map json_int
        [EventsPerTick c, RainWeight c, GrowthWeight c, PestWeight c, WorkerCount c, BatchSize c,
         FailSnapshotEvery c]"]) (simp_all add: controls_fields_def)

lemma organism_json_ok: "utf8_ok (ID o') \<Longrightarrow> json_ok (organism_json o')"
  unfolding organism_json_def
  by (rule json_ok_zip [OF fields_ascii(2), where vs = "[JStr (ID o'),
        json_int (Moisture o'), json_int (Health o'), json_int (Stage o')]"])
     (simp_all add: organism_fields_def)

lemma stats_json_ok:
  assumes "stats_fit s"
  shows "json_ok (stats_json s)"
proof -
  have "json_ok (counts_json (ByType s))"
    using assms by (auto simp: counts_json_def stats_fit_def list_all_iff)
  then show ?thesis
    unfolding stats_json_def
    by (intro json_ok_zip [OF fields_ascii(3), where vs = "[json_int (Received s),
          json_int (Applied s), json_int (NoEffect s), json_int (Duplicates s), json_int (Rejected s),
          json_int (UnknownEntity s), counts_json (ByType s)]"]) (simp_all add: stats_fields_def)
qed

lemma snapshot_json_ok:
  assumes "snapshot_fit s"
  shows "json_ok (snapshot_json s)"
proof -
  have "json_ok (JArr (map organism_json (sn_Organisms s)))" "json_ok (stats_json (sn_Processor s))"
    using assms by (auto simp: snapshot_fit_def list_all_iff organism_fit_def organism_json_ok stats_json_ok)
  then show ?thesis
    using assms controls_json_ok [of "sn_Controls s"] unfolding snapshot_json_def
    by (intro json_ok_zip [OF fields_ascii(4), where vs = "[json_int (sn_SchemaVersion s),
          JStr (sn_RunID s), json_int (sn_Seed s), json_int (sn_Tick s), json_int (sn_Revision s),
          controls_json (sn_Controls s), JArr (map organism_json (sn_Organisms s)),
          stats_json (sn_Processor s), json_int (sn_Published s), JStr (sn_Chain s),
          json_int (sn_ChainSteps s), JStr (sn_State s), json_int (sn_MaxTicks s),
          json_int (sn_TickInterval s), json_int (sn_DuplicateEvery s)]"])
       (simp_all add: snapshot_fields_def snapshot_fit_def)
qed

lemma json_depth_le:
  "json_depth (JObj ms) \<le> Suc n \<longleftrightarrow> (\<forall>p \<in> set ms. json_depth (snd p) \<le> n)"
  "json_depth (JArr vs) \<le> Suc n \<longleftrightarrow> (\<forall>v \<in> set vs. json_depth v \<le> n)"
  by simp_all

lemma snapshot_json_depth: "json_depth (snapshot_json s) \<le> max_nesting_depth"
proof -
  have leaf: "json_depth (organism_json x) \<le> Suc 0" "json_depth (counts_json m) \<le> Suc 0"
    "json_depth (controls_json c) \<le> Suc (Suc 0)" for x m c
    unfolding organism_json_def counts_json_def controls_json_def json_depth_le by auto
  have "json_depth (stats_json p) \<le> Suc (Suc 0)" for p
    unfolding stats_json_def json_depth_le using leaf(2) by simp
  moreover have "json_depth (JArr (map organism_json xs)) \<le> Suc (Suc 0)" for xs
    unfolding json_depth_le using leaf(1) by simp
  ultimately have "json_depth (snapshot_json s) \<le> Suc (Suc (Suc 0))"
    unfolding snapshot_json_def json_depth_le(1) using leaf(3) by (simp del: json_depth.simps(1,2) add: json_depth_le)
  then show ?thesis by (simp add: max_nesting_depth_def)
qed

lemma unmarshal_marshal_snapshot:
  "snapshot_fit s \<Longrightarrow> unmarshal_snapshot (marshal_snapshot s) = Some s"
  using json_parse_print [OF snapshot_json_ok snapshot_json_depth, of s]
  by (simp add: unmarshal_snapshot_def marshal_snapshot_def decode_snapshot_json)

end
