(* ===== verification/Sim.thy ===== *)
theory Sim
  imports Producer Eventlog Snapshot
begin

text \<open>
  \<^verbatim>\<open>internal/sim/sim.go\<close> and the saving half of \<^verbatim>\<open>internal/sim/snapshot.go\<close>: one run's producer,
  log, processor and garden, advanced one tick at a time. The garden is the processor's (the
  code shares a pointer), and so is the metrics recorder. The determinism chain is the spine's
  \<^verbatim>\<open>core.Chain\<close>, a parameter like the log. A call that does not return (a panic of the random
  source, a use of a closed log, a read that never ends) is \<open>None\<close>.
\<close>

record 'c chain_ops =
  ch_new :: 'c
  ch_advance :: "core_event \<Rightarrow> int list \<Rightarrow> 'c \<Rightarrow> 'c"
  ch_digest :: "'c \<Rightarrow> string"
  ch_steps :: "'c \<Rightarrow> int"
  ch_absorbed :: "int \<Rightarrow> 'c \<Rightarrow> bool"

record sim_config =
  c_RunID :: string
  c_Seed :: int
  c_Organisms :: int
  c_Controls :: controls
  c_DuplicateEvery :: int
  c_SnapshotEvery :: int
  c_MaxTicks :: int
  c_TickInterval :: int
  c_Metrics :: bool

definition validate_config :: "sim_config \<Rightarrow> go_error option" where
  "validate_config c =
     (if c_RunID c = '''' then Some (Errorf [T ''run id is required''])
      else if c_Organisms c < 1 then
        Some (Errorf [T ''organisms must be at least 1, got '', D (c_Organisms c)])
      else if c_DuplicateEvery c < 0 then
        Some (Errorf [T ''duplicate_every must not be negative, got '', D (c_DuplicateEvery c)])
      else if c_SnapshotEvery c < 0 then
        Some (Errorf [T ''snapshot_every must not be negative, got '', D (c_SnapshotEvery c)])
      else case validate_controls (c_Controls c) of
        Some err \<Rightarrow> Some (Errorf [T ''initial controls: '', W err])
      | None \<Rightarrow> None)"

record ('l, 'r, 'c) sim =
  s_cfg :: sim_config
  s_prod :: producer
  s_log :: "('l, 'r) evlog option"
  s_proc :: processor
  s_chain :: 'c
  s_tick :: int
  s_controls :: controls
  s_revision :: int
  s_pending :: "(int \<times> controls) list"
  s_published :: int
  s_committed :: int
  s_state :: string
  s_saveInvocations :: int
  s_snapshotSaveRetries :: int
  s_snapshotSaveFailures :: int

definition s_garden :: "('l, 'r, 'c) sim \<Rightarrow> garden" where
  "s_garden s = p_garden (s_proc s)"

definition new_sim ::
  "('fs, 'l, 'r) spine \<Rightarrow> 'c chain_ops \<Rightarrow> sim_config \<Rightarrow> ('l, 'r) evlog option \<Rightarrow> go_error + ('l, 'r, 'c) sim" where
  "new_sim sp ch cfg logopt =
     (case validate_config cfg of
        Some err \<Rightarrow> Inl (Errorf [T ''invalid simulation config: '', W err])
      | None \<Rightarrow>
        (case new_garden (c_Organisms cfg) of
           Inl err \<Rightarrow> Inl err
         | Inr g \<Rightarrow>
           (case new_producer (c_RunID cfg) (c_Seed cfg) (c_Organisms cfg) of
              Inl err \<Rightarrow> Inl err
            | Inr pr \<Rightarrow>
              (case (case logopt of Some L \<Rightarrow> Inr L | None \<Rightarrow> fst (open_log sp (sp_new_fs sp))) of
                 Inl err \<Rightarrow> Inl (Errorf [T ''open ephemeral log for run '', T (c_RunID cfg), T '': '', W err])
               | Inr L \<Rightarrow>
                 (case log_committed sp L of
                    (Some err, _) \<Rightarrow>
                      Inl (Errorf [T ''read committed offset for run '', T (c_RunID cfg), T '': '', W err])
                  | (None, c) \<Rightarrow>
                      Inr \<lparr>s_cfg = cfg, s_prod = pr, s_log = Some L,
                           s_proc = new_processor g (c_Metrics cfg), s_chain = ch_new ch, s_tick = 0,
                           s_controls = c_Controls cfg, s_revision = 0, s_pending = [], s_published = 0,
                           s_committed = c, s_state = '''', s_saveInvocations = 0,
                           s_snapshotSaveRetries = 0, s_snapshotSaveFailures = 0\<rparr>)))))"

definition set_state :: "string \<Rightarrow> ('l, 'r, 'c) sim \<Rightarrow> ('l, 'r, 'c) sim" where
  "set_state st s = s\<lparr>s_state := st\<rparr>"

definition close_sim :: "('fs, 'l, 'r) spine \<Rightarrow> ('l, 'r, 'c) sim \<Rightarrow> go_error option \<times> ('l, 'r, 'c) sim" where
  "close_sim sp s =
     (case s_log s of None \<Rightarrow> (None, s) | Some L \<Rightarrow> (log_close sp L, s\<lparr>s_log := None\<rparr>))"

definition set_controls :: "controls \<Rightarrow> ('l, 'r, 'c) sim \<Rightarrow> (go_error + int) \<times> ('l, 'r, 'c) sim" where
  "set_controls c s =
     (case validate_controls c of
        Some err \<Rightarrow> (Inl err, s)
      | None \<Rightarrow>
          (let revn = s_revision s + 1
           in (Inr revn, s\<lparr>s_revision := revn, s_pending := s_pending s @ [(revn, c)]\<rparr>)))"

subsection \<open>Saving\<close>

definition snapshot_state :: "'c chain_ops \<Rightarrow> ('l, 'r, 'c) sim \<Rightarrow> snapshot" where
  "snapshot_state ch s =
     \<lparr>sn_SchemaVersion = snapshot_schema_version, sn_RunID = c_RunID (s_cfg s),
      sn_Seed = c_Seed (s_cfg s), sn_Tick = s_tick s, sn_Revision = s_revision s,
      sn_Controls = s_controls s, sn_Organisms = organisms (s_garden s),
      sn_Processor = p_stats (s_proc s), sn_Published = s_published s,
      sn_Chain = ch_digest ch (s_chain s), sn_ChainSteps = ch_steps ch (s_chain s),
      sn_State = s_state s, sn_MaxTicks = c_MaxTicks (s_cfg s),
      sn_TickInterval = c_TickInterval (s_cfg s), sn_DuplicateEvery = c_DuplicateEvery (s_cfg s)\<rparr>"

definition max_save_attempts :: nat where "max_save_attempts = 3"

definition observe_sim :: "metric_call \<Rightarrow> ('l, 'r, 'c) sim \<Rightarrow> ('l, 'r, 'c) sim" where
  "observe_sim m s = s\<lparr>s_proc := p_observe m (s_proc s)\<rparr>"

text \<open>
  The retry loop, with \<open>n\<close> attempts left of \<open>max_save_attempts\<close>; \<open>lastErr\<close> is what the previous
  attempt failed with.
\<close>

fun save_loop ::
  "('fs, 'l, 'r) spine \<Rightarrow> string \<Rightarrow> bool \<Rightarrow> nat \<Rightarrow> go_error option \<Rightarrow> ('l, 'r) evlog \<Rightarrow> ('l, 'r, 'c) sim \<Rightarrow>
   go_error option \<times> ('l, 'r, 'c) sim" where
  "save_loop sp state inject 0 lastErr L s =
     (lastErr, observe_sim ObserveSnapshotSaveFailure
                 (s\<lparr>s_snapshotSaveFailures := s_snapshotSaveFailures s + 1\<rparr>))"
| "save_loop sp state inject (Suc n) lastErr L s =
     (let first = (Suc n = max_save_attempts);
          s = (if first then s
               else observe_sim ObserveSnapshotSaveRetry
                      (s\<lparr>s_snapshotSaveRetries := s_snapshotSaveRetries s + 1\<rparr>))
      in if inject \<and> first then
           save_loop sp state inject n
             (Some (Errorf [T ''save run '', T (c_RunID (s_cfg s)), T '' at tick '', D (s_tick s),
                            T '': injected failure (fail_snapshot_every='',
                            D (FailSnapshotEvery (s_controls s)), T '')''])) L s
         else
           (let pos = log_read sp L in
            case log_save sp state L of
              (Some err, L') \<Rightarrow>
                save_loop sp state inject n
                  (Some (Errorf [T ''save run '', T (c_RunID (s_cfg s)), T '' at tick '', D (s_tick s),
                                 T '': '', W err])) L' (s\<lparr>s_log := Some L'\<rparr>)
            | (None, L') \<Rightarrow> (None, s\<lparr>s_log := Some L', s_committed := pos\<rparr>)))"

definition save_sim ::
  "('fs, 'l, 'r) spine \<Rightarrow> 'c chain_ops \<Rightarrow> ('l, 'r, 'c) sim \<Rightarrow> (go_error option \<times> ('l, 'r, 'c) sim) option" where
  "save_sim sp ch s =
     (let state = marshal_snapshot (snapshot_state ch s);
          s = s\<lparr>s_saveInvocations := s_saveInvocations s + 1\<rparr>;
          inject = (FailSnapshotEvery (s_controls s) > 0 \<and>
                    s_saveInvocations s mod FailSnapshotEvery (s_controls s) = 0)
      in case s_log s of
           None \<Rightarrow> None
         | Some L \<Rightarrow> Some (save_loop sp state inject max_save_attempts None L s))"

subsection \<open>One tick\<close>

fun stage_changes ::
  "int \<Rightarrow> (int \<times> controls) list \<Rightarrow> producer \<Rightarrow> controls \<Rightarrow> event list \<Rightarrow> producer \<times> controls \<times> event list" where
  "stage_changes tick [] pr c batch = (pr, c, batch)"
| "stage_changes tick ((revn, c') # ps) pr c batch =
     (let (e, pr) = control_changed pr tick revn
      in stage_changes tick ps pr c' (batch @ [e]))"

fun with_redeliveries :: "int \<Rightarrow> int \<Rightarrow> event list \<Rightarrow> event list" where
  "with_redeliveries every i [] = []"
| "with_redeliveries every i (e # es) =
     (if every > 0 \<and> (i + 1) mod every = 0
      then e # e\<lparr>Attempt := Attempt e + 1\<rparr> # with_redeliveries every (i + 1) es
      else e # with_redeliveries every (i + 1) es)"

fun fold_loop ::
  "('fs, 'l, 'r) spine \<Rightarrow> 'c chain_ops \<Rightarrow> go_error list \<Rightarrow> event list \<Rightarrow> ('l, 'r, 'c) sim \<Rightarrow>
   go_error option \<times> ('l, 'r, 'c) sim" where
  "fold_loop sp ch errs [] s = (errors_join errs, s)"
| "fold_loop sp ch errs (e # es) s =
     (case to_core (sp_validate sp) e of
        Inl err \<Rightarrow> (Some (Errorf [T ''encode '', T (EventID e), T '' for the chain: '', W err]), s)
      | Inr rec \<Rightarrow>
          (let (r, proc) = process (s_proc s) e;
               s = s\<lparr>s_proc := proc\<rparr>;
               s = s\<lparr>s_chain := ch_advance ch rec (digest (s_garden s)) (s_chain s)\<rparr>
           in fold_loop sp ch (case res_Err r of None \<Rightarrow> errs | Some err \<Rightarrow> errs @ [err]) es s))"

definition fold_sim ::
  "('fs, 'l, 'r) spine \<Rightarrow> 'c chain_ops \<Rightarrow> event list \<Rightarrow> ('l, 'r, 'c) sim \<Rightarrow> go_error option \<times> ('l, 'r, 'c) sim" where
  "fold_sim sp ch es s = fold_loop sp ch [] es s"

definition step_sim ::
  "('fs, 'l, 'r) spine \<Rightarrow> 'c chain_ops \<Rightarrow> ('l, 'r, 'c) sim \<Rightarrow> (go_error option \<times> ('l, 'r, 'c) sim) option" where
  "step_sim sp ch s =
     (let (pr, ctl, batch) = stage_changes (s_tick s) (s_pending s) (s_prod s) (s_controls s) [];
          s = s\<lparr>s_prod := pr, s_controls := ctl, s_pending := []\<rparr>
      in case producer_tick (s_prod s) (s_tick s) (s_controls s) of
           None \<Rightarrow> None
         | Some (Inl err, pr) \<Rightarrow> Some (Some err, s\<lparr>s_prod := pr\<rparr>)
         | Some (Inr es, pr) \<Rightarrow>
             (let s = s\<lparr>s_prod := pr\<rparr>;
                  batch = batch @ with_redeliveries (c_DuplicateEvery (s_cfg s)) 0 es
              in case s_log s of
                   None \<Rightarrow> None
                 | Some L \<Rightarrow>
                   (case log_append sp batch L of
                      (Some err, L) \<Rightarrow>
                        Some (Some (Errorf [T ''append at tick '', D (s_tick s), T '': '', W err]),
                              s\<lparr>s_log := Some L\<rparr>)
                    | (None, L) \<Rightarrow>
                      (let s = s\<lparr>s_log := Some L, s_published := s_published s + int (length batch)\<rparr>
                       in case unprocessed_up_to sp (capacity (s_controls s)) L of
                            None \<Rightarrow> None
                          | Some (Some err, _, L) \<Rightarrow>
                              Some (Some (Errorf [T ''read at tick '', D (s_tick s), T '': '', W err]),
                                    s\<lparr>s_log := Some L\<rparr>)
                          | Some (None, todo, L) \<Rightarrow>
                              (case fold_sim sp ch todo (s\<lparr>s_log := Some L\<rparr>) of
                                 (Some err, s) \<Rightarrow>
                                   Some (Some (Errorf [T ''process tick '', D (s_tick s), T '': '', W err]), s)
                               | (None, s) \<Rightarrow>
                                   (let s = s\<lparr>s_tick := s_tick s + 1\<rparr>
                                    in if c_SnapshotEvery (s_cfg s) > 0 \<and>
                                          s_tick s mod c_SnapshotEvery (s_cfg s) = 0
                                       then save_sim sp ch s
                                       else Some (None, s)))))))"

subsection \<open>Reading a simulation\<close>

definition pending_of :: "('fs, 'l, 'r) spine \<Rightarrow> ('l, 'r, 'c) sim \<Rightarrow> int" where
  "pending_of sp s = (case s_log s of None \<Rightarrow> 0 | Some L \<Rightarrow> log_pending sp L)"

definition offset_of :: "('fs, 'l, 'r) spine \<Rightarrow> ('l, 'r, 'c) sim \<Rightarrow> int" where
  "offset_of sp s = (case s_log s of None \<Rightarrow> 0 | Some L \<Rightarrow> log_next sp L)"

definition folded_of :: "('fs, 'l, 'r) spine \<Rightarrow> ('l, 'r, 'c) sim \<Rightarrow> int" where
  "folded_of sp s = (case s_log s of None \<Rightarrow> 0 | Some L \<Rightarrow> log_read sp L)"

definition since_of ::
  "('fs, 'l, 'r) spine \<Rightarrow> int \<Rightarrow> ('l, 'r, 'c) sim \<Rightarrow> (go_error option \<times> event list) option" where
  "since_of sp from s = (case s_log s of None \<Rightarrow> Some (None, []) | Some L \<Rightarrow> since sp from L)"

definition fold_history :: "int \<Rightarrow> event list \<Rightarrow> (go_error \<times> proc_stats) + (garden \<times> proc_stats)" where
  "fold_history orgs es =
     (case new_garden orgs of
        Inl err \<Rightarrow> Inl (err, zero_stats)
      | Inr g \<Rightarrow>
          (case process_batch (new_processor g False) es of
             (Some err, p) \<Rightarrow>
               Inl (Errorf [T ''replay '', D (int (length es)), T '' events: '', W err], p_stats p)
           | (None, p) \<Rightarrow> Inr (p_garden p, p_stats p)))"

end
