(* ===== verification/Sim_Proofs.thy ===== *)
theory Sim_Proofs
  imports Sim
begin

text \<open>
  The simulation against its log: what a tick appends, what it folds, and the invariant that
  the projection is the fold of the records below the cursor. The lemmas are proved in the
  locales of the spine, so they hold for every log that keeps its contract.
\<close>

subsection \<open>The projection\<close>

text \<open>The processor without its metrics: what a replay reproduces.\<close>

definition projection :: "processor \<Rightarrow> garden \<times> string set \<times> proc_stats" where
  "projection p = (p_garden p, p_applied p, p_stats p)"

lemma projection_consume: "projection p = projection q \<Longrightarrow> projection (consume p e) = projection (consume q e)"
  by (cases "event_ok e"; cases "idempotency_key e \<in> p_applied p")
     (auto simp: projection_def process_invalid process_duplicate process_fresh)

lemma projection_run:
  "projection p = projection q \<Longrightarrow> projection (run_list consume p es) = projection (run_list consume q es)"
proof (induction es arbitrary: p q)
  case (Cons e es)
  show ?case using Cons.IH [OF projection_consume [OF Cons.prems]] by simp
qed simp

lemma projection_observe [simp]: "projection (p_observe m p) = projection p"
  by (simp add: projection_def)

lemma fold_loop_Cons:
  assumes "to_core (sp_validate sp) e = Inr rec"
  shows "fold_loop sp ch errs (e # es) s = fold_loop sp ch errs es
    (s\<lparr>s_proc := consume (s_proc s) e,
       s_chain := ch_advance ch rec (digest (p_garden (consume (s_proc s) e))) (s_chain s)\<rparr>)"
proof -
  have ok: "event_ok e" using assms by (simp add: to_core_Inr_iff)
  have "res_Err (fst (process (s_proc s) e)) = None"
    using process_duplicate(4) [OF ok, of "s_proc s"] process_fresh(4) [OF ok, of "s_proc s"]
    by (cases "idempotency_key e \<in> p_applied (s_proc s)") auto
  with assms show ?thesis by (simp add: split_beta consume_def s_garden_def Let_def)
qed

lemma fold_loop_None:
  "fold_loop sp ch errs es s = (None, s') \<Longrightarrow>
     errs = [] \<and> list_all event_ok es \<and>
     (\<exists>chain. s' = s\<lparr>s_proc := run_list consume (s_proc s) es, s_chain := chain\<rparr>)"
proof (induction es arbitrary: errs s)
  case Nil
  then show ?case by (auto intro: exI [of _ "s_chain s"])
next
  case (Cons e es)
  then obtain rec where rec: "to_core (sp_validate sp) e = Inr rec" by (auto split: sum.splits)
  let ?s = "s\<lparr>s_proc := consume (s_proc s) e,
       s_chain := ch_advance ch rec (digest (p_garden (consume (s_proc s) e))) (s_chain s)\<rparr>"
  have "fold_loop sp ch errs es ?s = (None, s')" using Cons.prems fold_loop_Cons [OF rec] by metis
  from Cons.IH [OF this] rec show ?case by (simp add: to_core_Inr_iff)
qed

lemma fold_loop_total:
  "list_all (\<lambda>e. is_ok (to_core (sp_validate sp) e)) es \<Longrightarrow> \<exists>s'. fold_loop sp ch [] es s = (None, s')"
proof (induction es arbitrary: s)
  case (Cons e es)
  then obtain rec where rec: "to_core (sp_validate sp) e = Inr rec" by (auto simp: is_ok_iff)
  with Cons show ?case unfolding fold_loop_Cons [OF rec] by simp
qed simp

subsection \<open>What a tick appends\<close>

lemma loggable_strip: "loggable e \<Longrightarrow> strip e = e"
  by (simp add: loggable_def strip_def)

lemma map_strip: "list_all loggable es \<Longrightarrow> map strip es = es"
  by (simp add: list_all_iff loggable_strip map_idI)

lemma loggable_redelivery: "loggable e \<Longrightarrow> 1 \<le> a \<Longrightarrow> in_int64 a \<Longrightarrow> loggable (e\<lparr>Attempt := a\<rparr>)"
  by (simp add: loggable_def encodable_def event_ok_redelivery)

lemma with_redeliveries_loggable:
  "list_all loggable es \<Longrightarrow> list_all (\<lambda>e. Attempt e = 1) es \<Longrightarrow> list_all loggable (with_redeliveries d i es)"
proof (induction es arbitrary: i)
  case (Cons e es)
  have "in_int64 2" by (simp add: in_int64_def)
  then have "loggable (e\<lparr>Attempt := 1 + 1\<rparr>)" using Cons.prems by (simp add: loggable_redelivery)
  with Cons show ?case by simp
qed simp

lemma digit_byte: "is_digit c \<Longrightarrow> byte c < 128"
  by (auto simp: is_digit_def byte_def)

lemma digits_ascii: "\<forall>c \<in> set s. is_digit c \<Longrightarrow> ascii s"
  using digit_byte by (auto simp: ascii_def list_all_iff)

lemma zero_pad_ascii: "ascii (zero_pad w (dec_nat n))"
  using dec_nat_digits [of n] by (intro digits_ascii) (auto simp: zero_pad_def)

lemma fmt_0d_ascii: "0 \<le> n \<Longrightarrow> ascii (fmt_0d w n)"
  by (simp add: fmt_0d_def zero_pad_ascii)

lemma ascii_append: "ascii (s @ t) \<longleftrightarrow> ascii s \<and> ascii t"
  by (simp add: ascii_def)

lemma ascii_Cons: "ascii (c # s) \<longleftrightarrow> byte c < 128 \<and> ascii s"
  by (simp add: ascii_def)

lemma ascii_consts:
  "ascii ''-''" "ascii ''-ctl-''" "ascii ''org-''" "ascii type_rain" "ascii type_growth" "ascii type_pest"
  "ascii type_control_changed"
  by (simp_all add: ascii_def byte_def type_defs)

lemma utf8_ascii_suffix: "utf8_ok r \<Longrightarrow> ascii t \<Longrightarrow> utf8_ok (r @ t)"
  by (simp add: utf8_ok_append ascii_utf8)

lemma produced_loggable:
  assumes "produced runID orgs tick c seq e" "runID \<noteq> ''''" "utf8_ok runID" "0 \<le> seq" "seq < 2 ^ 63" "0 \<le> tick"
  shows "loggable e" "Attempt e = 1"
proof -
  have id: "utf8_ok (EventID e)"
    using assms by (simp add: produced_def event_id_def utf8_ascii_suffix ascii_append ascii_Cons ascii_consts fmt_0d_ascii byte_def)
  have ent: "utf8_ok (EntityID e)"
    using assms(1) by (auto simp: produced_def organism_id_def ascii_append ascii_Cons ascii_consts fmt_0d_ascii byte_def intro!: ascii_utf8)
  have ty: "utf8_ok (Type e)"
    using assms(1) by (auto simp: produced_def ascii_consts intro: ascii_utf8)
  have am: "in_int64 (Amount (Payload e))"
    using assms(1) by (auto simp: produced_def amount_range_def in_int64_def rain_min_def rain_max_def
        pest_min_def pest_max_def split: if_splits)
  show "loggable e" "Attempt e = 1"
    using assms id ent ty am produced_event_ok(1) [OF assms(1,2,4,6)]
    by (auto simp: loggable_def encodable_def produced_def in_int64_def schema_version_def max_uint16_def)
qed

lemma control_changed_loggable:
  assumes "pd_runID p \<noteq> ''''" "utf8_ok (pd_runID p)" "0 \<le> pd_seq p" "pd_seq p + 1 < 2 ^ 63" "0 \<le> tick"
    "0 < n" "n < 2 ^ 63"
  shows "loggable (fst (control_changed p tick n))"
proof -
  have "utf8_ok (control_event_id (pd_runID p) (pd_seq p + 1))"
    using assms by (simp add: control_event_id_def utf8_ascii_suffix ascii_append ascii_Cons ascii_consts fmt_0d_ascii byte_def)
  then show ?thesis
    using assms control_changed_ok(1) [OF assms(1,3,5), of n]
    by (simp add: loggable_def encodable_def control_changed_def Let_def in_int64_def schema_version_def
        max_uint16_def ascii_utf8 ascii_consts)
qed

text \<open>The staged control changes become one event each, numbered in order; the last one wins.\<close>

lemma stage_changes_spec:
  assumes "pd_runID p \<noteq> ''''" "utf8_ok (pd_runID p)" "0 \<le> pd_seq p"
    "pd_seq p + int (length ps) < 2 ^ 63" "0 \<le> tick" "list_all (\<lambda>(n, c). 0 < n \<and> n < 2 ^ 63) ps"
  shows "\<exists>es. stage_changes tick ps p c batch
      = (p\<lparr>pd_seq := pd_seq p + int (length ps)\<rparr>, (if ps = [] then c else snd (last ps)), batch @ es) \<and>
    length es = length ps \<and> list_all loggable es \<and> list_all (\<lambda>e. Type e = type_control_changed) es \<and>
    map (\<lambda>e. Revision (Payload e)) es = map fst ps \<and>
    map Sequence es = map (\<lambda>i. pd_seq p + 1 + int i) [0..<length ps]"
  using assms
proof (induction ps arbitrary: p c batch)
  case Nil
  then show ?case by simp
next
  case (Cons x ps)
  obtain n c' where x: "x = (n, c')" by (cases x)
  let ?e = "fst (control_changed p tick n)" and ?p = "p\<lparr>pd_seq := pd_seq p + 1\<rparr>"
  have st: "stage_changes tick (x # ps) p c batch = stage_changes tick ps ?p c' (batch @ [?e])"
    by (simp add: x control_changed_def Let_def)
  obtain es where es: "stage_changes tick ps ?p c' (batch @ [?e])
      = (?p\<lparr>pd_seq := pd_seq ?p + int (length ps)\<rparr>, (if ps = [] then c' else snd (last ps)), (batch @ [?e]) @ es)"
    "length es = length ps" "list_all loggable es" "list_all (\<lambda>e. Type e = type_control_changed) es"
    "map (\<lambda>e. Revision (Payload e)) es = map fst ps"
    "map Sequence es = map (\<lambda>i. pd_seq ?p + 1 + int i) [0..<length ps]"
    using Cons.IH [of ?p c' "batch @ [?e]"] Cons.prems by auto
  have "loggable ?e" using Cons.prems x by (intro control_changed_loggable) auto
  moreover have "map Sequence (?e # es) = map (\<lambda>i. pd_seq p + 1 + int i) [0..<Suc (length ps)]"
    using es(6) by (simp add: map_upt_Suc control_changed_def Let_def del: upt_Suc)
  ultimately show ?case
    using st es x by (intro exI [of _ "?e # es"]) (auto simp: control_changed_def Let_def)
qed

subsection \<open>Saving\<close>

text \<open>What a save never touches: everything but the log, the commit position and the counters.\<close>

definition same_run :: "('l, 'r, 'c) sim \<Rightarrow> ('l, 'r, 'c) sim \<Rightarrow> bool" where
  "same_run s t \<longleftrightarrow>
     s_cfg t = s_cfg s \<and> s_prod t = s_prod s \<and> s_chain t = s_chain s \<and> s_tick t = s_tick s \<and>
     s_controls t = s_controls s \<and> s_revision t = s_revision s \<and> s_pending t = s_pending s \<and>
     s_published t = s_published s \<and> s_state t = s_state s \<and> projection (s_proc t) = projection (s_proc s)"

lemma same_run_refl [simp]: "same_run s s"
  by (simp add: same_run_def)

lemma same_run_trans: "same_run s t \<Longrightarrow> same_run t u \<Longrightarrow> same_run s u"
  by (simp add: same_run_def)

lemma same_run_update [simp]:
  "same_run (s\<lparr>s_log := x\<rparr>) t = same_run s t" "same_run (s\<lparr>s_saveInvocations := i\<rparr>) t = same_run s t"
  "same_run (s\<lparr>s_snapshotSaveRetries := i\<rparr>) t = same_run s t"
  "same_run (s\<lparr>s_snapshotSaveFailures := i\<rparr>) t = same_run s t"
  "same_run (observe_sim m s) t = same_run s t"
  by (simp_all add: same_run_def observe_sim_def)

lemma same_run_update' [simp]:
  "same_run s (t\<lparr>s_log := x\<rparr>) = same_run s t" "same_run s (t\<lparr>s_committed := i\<rparr>) = same_run s t"
  "same_run s (t\<lparr>s_snapshotSaveFailures := i\<rparr>) = same_run s t" "same_run s (observe_sim m t) = same_run s t"
  by (simp_all add: same_run_def observe_sim_def)

lemma observe_sim_sel [simp]:
  "s_log (observe_sim m s) = s_log s" "s_snapshotSaveFailures (observe_sim m s) = s_snapshotSaveFailures s"
  "s_snapshotSaveRetries (observe_sim m s) = s_snapshotSaveRetries s" "s_cfg (observe_sim m s) = s_cfg s"
  "s_tick (observe_sim m s) = s_tick s" "s_controls (observe_sim m s) = s_controls s"
  "s_saveInvocations (observe_sim m s) = s_saveInvocations s" "s_committed (observe_sim m s) = s_committed s"
  by (simp_all add: observe_sim_def)

definition same_log :: "('fs, 'l, 'r) spine \<Rightarrow> ('l \<Rightarrow> contents) \<Rightarrow> ('l, 'r) evlog \<Rightarrow> ('l, 'r) evlog \<Rightarrow> bool" where
  "same_log sp disk L L' \<longleftrightarrow>
     el_reader L' = el_reader L \<and> ab_recs (disk (el_log L')) = ab_recs (disk (el_log L)) \<and>
     ab_first (disk (el_log L')) = ab_first (disk (el_log L)) \<and> (backed sp disk L \<longrightarrow> backed sp disk L')"

lemma same_log_refl [simp]: "same_log sp disk L L"
  by (simp add: same_log_def)

lemma same_log_views:
  "same_log sp disk L L' \<Longrightarrow> wf_of sp disk L' = wf_of sp disk L \<and> hist_of disk L' = hist_of disk L \<and>
     cur_of sp disk L' = cur_of sp disk L"
  by (simp add: same_log_def wf_of_def hist_of_def cur_of_def ab_next_def)

context spine_laws
begin

lemma same_log_save: "log_save sp st L = (err, L') \<Longrightarrow> same_log sp disk L L'"
  using log_save_effect(1-3) log_save_keeps(4) by (simp add: same_log_def)

lemma save_loop_frame:
  "save_loop sp st inject n lastErr L s = (err, s') \<Longrightarrow> s_log s = Some L \<Longrightarrow>
     same_run s s' \<and> s_saveInvocations s' = s_saveInvocations s \<and>
     (\<exists>L'. s_log s' = Some L' \<and> same_log sp disk L L')"
proof (induction n arbitrary: lastErr L s)
  case 0
  then show ?case by auto
next
  case (Suc n)
  let ?first = "Suc n = max_save_attempts"
  let ?s = "if ?first then s else observe_sim ObserveSnapshotSaveRetry
     (s\<lparr>s_snapshotSaveRetries := s_snapshotSaveRetries s + 1\<rparr>)"
  have s: "same_run s t = same_run ?s t" "s_log ?s = Some L" "s_saveInvocations ?s = s_saveInvocations s" for t
    using Suc.prems(2) by simp_all
  show ?case
  proof (cases "inject \<and> ?first")
    case True
    then obtain e where "save_loop sp st inject n (Some e) L ?s = (err, s')"
      using Suc.prems(1) unfolding save_loop.simps(2) Let_def by simp
    from Suc.IH [OF this] s show ?thesis by simp
  next
    case False
    obtain serr L1 where save: "log_save sp st L = (serr, L1)" by (cases "log_save sp st L")
    note sl = same_log_save [OF save]
    show ?thesis
    proof (cases serr)
      case None
      with False save Suc.prems(1) have "s' = ?s\<lparr>s_log := Some L1, s_committed := log_read sp L\<rparr>"
        by (auto simp: Let_def)
      with sl s show ?thesis by simp
    next
      case (Some e)
      with False save Suc.prems(1) obtain e' where
        "save_loop sp st inject n (Some e') L1 (?s\<lparr>s_log := Some L1\<rparr>) = (err, s')" by (auto simp: Let_def)
      from Suc.IH [OF this] s sl show ?thesis by (auto simp: same_log_def)
    qed
  qed
qed

text \<open>A save that reports success wrote this very state at the cursor and committed there.\<close>

lemma save_loop_ok:
  "save_loop sp st inject n lastErr L s = (None, s') \<Longrightarrow> s_log s = Some L \<Longrightarrow> lastErr \<noteq> None \<or> 0 < n \<Longrightarrow>
     s_committed s' = rd_offset sp (el_reader L) \<and> s_snapshotSaveFailures s' = s_snapshotSaveFailures s \<and>
     (\<exists>L'. s_log s' = Some L' \<and> ab_snap (disk (el_log L')) = Some (rd_offset sp (el_reader L), st) \<and>
        ab_commit (disk (el_log L')) group_name = Some (rd_offset sp (el_reader L)))"
proof (induction n arbitrary: lastErr L s)
  case 0
  then show ?case by simp
next
  case (Suc n)
  let ?first = "Suc n = max_save_attempts"
  let ?s = "if ?first then s else observe_sim ObserveSnapshotSaveRetry
     (s\<lparr>s_snapshotSaveRetries := s_snapshotSaveRetries s + 1\<rparr>)"
  have s: "s_log ?s = Some L" "s_snapshotSaveFailures ?s = s_snapshotSaveFailures s"
    using Suc.prems(2) by simp_all
  show ?case
  proof (cases "inject \<and> ?first")
    case True
    then obtain e where "save_loop sp st inject n (Some e) L ?s = (None, s')"
      using Suc.prems(1) unfolding save_loop.simps(2) Let_def by simp
    from Suc.IH [OF this s(1)] s(2) show ?thesis by simp
  next
    case False
    obtain serr L1 where save: "log_save sp st L = (serr, L1)" by (cases "log_save sp st L")
    note eff = log_save_effect [OF save]
    show ?thesis
    proof (cases serr)
      case None
      with False save Suc.prems(1) have "s' = ?s\<lparr>s_log := Some L1, s_committed := log_read sp L\<rparr>"
        by (auto simp: Let_def)
      with eff(5) [OF None] s show ?thesis by (simp add: log_read_def)
    next
      case (Some e)
      with False save Suc.prems(1) obtain e' where
        "save_loop sp st inject n (Some e') L1 (?s\<lparr>s_log := Some L1\<rparr>) = (None, s')" by (auto simp: Let_def)
      from Suc.IH [OF this] s eff(1) show ?thesis by simp
    qed
  qed
qed

lemma save_sim_frame:
  assumes "save_sim sp ch s = Some (err, s')"
  obtains L L' where "s_log s = Some L" "same_run s s'" "s_saveInvocations s' = s_saveInvocations s + 1"
    "s_log s' = Some L'" "same_log sp disk L L'"
proof -
  obtain L where L: "s_log s = Some L" using assms by (auto simp: save_sim_def Let_def split: option.splits)
  let ?s = "s\<lparr>s_saveInvocations := s_saveInvocations s + 1\<rparr>"
  obtain i where "save_loop sp (marshal_snapshot (snapshot_state ch s)) i max_save_attempts None L ?s = (err, s')"
    using assms L by (simp add: save_sim_def Let_def)
  from save_loop_frame [OF this] L that [OF L] show ?thesis by auto
qed

lemma save_sim_ok:
  assumes "save_sim sp ch s = Some (None, s')"
  obtains L where "s_log s' = Some L" "s_committed s' = rd_offset sp (el_reader L)"
    "s_snapshotSaveFailures s' = s_snapshotSaveFailures s"
    "ab_snap (disk (el_log L)) = Some (rd_offset sp (el_reader L), marshal_snapshot (snapshot_state ch s))"
    "ab_commit (disk (el_log L)) group_name = Some (rd_offset sp (el_reader L))"
proof -
  obtain L where L: "s_log s = Some L" using assms by (auto simp: save_sim_def Let_def split: option.splits)
  let ?s = "s\<lparr>s_saveInvocations := s_saveInvocations s + 1\<rparr>"
  obtain i where sl: "save_loop sp (marshal_snapshot (snapshot_state ch s)) i max_save_attempts None L ?s = (None, s')"
    using assms L by (simp add: save_sim_def Let_def)
  obtain L' where "s_log s' = Some L'" "same_log sp disk L L'" using save_loop_frame [OF sl] L by auto
  with save_loop_ok [OF sl] L show ?thesis
    by (intro that [of L']) (auto simp: max_save_attempts_def same_log_def)
qed

end

subsection \<open>One tick\<close>

text \<open>What holds of a simulation between calls, apart from its log.\<close>

definition run_ok :: "('l, 'r, 'c) sim \<Rightarrow> bool" where
  "run_ok s \<longleftrightarrow>
     pd_runID (s_prod s) = c_RunID (s_cfg s) \<and> c_RunID (s_cfg s) \<noteq> '''' \<and> utf8_ok (c_RunID (s_cfg s)) \<and>
     pd_seed (s_prod s) = c_Seed (s_cfg s) \<and>
     0 \<le> pd_seq (s_prod s) \<and> pd_organisms (s_prod s) = c_Organisms (s_cfg s) \<and>
     1 \<le> c_Organisms (s_cfg s) \<and> c_Organisms (s_cfg s) < 2 ^ 63 \<and> 0 \<le> s_tick s \<and>
     controls_ok (s_controls s) \<and> weights_fit (s_controls s) \<and>
     list_all (\<lambda>(n, c). 0 < n \<and> n \<le> s_revision s \<and> controls_ok c \<and> weights_fit c) (s_pending s) \<and>
     garden_wf (s_garden s) \<and> stats_ok (p_stats (s_proc s))"

text \<open>The sequence numbers of one more tick fit an \<^verbatim>\<open>int64\<close>.\<close>

definition room :: "('l, 'r, 'c) sim \<Rightarrow> bool" where
  "room s \<longleftrightarrow> pd_seq (s_prod s) + int (length (s_pending s)) + max_events_per_tick < 2 ^ 63 \<and>
     s_revision s < 2 ^ 63"

text \<open>
  The projection is the fold of the records between position \<open>k\<close>, where the processor was in
  state \<open>b\<close>, and the cursor. A new run has \<open>k = 0\<close> and \<open>b\<close> a fresh processor.
\<close>

definition follows ::
  "('fs, 'l, 'r) spine \<Rightarrow> ('l \<Rightarrow> contents) \<Rightarrow> processor \<Rightarrow> nat \<Rightarrow> ('l, 'r, 'c) sim \<Rightarrow> ('l, 'r) evlog \<Rightarrow> bool" where
  "follows sp disk b k s L \<longleftrightarrow>
     s_log s = Some L \<and> wf_of sp disk L \<and> backed sp disk L \<and> k \<le> cur_of sp disk L \<and>
     projection (s_proc s) = projection (run_list consume b (drop k (take (cur_of sp disk L) (hist_of disk L))))"

definition tick_batch :: "('l, 'r, 'c) sim \<Rightarrow> event list \<Rightarrow> event list \<Rightarrow> event list" where
  "tick_batch s cs es = cs @ with_redeliveries (c_DuplicateEvery (s_cfg s)) 0 es"

text \<open>The controls a tick runs under: the last staged ones, if any.\<close>

definition next_controls :: "('l, 'r, 'c) sim \<Rightarrow> controls" where
  "next_controls s = (if s_pending s = [] then s_controls s else snd (last (s_pending s)))"

lemma step_prepare:
  assumes "run_ok s" "room s"
  obtains p1 ctl cs es p2 where
    "stage_changes (s_tick s) (s_pending s) (s_prod s) (s_controls s) [] = (p1, ctl, cs)"
    "producer_tick p1 (s_tick s) ctl = Some (Inr es, p2)"
    "p2 = (s_prod s)\<lparr>pd_seq := pd_seq (s_prod s) + int (length (s_pending s)) + EventsPerTick ctl\<rparr>"
    "controls_ok ctl" "weights_fit ctl"
    "ctl = next_controls s" "list_all loggable (tick_batch s cs es)" "length cs = length (s_pending s)"
    "map (\<lambda>e. Revision (Payload e)) cs = map fst (s_pending s)"
    "list_all (\<lambda>e. Type e = type_control_changed) cs"
    "int (length es) = EventsPerTick ctl" "list_all (\<lambda>e. Attempt e = 1 \<and> OccurredAt e = s_tick s) es"
    "list_all is_organism_event es"
    "\<And>i. i < length es \<Longrightarrow> EventID (es ! i)
       = event_id (c_RunID (s_cfg s)) (pd_seq (s_prod s) + int (length (s_pending s)) + 1 + int i)"
    "\<And>i. i < length es \<Longrightarrow> Sequence (es ! i) = pd_seq (s_prod s) + int (length (s_pending s)) + 1 + int i"
proof -
  let ?p = "s_prod s" and ?ps = "s_pending s"
  let ?ctl = "if ?ps = [] then s_controls s else snd (last ?ps)"
  let ?p1 = "?p\<lparr>pd_seq := pd_seq ?p + int (length ?ps)\<rparr>"
  have run: "pd_runID ?p \<noteq> ''''" "utf8_ok (pd_runID ?p)" "0 \<le> pd_seq ?p" "0 \<le> s_tick s"
    and room: "pd_seq ?p + int (length ?ps) + 1000 < 2 ^ 63" "s_revision s < 2 ^ 63"
    using assms by (auto simp: run_ok_def room_def max_events_per_tick_def)
  have ps: "list_all (\<lambda>(n, c). 0 < n \<and> n < 2 ^ 63) ?ps"
    using assms by (auto simp: run_ok_def room_def list_all_iff)
  obtain cs where cs: "stage_changes (s_tick s) ?ps ?p (s_controls s) [] = (?p1, ?ctl, cs)"
    "length cs = length ?ps" "list_all loggable cs" "map (\<lambda>e. Revision (Payload e)) cs = map fst ?ps"
    "list_all (\<lambda>e. Type e = type_control_changed) cs"
    using stage_changes_spec [OF run(1-3) _ run(4) ps, of "s_controls s" "[]"] room(1) by auto
  have "?ps \<noteq> [] \<Longrightarrow> last ?ps \<in> set ?ps" by simp
  then have ctl: "controls_ok ?ctl" "weights_fit ?ctl"
    using assms(1) by (auto simp: run_ok_def list_all_iff split_beta)
  have orgs: "1 \<le> pd_organisms ?p1" "pd_organisms ?p1 < 2 ^ 63" using assms(1) by (auto simp: run_ok_def)
  obtain es where tick: "producer_tick ?p1 (s_tick s) ?ctl
      = Some (Inr es, ?p1\<lparr>pd_seq := pd_seq ?p1 + EventsPerTick ?ctl\<rparr>)"
    and len: "int (length es) = EventsPerTick ?ctl"
    and es: "\<And>i. i < length es \<Longrightarrow> produced (pd_runID ?p1) (pd_organisms ?p1) (s_tick s) ?ctl
        (pd_seq ?p1 + 1 + int i) (es ! i)"
    using producer_tick_total [OF ctl orgs, of "s_tick s"] by blast
  have few: "length es \<le> 1000"
    using len ctl(1) by (simp add: controls_ok_def max_events_per_tick_def)
  have ev: "loggable (es ! i) \<and> Attempt (es ! i) = 1 \<and> OccurredAt (es ! i) = s_tick s \<and> is_organism_event (es ! i)"
    if i: "i < length es" for i
  proof -
    let ?q = "pd_seq ?p1 + 1 + int i"
    have q: "0 \<le> ?q" "?q < 2 ^ 63" using run(3) room(1) few i by auto
    have run1: "pd_runID ?p1 \<noteq> ''''" "utf8_ok (pd_runID ?p1)" using run by auto
    from produced_loggable [OF es [OF i] run1 q run(4)] produced_event_ok(2) [OF es [OF i] run1(1) q(1) run(4)]
      es [OF i]
    show ?thesis by (simp add: produced_def)
  qed
  then have "list_all loggable (with_redeliveries (c_DuplicateEvery (s_cfg s)) 0 es)"
    by (intro with_redeliveries_loggable) (simp_all add: list_all_length)
  then have batch: "list_all loggable (tick_batch s cs es)" using cs(3) by (simp add: tick_batch_def)
  have ids: "EventID (es ! i) = event_id (c_RunID (s_cfg s)) (pd_seq ?p + int (length ?ps) + 1 + int i)"
    if "i < length es" for i
    using es [OF that] assms(1) by (simp add: produced_def run_ok_def)
  have seqs: "Sequence (es ! i) = pd_seq ?p + int (length ?ps) + 1 + int i" if "i < length es" for i
    using es [OF that] by (simp add: produced_def)
  show ?thesis
    by (rule that [OF cs(1) tick _ ctl _ batch cs(2) cs(4,5) len _ _ ids seqs])
       (use ev in \<open>auto simp: list_all_length algebra_simps next_controls_def\<close>)
qed

text \<open>The events a tick appends, as a function of the simulation before it.\<close>

definition batch_of :: "('l, 'r, 'c) sim \<Rightarrow> event list" where
  "batch_of s =
     (let (p1, ctl, cs) = stage_changes (s_tick s) (s_pending s) (s_prod s) (s_controls s) []
      in case producer_tick p1 (s_tick s) ctl of Some (Inr es, _) \<Rightarrow> tick_batch s cs es | _ \<Rightarrow> [])"

lemma loggable_encodable: "list_all loggable es \<Longrightarrow> list_all encodable es"
  by (simp add: list_all_iff loggable_def)

text \<open>The tick after the events are known: append, drain, fold, count, snapshot when due.\<close>

definition staged ::
  "('l, 'r, 'c) sim \<Rightarrow> controls \<Rightarrow> producer \<Rightarrow> event list \<Rightarrow> ('l, 'r) evlog \<Rightarrow> ('l, 'r, 'c) sim" where
  "staged s ctl p batch L = s\<lparr>s_controls := ctl, s_pending := [], s_prod := p,
     s_published := s_published s + int (length batch), s_log := Some L\<rparr>"

definition end_tick ::
  "('fs, 'l, 'r) spine \<Rightarrow> 'c chain_ops \<Rightarrow> ('l, 'r, 'c) sim \<Rightarrow> (go_error option \<times> ('l, 'r, 'c) sim) option" where
  "end_tick sp ch s =
     (let s = s\<lparr>s_tick := s_tick s + 1\<rparr>
      in if c_SnapshotEvery (s_cfg s) > 0 \<and> s_tick s mod c_SnapshotEvery (s_cfg s) = 0
         then save_sim sp ch s else Some (None, s))"

lemma step_expand:
  assumes "stage_changes (s_tick s) (s_pending s) (s_prod s) (s_controls s) [] = (p1, ctl, cs)"
    "producer_tick p1 (s_tick s) ctl = Some (Inr es, p2)" "s_log s = Some L"
  shows "step_sim sp ch s =
    (case log_append sp (tick_batch s cs es) L of
       (Some err, L1) \<Rightarrow> Some (Some (Errorf [T ''append at tick '', D (s_tick s), T '': '', W err]),
          s\<lparr>s_controls := ctl, s_pending := [], s_prod := p2, s_log := Some L1\<rparr>)
     | (None, L1) \<Rightarrow>
         (case unprocessed_up_to sp (capacity ctl) L1 of
            None \<Rightarrow> None
          | Some (Some err, _, L2) \<Rightarrow> Some (Some (Errorf [T ''read at tick '', D (s_tick s), T '': '', W err]),
              staged s ctl p2 (tick_batch s cs es) L2)
          | Some (None, todo, L2) \<Rightarrow>
              (case fold_sim sp ch todo (staged s ctl p2 (tick_batch s cs es) L2) of
                 (Some err, s1) \<Rightarrow> Some (Some (Errorf [T ''process tick '', D (s_tick s1), T '': '', W err]), s1)
               | (None, s1) \<Rightarrow> end_tick sp ch s1)))"
  using assms
  by (simp add: step_sim_def Let_def tick_batch_def staged_def end_tick_def cong: option.case_cong prod.case_cong)

lemma step_success:
  assumes "stage_changes (s_tick s) (s_pending s) (s_prod s) (s_controls s) [] = (p1, ctl, cs)"
    "producer_tick p1 (s_tick s) ctl = Some (Inr es, p2)" "s_log s = Some L"
    "step_sim sp ch s = Some (None, s')"
  obtains L1 todo L2 s1 where "log_append sp (tick_batch s cs es) L = (None, L1)"
    "unprocessed_up_to sp (capacity ctl) L1 = Some (None, todo, L2)"
    "fold_sim sp ch todo (staged s ctl p2 (tick_batch s cs es) L2) = (None, s1)"
    "end_tick sp ch s1 = Some (None, s')"
  using assms(4) unfolding step_expand [OF assms(1-3)]
  by (auto split: prod.splits option.splits)

context spine_laws
begin

lemma backed_append: "log_append sp es L = (err, L') \<Longrightarrow> backed sp disk L \<Longrightarrow> backed sp disk L'"
  using log_append_disk [of es L err L'] by (simp add: backed_def)

lemma backed_advance:
  "backed sp disk L \<Longrightarrow> wf_of sp disk L \<Longrightarrow> wf_of sp disk L' \<Longrightarrow> el_log L' = el_log L \<Longrightarrow>
     cur_of sp disk L \<le> cur_of sp disk L' \<Longrightarrow> backed sp disk L'"
  unfolding backed_def using wf_cur(1) [of L] wf_cur(1) [of L'] by fastforce

lemma unprocessed_log: "unprocessed_up_to sp n L = Some (err, out, L') \<Longrightarrow> el_log L' = el_log L"
  by (auto simp: unprocessed_up_to_def)

text \<open>The fold of a longer prefix is the fold of the prefix and then of the rest.\<close>

lemma follows_extend:
  assumes "k \<le> n" "n + m \<le> length es"
    "projection p = projection (run_list consume b (drop k (take n es)))"
  shows "projection (run_list consume p (take m (drop n es)))
       = projection (run_list consume b (drop k (take (n + m) es)))"
proof -
  have "drop k (take (n + m) es) = drop k (take n es) @ take m (drop n es)"
    using assms(1,2) by (simp add: take_add)
  then show ?thesis
    using projection_run [OF assms(3), of "take m (drop n es)"] by (simp add: run_list_append)
qed

end

context spine_laws
begin

lemma fold_run_ok:
  assumes "run_ok s" "controls_ok ctl" "weights_fit ctl" "s_cfg t = s_cfg s"
    "s_prod t = (s_prod s)\<lparr>pd_seq := q\<rparr>" "0 \<le> q" "s_tick t = s_tick s + 1" "s_controls t = ctl"
    "s_pending t = []" "projection (s_proc t) = projection (run_list consume (s_proc s) todo)"
  shows "run_ok t"
proof -
  have "garden_wf (p_garden (run_list consume (s_proc s) todo))"
    "stats_ok (p_stats (run_list consume (s_proc s) todo))"
    using assms(1) run_consume_garden_wf run_consume_stats_ok by (auto simp: run_ok_def s_garden_def)
  with assms show ?thesis by (auto simp: run_ok_def s_garden_def projection_def)
qed

text \<open>The tick up to the fold: what was drained is folded, nothing is saved yet.\<close>

lemma step_folded:
  assumes fol: "follows sp disk b k s L" and lb: "list_all loggable (tick_batch s cs es)"
    and app: "log_append sp (tick_batch s cs es) L = (None, L1)"
    and dr: "unprocessed_up_to sp n L1 = Some (None, todo, L2)"
    and fo: "fold_sim sp ch todo (staged s ctl p2 (tick_batch s cs es) L2) = (None, s1)"
  shows "follows sp disk b k (s1\<lparr>s_tick := s_tick s1 + 1\<rparr>) L2"
    "hist_of disk L2 = hist_of disk L @ tick_batch s cs es" "ab_first (disk (el_log L2)) = ab_first (disk (el_log L))"
    "cur_of sp disk L2 = (if n \<le> 0 then length (hist_of disk L2)
       else min (cur_of sp disk L + nat n) (length (hist_of disk L2)))"
    "\<exists>chain. s1 = (staged s ctl p2 (tick_batch s cs es) L2)\<lparr>s_proc := run_list consume (s_proc s) todo, s_chain := chain\<rparr>"
proof -
  let ?batch = "tick_batch s cs es"
  have L: "wf_of sp disk L" "backed sp disk L" "k \<le> cur_of sp disk L"
    and proj: "projection (s_proc s) = projection (run_list consume b (drop k (take (cur_of sp disk L) (hist_of disk L))))"
    using fol by (auto simp: follows_def)
  have L1: "wf_of sp disk L1" "hist_of disk L1 = hist_of disk L @ ?batch" "cur_of sp disk L1 = cur_of sp disk L"
    using log_append_ok [OF L(1) loggable_encodable [OF lb] app] map_strip [OF lb] by auto
  note ex = elog.drain_exact [OF L1(1) dr]
  show s1: "\<exists>chain. s1 = (staged s ctl p2 ?batch L2)\<lparr>s_proc := run_list consume (s_proc s) todo, s_chain := chain\<rparr>"
    using fold_loop_None [OF fo [unfolded fold_sim_def]] by (auto simp: staged_def)
  have bk: "backed sp disk L2"
    using backed_advance [OF backed_append [OF app L(2)] L1(1)] ex unprocessed_log [OF dr] by auto
  have h2: "hist_of disk L2 = hist_of disk L1" "wf_of sp disk L2" using ex by blast+
  have n: "cur_of sp disk L2 = cur_of sp disk L + length todo" using ex L1(3) by simp
  have "length todo \<le> length (hist_of disk L1) - cur_of sp disk L" using ex L1(3) by (auto split: if_splits)
  then have le: "cur_of sp disk L + length todo \<le> length (hist_of disk L1)"
    using elog.cur_le [OF L1(1)] L1(3) by linarith
  have todo: "take (length todo) (drop (cur_of sp disk L) (hist_of disk L1)) = todo" using ex L1(3) by metis
  have tk: "take (cur_of sp disk L) (hist_of disk L1) = take (cur_of sp disk L) (hist_of disk L)"
    using L1(2) elog.cur_le [OF L(1)] by simp
  have "projection (run_list consume (s_proc s) todo)
      = projection (run_list consume b (drop k (take (cur_of sp disk L2) (hist_of disk L2))))"
    using follows_extend [OF L(3) le proj [folded tk]] unfolding todo h2(1) n .
  then show "follows sp disk b k (s1\<lparr>s_tick := s_tick s1 + 1\<rparr>) L2"
    using s1 h2(2) bk L(3) n by (auto simp: follows_def staged_def)
  show "hist_of disk L2 = hist_of disk L @ ?batch" using h2(1) L1(2) by simp
  show "ab_first (disk (el_log L2)) = ab_first (disk (el_log L))"
    using unprocessed_log [OF dr] log_append_disk(4) [OF app] by simp
  have len: "length todo = (if n \<le> 0 then length (hist_of disk L1) - cur_of sp disk L
      else min (nat n) (length (hist_of disk L1) - cur_of sp disk L))" using ex L1(3) by simp
  have "cur_of sp disk L \<le> length (hist_of disk L1)" using le by linarith
  with len show "cur_of sp disk L2 = (if n \<le> 0 then length (hist_of disk L2)
       else min (cur_of sp disk L + nat n) (length (hist_of disk L2)))"
    unfolding n h2(1) by (cases "n \<le> 0") (simp_all del: length_hist add: min_add_distrib_left)
qed

lemma step_ok:
  assumes run: "run_ok s" "room s" and fol: "follows sp disk b k s L"
    and step: "step_sim sp ch s = Some (None, s')"
  obtains L' batch where "follows sp disk b k s' L'" "run_ok s'"
    "hist_of disk L' = hist_of disk L @ batch" "list_all loggable batch"
    "s_tick s' = s_tick s + 1" "s_published s' = s_published s + int (length batch)"
    "cur_of sp disk L' = (if capacity (next_controls s) \<le> 0 then length (hist_of disk L')
       else min (cur_of sp disk L + nat (capacity (next_controls s))) (length (hist_of disk L')))"
    "s_controls s' = next_controls s" "s_pending s' = []" "s_cfg s' = s_cfg s" "s_revision s' = s_revision s"
    "pd_seq (s_prod s') = pd_seq (s_prod s) + int (length (s_pending s)) + EventsPerTick (next_controls s)"
    "ab_first (disk (el_log L')) = ab_first (disk (el_log L))" "batch = batch_of s"
proof -
  obtain p1 ctl cs es p2 where prep:
    "stage_changes (s_tick s) (s_pending s) (s_prod s) (s_controls s) [] = (p1, ctl, cs)"
    "producer_tick p1 (s_tick s) ctl = Some (Inr es, p2)"
    "p2 = (s_prod s)\<lparr>pd_seq := pd_seq (s_prod s) + int (length (s_pending s)) + EventsPerTick ctl\<rparr>"
    and ctl: "controls_ok ctl" "weights_fit ctl" "ctl = next_controls s"
    and lb: "list_all loggable (tick_batch s cs es)"
    by (rule step_prepare [OF run], rule that)
  let ?batch = "tick_batch s cs es"
  have L: "s_log s = Some L" using fol by (simp add: follows_def)
  obtain L1 todo L2 s1 where app: "log_append sp ?batch L = (None, L1)"
    and dr: "unprocessed_up_to sp (capacity ctl) L1 = Some (None, todo, L2)"
    and fo: "fold_sim sp ch todo (staged s ctl p2 ?batch L2) = (None, s1)"
    and fin: "end_tick sp ch s1 = Some (None, s')"
    using step_success [OF prep(1,2) L step] .
  note fd = step_folded [OF fol lb app dr fo]
  let ?t = "s1\<lparr>s_tick := s_tick s1 + 1\<rparr>"
  have t: "s_cfg ?t = s_cfg s" "s_prod ?t = p2" "s_tick ?t = s_tick s + 1" "s_controls ?t = ctl" "s_pending ?t = []"
    "s_proc ?t = run_list consume (s_proc s) todo" "s_published ?t = s_published s + int (length ?batch)"
    "s_log ?t = Some L2" "s_revision ?t = s_revision s" using fd(5) by (auto simp: staged_def)
  have "\<exists>L3. s_log s' = Some L3 \<and> same_log sp disk L2 L3 \<and> same_run ?t s'"
  proof (cases "c_SnapshotEvery (s_cfg s1) > 0 \<and> (s_tick s1 + 1) mod c_SnapshotEvery (s_cfg s1) = 0")
    case True
    then have "save_sim sp ch ?t = Some (None, s')" using fin by (simp add: end_tick_def Let_def)
    from save_sim_frame [OF this] t(8) show ?thesis by auto
  next
    case False
    then have "s' = ?t" using fin by (auto simp: end_tick_def Let_def)
    with t(8) show ?thesis by auto
  qed
  then obtain L3 where L3: "s_log s' = Some L3" "same_log sp disk L2 L3" "same_run ?t s'" by blast
  note v = same_log_views [OF L3(2)]
  have fields: "s_cfg s' = s_cfg s" "s_prod s' = p2" "s_tick s' = s_tick s + 1" "s_controls s' = ctl" "s_pending s' = []"
    "projection (s_proc s') = projection (s_proc ?t)"
    "s_published s' = s_published s + int (length ?batch)" "s_revision s' = s_revision s"
    using L3(3) t by (auto simp: same_run_def)
  show thesis
  proof (rule that [of L3 ?batch])
    show "follows sp disk b k s' L3" using fd(1) v L3(1,2) fields(6) by (simp add: follows_def same_log_def)
    show "run_ok s'"
      using fields t(6) prep(3) ctl run by (intro fold_run_ok [OF run(1) ctl(1,2)]) (auto simp: run_ok_def controls_ok_def)
    show "cur_of sp disk L3 = (if capacity (next_controls s) \<le> 0 then length (hist_of disk L3)
       else min (cur_of sp disk L + nat (capacity (next_controls s))) (length (hist_of disk L3)))"
      using v fd(4) ctl(3) by simp
    show "pd_seq (s_prod s') = pd_seq (s_prod s) + int (length (s_pending s)) + EventsPerTick (next_controls s)"
      using fields(2) prep(3) ctl(3) by simp
    show "?batch = batch_of s" using prep(1,2) by (simp add: batch_of_def)
  qed (use fields v fd(2,3) L3(2) ctl(3) lb in \<open>auto simp: same_log_def\<close>)
qed

end

subsection \<open>On a log that does not fail\<close>

context reliable_spine
begin

lemma log_save_total:
  obtains L' where "log_save sp st L = (None, L')"
proof -
  let ?p = "rd_offset sp (el_reader L)"
  obtain l where l: "sp_snapshot sp ?p st (el_log L) = (None, l)"
    using snapshot_total by (metis prod.collapse)
  obtain l' where "gr_commit sp group_name ?p l = (None, l')" using commit_total by (metis prod.collapse)
  with l show ?thesis by (intro that [of "L\<lparr>el_log := l'\<rparr>"]) (simp add: log_save_def log_commit_def Let_def)
qed

text \<open>
  A save succeeds; an injected failure costs exactly one retry and never a failure.
\<close>

lemma save_total:
  assumes "s_log s = Some L"
  obtains s' where "save_sim sp ch s = Some (None, s')" "s_snapshotSaveFailures s' = s_snapshotSaveFailures s"
    "s_snapshotSaveRetries s' = s_snapshotSaveRetries s +
       (if FailSnapshotEvery (s_controls s) > 0 \<and>
           (s_saveInvocations s + 1) mod FailSnapshotEvery (s_controls s) = 0 then 1 else 0)"
proof -
  let ?st = "marshal_snapshot (snapshot_state ch s)"
  obtain L' where L': "log_save sp ?st L = (None, L')" by (rule log_save_total)
  let ?inject = "FailSnapshotEvery (s_controls s) > 0 \<and> (s_saveInvocations s + 1) mod FailSnapshotEvery (s_controls s) = 0"
  have three: "max_save_attempts = Suc (Suc (Suc 0))" by (simp add: max_save_attempts_def)
  let ?s = "s\<lparr>s_saveInvocations := s_saveInvocations s + 1\<rparr>"
  have "save_sim sp ch s = Some (save_loop sp ?st ?inject max_save_attempts None L ?s)"
    using assms by (simp add: save_sim_def Let_def)
  moreover have "\<exists>s'. save_loop sp ?st ?inject max_save_attempts None L ?s = (None, s') \<and>
      s_snapshotSaveFailures s' = s_snapshotSaveFailures s \<and>
      s_snapshotSaveRetries s' = s_snapshotSaveRetries s + (if ?inject then 1 else 0)"
    using L' by (cases ?inject) (simp_all only: three save_loop.simps, simp_all add: Let_def three)
  ultimately show ?thesis using that by auto
qed

lemma read_loop_total:
  assumes "ab_first (disk l) \<le> rd_offset sp r" "rd_offset sp r \<le> ab_next (disk l)"
    "list_all (\<lambda>r. is_ok (from_core r)) (ab_recs (disk l))" "0 < n \<Longrightarrow> int (length out) \<le> n"
  shows "\<exists>out' r'. read_loop sp what n l r out = Some (None, out', r')"
  using assms
proof (induction "nat (ab_next (disk l) - rd_offset sp r)" arbitrary: r out rule: less_induct)
  case less
  show ?case
  proof (cases "n \<le> 0 \<or> int (length out) < n")
    case False
    then show ?thesis by (simp add: read_loop.simps)
  next
    case go: True
    show ?thesis
    proof (cases "rd_offset sp r < ab_next (disk l)")
      case False
      with less.prems(2) obtain e r' where "rd_next sp l r = (Inl e, r')" "end_of_log e"
        using rd_next_tail by force
      with go show ?thesis by (simp add: read_loop.simps)
    next
      case True
      then obtain rc r' where n: "rd_next sp l r = (Inr rc, r')" using rd_next_total less.prems(1) by blast
      note ok = rd_next_ok [OF n]
      have "nat (rd_offset sp r - ab_first (disk l)) < length (ab_recs (disk l))"
        using ok True by (simp add: ab_next_def nat_less_iff)
      then obtain e where e: "from_core (sr_Event rc) = Inr e"
        using ok less.prems(3) by (auto simp: list_all_length is_ok_iff)
      have "\<exists>out' r''. read_loop sp what n l r' (out @ [e]) = Some (None, out', r'')"
        using ok less.prems(1,3) go True by (intro less.hyps) auto
      with go n e show ?thesis by (simp add: read_loop.simps)
    qed
  qed
qed

lemma unprocessed_total:
  assumes "wf_of sp disk L"
  obtains out L' where "unprocessed_up_to sp n L = Some (None, out, L')"
  using read_loop_total [of "el_log L" "el_reader L" n "[]" "''read''"] assms
  by (auto simp: unprocessed_up_to_def wf_of_def)

lemma replay_total:
  assumes "wf_of sp disk L"
  shows "replay sp L = Some (None, hist_of disk L)"
proof -
  obtain r where r: "sp_reader sp (el_log L) (ab_first (disk (el_log L))) = Inr r"
    using reader_total [of "el_log L" "ab_first (disk (el_log L))"] by auto
  have "\<exists>out' r'. read_loop sp ''replay'' 0 (el_log L) r [] = Some (None, out', r')"
    using reader_at [OF r] assms by (intro read_loop_total) (auto simp: wf_of_def)
  then obtain out where "replay sp L = Some (None, out)" using r by (auto simp: replay_def)
  with replay_ok [OF assms] show ?thesis by auto
qed

text \<open>With a validator that accepts the records of loggable events, every tick completes.\<close>

lemma step_total:
  assumes run: "run_ok s" "room s" and fol: "follows sp disk b k s L" and val: "validates_loggable (sp_validate sp)"
    and old: "list_all loggable (hist_of disk L)"
  obtains s' where "step_sim sp ch s = Some (None, s')"
proof -
  obtain p1 ctl cs es p2 where prep:
    "stage_changes (s_tick s) (s_pending s) (s_prod s) (s_controls s) [] = (p1, ctl, cs)"
    "producer_tick p1 (s_tick s) ctl = Some (Inr es, p2)"
    and lb: "list_all loggable (tick_batch s cs es)"
    by (rule step_prepare [OF run], rule that)
  let ?batch = "tick_batch s cs es"
  have L: "s_log s = Some L" "wf_of sp disk L" using fol by (auto simp: follows_def)
  have enc: "loggable e \<Longrightarrow> is_ok (to_core (sp_validate sp) e)" for e
    using to_core_loggable [OF val] by (auto simp: is_ok_iff)
  then have "is_ok (encode_all (sp_validate sp) ?batch)"
    using lb by (simp add: encode_all_Inr_iff list_all_iff)
  then obtain rs where rs: "encode_all (sp_validate sp) ?batch = Inr rs" by (auto simp: is_ok_iff)
  obtain l where "sp_append sp rs (el_log L) = (None, l)" using append_total by (metis prod.collapse)
  then have "\<exists>L1. log_append sp ?batch L = (None, L1)"
    using rs by (cases "?batch = []") (simp_all add: log_append_def)
  then obtain L1 where app: "log_append sp ?batch L = (None, L1)" by blast
  have L1: "wf_of sp disk L1" "hist_of disk L1 = hist_of disk L @ ?batch"
    using log_append_ok [OF L(2) loggable_encodable [OF lb] app] map_strip [OF lb] by auto
  obtain todo L2 where dr: "unprocessed_up_to sp (capacity ctl) L1 = Some (None, todo, L2)"
    using unprocessed_total [OF L1(1)] .
  have "e \<in> set todo \<Longrightarrow> is_ok (to_core (sp_validate sp) e)" for e
  proof -
    assume "e \<in> set todo"
    moreover have "todo = take (length todo) (drop (cur_of sp disk L1) (hist_of disk L1))"
      using elog.drain_exact [OF L1(1) dr] by blast
    ultimately have "e \<in> set (hist_of disk L1)" by (metis in_set_dropD in_set_takeD)
    then show ?thesis using enc lb old L1(2) by (auto simp: list_all_iff)
  qed
  then have "list_all (\<lambda>e. is_ok (to_core (sp_validate sp) e)) todo" by (simp add: list_all_iff)
  then obtain s1 where fo: "fold_sim sp ch todo (staged s ctl p2 ?batch L2) = (None, s1)"
    using fold_loop_total unfolding fold_sim_def by blast
  have "s_log s1 = Some L2" using fold_loop_None [OF fo [unfolded fold_sim_def]] by (auto simp: staged_def)
  then obtain s2 where "save_sim sp ch (s1\<lparr>s_tick := s_tick s1 + 1\<rparr>) = Some (None, s2)"
    using save_total [of "s1\<lparr>s_tick := s_tick s1 + 1\<rparr>" L2 ch] by auto
  then have "\<exists>s'. end_tick sp ch s1 = Some (None, s')" by (simp add: end_tick_def Let_def)
  with that show ?thesis unfolding step_expand [OF prep L(1)] by (auto simp: app dr fo)
qed

end

end
