(* ===== verification/Sim_Runs.thy ===== *)
theory Sim_Runs
  imports Sim_Proofs
begin

text \<open>
  Whole runs: the calls a simulation receives between its creation and its end, as a step
  relation, and what every reachable simulation satisfies. The live garden is the fold of the
  history, so an offline replay lands where the run landed.
\<close>

inductive sim_move ::
  "('fs, 'l, 'r) spine \<Rightarrow> 'c chain_ops \<Rightarrow> ('l, 'r, 'c) sim \<Rightarrow> ('l, 'r, 'c) sim \<Rightarrow> bool"
  for sp :: "('fs, 'l, 'r) spine" and ch :: "'c chain_ops" where
  tick: "room s \<Longrightarrow> step_sim sp ch s = Some (None, s') \<Longrightarrow> sim_move sp ch s s'"
| control: "weights_fit c \<Longrightarrow> set_controls c s = (Inr n, s') \<Longrightarrow> sim_move sp ch s s'"
| save: "save_sim sp ch s = Some (err, s') \<Longrightarrow> sim_move sp ch s s'"
| lifecycle: "sim_move sp ch s (set_state st s)"
| observe: "sim_move sp ch s (observe_sim m s)"

inductive sim_reach ::
  "('fs, 'l, 'r) spine \<Rightarrow> 'c chain_ops \<Rightarrow> ('l, 'r, 'c) sim \<Rightarrow> ('l, 'r, 'c) sim \<Rightarrow> bool"
  for sp :: "('fs, 'l, 'r) spine" and ch :: "'c chain_ops" and s0 :: "('l, 'r, 'c) sim" where
  start: "sim_reach sp ch s0 s0"
| move: "sim_reach sp ch s0 s \<Longrightarrow> sim_move sp ch s s' \<Longrightarrow> sim_reach sp ch s0 s'"

inductive_cases sim_move_cases: "sim_move sp ch s s'"

lemma reach_trans: "sim_reach sp ch s t \<Longrightarrow> sim_reach sp ch t u \<Longrightarrow> sim_reach sp ch s u"
  by (rotate_tac) (induction rule: sim_reach.induct, auto intro: sim_reach.move)

definition fresh_log :: "('fs, 'l, 'r) spine \<Rightarrow> ('l \<Rightarrow> contents) \<Rightarrow> ('l, 'r) evlog \<Rightarrow> bool" where
  "fresh_log sp disk L \<longleftrightarrow> wf_of sp disk L \<and> ab_recs (disk (el_log L)) = [] \<and>
     ab_snap (disk (el_log L)) = None \<and> ab_commit (disk (el_log L)) group_name = None"

text \<open>The configurations whose run stays within Go's integers and encodes faithfully.\<close>

definition config_fits :: "sim_config \<Rightarrow> bool" where
  "config_fits c \<longleftrightarrow> utf8_ok (c_RunID c) \<and> c_Organisms c < 2 ^ 63 \<and> weights_fit (c_Controls c)"

lemma validate_config_None:
  "validate_config c = None \<Longrightarrow> c_RunID c \<noteq> '''' \<and> 1 \<le> c_Organisms c \<and> 0 \<le> c_DuplicateEvery c \<and>
     0 \<le> c_SnapshotEvery c \<and> controls_ok (c_Controls c)"
  by (auto simp: validate_config_def validate_controls_None_iff split: if_splits option.splits)

lemma new_sim_run_ok:
  assumes "new_sim sp ch cfg logopt = Inr s" "config_fits cfg"
  shows "run_ok s" "s_cfg s = cfg" "s_tick s = 0" "s_published s = 0" "s_pending s = []"
    "\<exists>g. new_garden (c_Organisms cfg) = Inr g \<and> s_proc s = new_processor g (c_Metrics cfg)"
    "pd_seq (s_prod s) = 0" "s_revision s = 0"
    "\<And>L. logopt = Some L \<Longrightarrow> s_log s = Some L"
    "s_controls s = c_Controls cfg" "s_chain s = ch_new ch" "s_state s = ''''" "s_saveInvocations s = 0"
proof -
  obtain g p L c where parts: "validate_config cfg = None" "new_garden (c_Organisms cfg) = Inr g"
    "new_producer (c_RunID cfg) (c_Seed cfg) (c_Organisms cfg) = Inr p"
    "s = \<lparr>s_cfg = cfg, s_prod = p, s_log = Some L, s_proc = new_processor g (c_Metrics cfg),
       s_chain = ch_new ch, s_tick = 0, s_controls = c_Controls cfg, s_revision = 0, s_pending = [],
       s_published = 0, s_committed = c, s_state = '''', s_saveInvocations = 0,
       s_snapshotSaveRetries = 0, s_snapshotSaveFailures = 0\<rparr>"
    "logopt \<noteq> None \<Longrightarrow> logopt = Some L"
    using assms(1) unfolding new_sim_def by (force split: option.splits sum.splits prod.splits)
  have p: "pd_runID p = c_RunID cfg" "pd_seed p = c_Seed cfg" "pd_seq p = 0" "pd_organisms p = c_Organisms cfg"
    using parts(3) by (auto simp: new_producer_def split: if_splits)
  have "garden_wf g" using new_garden_ok(1) parts(2) by blast
  with parts(4) p validate_config_None [OF parts(1)] assms(2) zero_stats_ok
  show "run_ok s" by (simp add: run_ok_def config_fits_def s_garden_def new_processor_def)
  show "s_cfg s = cfg" "s_tick s = 0" "s_published s = 0" "s_pending s = []"
    "\<exists>g. new_garden (c_Organisms cfg) = Inr g \<and> s_proc s = new_processor g (c_Metrics cfg)"
    "pd_seq (s_prod s) = 0" "s_revision s = 0" using parts(2,4) p by simp_all
  show "\<And>L. logopt = Some L \<Longrightarrow> s_log s = Some L" using parts(4,5) by auto
  show "s_controls s = c_Controls cfg" "s_chain s = ch_new ch" "s_state s = ''''" "s_saveInvocations s = 0"
    using parts(4) by simp_all
qed

text \<open>Everything a save or a lifecycle change leaves alone.\<close>

lemma same_run_ok: "same_run s t \<Longrightarrow> run_ok s \<Longrightarrow> run_ok t"
  by (simp add: same_run_def run_ok_def s_garden_def projection_def)

lemma set_controls_ok:
  assumes "set_controls c s = (Inr n, s')" "weights_fit c" "run_ok s" "0 \<le> s_revision s"
  shows "run_ok s'" "n = s_revision s + 1" "s_revision s' = n" "s_log s' = s_log s" "s_proc s' = s_proc s"
    "s_published s' = s_published s" "s_cfg s' = s_cfg s" "s_pending s' = s_pending s @ [(n, c)]"
    "s_controls s' = s_controls s" "s_tick s' = s_tick s"
proof -
  have v: "validate_controls c = None" and s': "s' = s\<lparr>s_revision := s_revision s + 1,
      s_pending := s_pending s @ [(s_revision s + 1, c)]\<rparr>" and n: "n = s_revision s + 1"
    using assms(1) by (auto simp: set_controls_def Let_def split: option.splits)
  have "list_all (\<lambda>(m, d). 0 < m \<and> m \<le> s_revision s + 1 \<and> controls_ok d \<and> weights_fit d) (s_pending s)"
    using assms(3) by (fastforce simp: run_ok_def list_all_iff)
  with v assms(2-4) show "run_ok s'"
    by (simp add: s' run_ok_def validate_controls_None_iff s_garden_def)
  show "n = s_revision s + 1" "s_revision s' = n" "s_log s' = s_log s" "s_proc s' = s_proc s"
    "s_published s' = s_published s" "s_cfg s' = s_cfg s" "s_pending s' = s_pending s @ [(n, c)]"
    "s_controls s' = s_controls s" "s_tick s' = s_tick s"
    using s' n by simp_all
qed

definition run_inv ::
  "('fs, 'l, 'r) spine \<Rightarrow> ('l \<Rightarrow> contents) \<Rightarrow> sim_config \<Rightarrow> processor \<Rightarrow> ('l, 'r, 'c) sim \<Rightarrow> bool" where
  "run_inv sp disk cfg b s \<longleftrightarrow>
     run_ok s \<and> 0 \<le> s_revision s \<and> s_cfg s = cfg \<and>
     (\<exists>L. follows sp disk b 0 s L \<and> s_published s = int (length (hist_of disk L)) \<and>
        list_all loggable (hist_of disk L))"

context spine_laws
begin

lemma move_inv:
  assumes "sim_move sp ch s s'" "run_inv sp disk cfg b s"
  shows "run_inv sp disk cfg b s'"
  using assms(1)
proof cases
  case tick
  obtain L where L: "follows sp disk b 0 s L" "s_published s = int (length (hist_of disk L))"
    "list_all loggable (hist_of disk L)" using assms(2) by (auto simp: run_inv_def)
  have "run_ok s" using assms(2) by (simp add: run_inv_def)
  from step_ok [OF this tick(1) L(1) tick(2)] obtain L' batch where
    "follows sp disk b 0 s' L'" "run_ok s'" "hist_of disk L' = hist_of disk L @ batch" "list_all loggable batch"
    "s_published s' = s_published s + int (length batch)" "s_cfg s' = s_cfg s" "s_revision s' = s_revision s"
    by metis
  with L assms(2) show ?thesis by (auto simp: run_inv_def simp del: length_hist)
next
  case (control c n)
  with assms(2) set_controls_ok [OF control(2,1)] show ?thesis by (auto simp: run_inv_def follows_def)
next
  case (save err)
  obtain L L' where "s_log s = Some L" "same_run s s'" "s_log s' = Some L'" "same_log sp disk L L'"
    using save_sim_frame [OF save] by metis
  with assms(2) same_log_views [of sp disk L L'] same_run_ok [of s s'] show ?thesis
    by (auto simp: run_inv_def follows_def same_run_def same_log_def simp del: length_hist)
next
  case (lifecycle st)
  with assms(2) show ?thesis by (auto simp: run_inv_def follows_def set_state_def run_ok_def s_garden_def)
next
  case (observe m)
  with assms(2) show ?thesis by (auto simp: run_inv_def follows_def observe_sim_def run_ok_def s_garden_def)
qed

lemma reach_inv:
  assumes "sim_reach sp ch s0 s" "run_inv sp disk cfg b s0"
  shows "run_inv sp disk cfg b s"
  using assms by (induction rule: sim_reach.induct) (auto intro: move_inv)

lemma start_inv:
  assumes "new_sim sp ch cfg (Some L) = Inr s" "config_fits cfg" "fresh_log sp disk L"
  shows "run_inv sp disk cfg (s_proc s) s"
  using new_sim_run_ok [OF assms(1,2)] assms(3)
  by (auto simp: run_inv_def follows_def fresh_log_def backed_def cur_of_def hist_of_def wf_of_def ab_next_def)

text \<open>The projection of a reachable simulation is the fold of the records below its cursor.\<close>

lemma reach_fold:
  assumes "new_sim sp ch cfg (Some L0) = Inr s0" "config_fits cfg" "fresh_log sp disk L0"
    "sim_reach sp ch s0 s"
  obtains g L where "new_garden (c_Organisms cfg) = Inr g" "s_log s = Some L" "wf_of sp disk L"
    "projection (s_proc s) = projection (run_list consume (new_processor g False) (take (cur_of sp disk L) (hist_of disk L)))"
    "s_published s = int (length (hist_of disk L))" "list_all loggable (hist_of disk L)" "run_ok s" "backed sp disk L"
proof -
  have "run_inv sp disk cfg (s_proc s0) s"
    using reach_inv [OF assms(4) start_inv [OF assms(1-3)]] .
  then obtain L where L: "follows sp disk (s_proc s0) 0 s L" "s_published s = int (length (hist_of disk L))"
    "list_all loggable (hist_of disk L)" "run_ok s" by (auto simp: run_inv_def)
  obtain g where g: "new_garden (c_Organisms cfg) = Inr g" "s_proc s0 = new_processor g (c_Metrics cfg)"
    using new_sim_run_ok(6) [OF assms(1,2)] by blast
  have "projection (s_proc s0) = projection (new_processor g False)"
    by (simp add: g projection_def new_processor_def)
  from projection_run [OF this] L g(1) that show ?thesis by (auto simp: follows_def)
qed

text \<open>Folding what \<^verbatim>\<open>Replay\<close> returns, up to the cursor.\<close>

lemma reach_replay:
  assumes "new_sim sp ch cfg (Some L0) = Inr s0" "config_fits cfg" "fresh_log sp disk L0"
    "sim_reach sp ch s0 s" "s_log s = Some L" "replay sp L = Some (None, es)"
  shows "fold_history (c_Organisms cfg) (take (cur_of sp disk L) es) = Inr (s_garden s, p_stats (s_proc s))"
proof -
  obtain g L' where g: "new_garden (c_Organisms cfg) = Inr g" "s_log s = Some L'" "wf_of sp disk L'"
    "projection (s_proc s) = projection (run_list consume (new_processor g False) (take (cur_of sp disk L') (hist_of disk L')))"
    "list_all loggable (hist_of disk L')"
    by (rule reach_fold [OF assms(1-4)], rule that)
  have L: "L' = L" using g(2) assms(5) by simp
  have es: "es = hist_of disk L" using replay_ok [OF g(3)] assms(6) by (auto simp: L)
  let ?es = "take (cur_of sp disk L) es"
  have "list_all event_ok ?es"
    using g(5) by (auto simp: es L list_all_iff loggable_def dest: in_set_takeD)
  then have "process_batch (new_processor g False) ?es = (None, run_list consume (new_processor g False) ?es)"
    using process_batch_run [of "new_processor g False" ?es] by (metis prod.collapse)
  with g(1,4) show ?thesis by (simp add: fold_history_def L es projection_def s_garden_def)
qed

end

context reliable_spine
begin

lemma inv_step_total:
  assumes "run_inv sp disk cfg b s" "room s" "validates_loggable (sp_validate sp)"
  obtains s' where "step_sim sp ch s = Some (None, s')"
proof -
  obtain L where "run_ok s" "follows sp disk b 0 s L" "list_all loggable (hist_of disk L)"
    using assms(1) by (auto simp: run_inv_def)
  with assms(2,3) that show ?thesis by (metis step_total)
qed

end

subsection \<open>A chain and a run to instantiate the properties with\<close>

text \<open>A determinism chain that keeps everything it was advanced with.\<close>

definition list_chain :: "(core_event \<times> int list) list chain_ops" where
  "list_chain =
     \<lparr>ch_new = [], ch_advance = (\<lambda>rec d c. c @ [(rec, d)]), ch_digest = (\<lambda>c. fmt_d (int (length c))),
      ch_steps = (\<lambda>c. int (length c)),
      ch_absorbed = (\<lambda>w c. w \<le> int (length c) \<and>
         (\<forall>i < nat w. snd (c ! (length c - 1 - i)) = snd (last c)))\<rparr>"

definition demo_config :: sim_config where
  "demo_config =
     \<lparr>c_RunID = ''run-0001'', c_Seed = 7, c_Organisms = 3, c_Controls = default_controls,
      c_DuplicateEvery = 2, c_SnapshotEvery = 1, c_MaxTicks = 0, c_TickInterval = 0, c_Metrics = False\<rparr>"

definition mem_log :: "(contents, int) evlog" where
  "mem_log = \<lparr>el_log = mem_empty, el_reader = 0\<rparr>"

type_synonym mem_sim = "(contents, int, (core_event \<times> int list) list) sim"

definition demo_sim :: mem_sim where
  "demo_sim = projr (new_sim mem_spine list_chain demo_config (Some mem_log))"

lemma mem_laws: "spine_laws mem_spine (\<lambda>l. l)" "reliable_spine mem_spine (\<lambda>l. l)"
  by unfold_locales

lemma mem_validates: "validates_loggable (sp_validate mem_spine)"
  by (simp add: mem_spine_def validates_loggable_def loggable_def event_ok_def record_of_def)

lemma mem_log_fresh: "fresh_log mem_spine (\<lambda>l. l) mem_log"
  by (simp add: fresh_log_def wf_of_def mem_log_def mem_empty_def ab_next_def mem_spine_def)

lemma demo_config_ok: "validate_config demo_config = None" "config_fits demo_config"
proof -
  have "validate_controls default_controls = None"
    using default_controls_ok by (simp add: validate_controls_None_iff)
  then show "validate_config demo_config = None" by (simp add: validate_config_def demo_config_def)
  show "config_fits demo_config"
    using default_controls_ok
    by (simp add: demo_config_def config_fits_def ascii_utf8 ascii_def byte_def)
qed

lemma demo_sim_new: "new_sim mem_spine list_chain demo_config (Some mem_log) = Inr demo_sim"
proof -
  have "is_ok (new_sim mem_spine list_chain demo_config (Some mem_log))"
    using demo_config_ok
    by (simp add: new_sim_def new_garden_def new_producer_def log_committed_def committed_of_def mem_spine_def
        mem_log_def mem_empty_def demo_config_def)
  then show ?thesis by (auto simp: demo_sim_def is_ok_iff)
qed

lemma demo_sim_controls: "s_controls demo_sim = default_controls"
  using new_sim_run_ok(10) [OF demo_sim_new demo_config_ok(2)] by (simp add: demo_config_def)

lemma demo_room: "room demo_sim" "run_ok demo_sim"
  using new_sim_run_ok [OF demo_sim_new demo_config_ok(2)]
  by (simp_all add: room_def max_events_per_tick_def)

lemma demo_tick:
  obtains s L where "step_sim mem_spine list_chain demo_sim = Some (None, s)"
    "sim_reach mem_spine list_chain demo_sim s" "s_log s = Some L" "s_tick s = 1"
    "replay mem_spine L = Some (None, hist_of (\<lambda>l. l) L)" "run_ok s"
    "follows mem_spine (\<lambda>l. l) (s_proc demo_sim) 0 s L"
proof -
  have inv0: "run_inv mem_spine (\<lambda>l. l) demo_config (s_proc demo_sim) demo_sim"
    by (rule mem.start_inv [OF demo_sim_new demo_config_ok(2) mem_log_fresh])
  then obtain L0 where L0: "follows mem_spine (\<lambda>l. l) (s_proc demo_sim) 0 demo_sim L0" by (auto simp: run_inv_def)
  obtain s where s: "step_sim mem_spine list_chain demo_sim = Some (None, s)"
    by (rule mem.inv_step_total [OF inv0 demo_room(1) mem_validates])
  from mem.step_ok [OF demo_room(2,1) L0 s] obtain L where
    L: "follows mem_spine (\<lambda>l. l) (s_proc demo_sim) 0 s L" "run_ok s" "s_tick s = s_tick demo_sim + 1" by metis
  then have "s_log s = Some L" "s_tick s = 1" "replay mem_spine L = Some (None, hist_of (\<lambda>l. l) L)"
    using new_sim_run_ok(3) [OF demo_sim_new demo_config_ok(2)] mem.replay_total by (auto simp: follows_def)
  from that [OF s sim_reach.move [OF sim_reach.start sim_move.tick [OF demo_room(1) s]] this L(2,1)]
  show ?thesis .
qed

subsection \<open>Properties of runs\<close>

text \<open>
  C9. Replay lands where the run landed: for every run started on an empty log, through any
  sequence of ticks, control changes, saves and lifecycle changes, folding what \<^verbatim>\<open>Replay\<close> returns
  up to the cursor with \<^verbatim>\<open>sim.Fold\<close> gives the live garden and the live counters.
\<close>

theorem replay_reaches_live_garden:
  assumes "spine_laws sp disk" "new_sim sp ch cfg (Some L0) = Inr s0" "config_fits cfg" "fresh_log sp disk L0"
    "sim_reach sp ch s0 s" "s_log s = Some L" "replay sp L = Some (None, es)"
  shows "fold_history (c_Organisms cfg) (take (cur_of sp disk L) es) = Inr (s_garden s, p_stats (s_proc s))"
  using spine_laws.reach_replay [OF assms] .

theorem replay_reaches_live_garden_witness:
  "\<exists>(s :: mem_sim) L es. s_tick s = 1 \<and> s_log s = Some L \<and> replay mem_spine L = Some (None, es) \<and>
     fold_history 3 (take (cur_of mem_spine (\<lambda>l. l) L) es) = Inr (s_garden s, p_stats (s_proc s))"
proof -
  obtain s L where s: "sim_reach mem_spine list_chain demo_sim s" "s_log s = Some L" "s_tick s = 1"
    "replay mem_spine L = Some (None, hist_of (\<lambda>l. l) L)" by (rule demo_tick)
  have "fold_history 3 (take (cur_of mem_spine (\<lambda>l. l) L) (hist_of (\<lambda>l. l) L)) = Inr (s_garden s, p_stats (s_proc s))"
    using replay_reaches_live_garden [OF mem_laws(1) demo_sim_new demo_config_ok(2) mem_log_fresh s(1,2,4)]
    by (simp add: demo_config_def)
  with s show ?thesis by blast
qed

text \<open>
  C10. Nothing is lost and nothing is invented: in every reachable simulation the records on the
  log are the events published, and the backlog (\<^verbatim>\<open>Pending\<close>) is what was published and not yet
  folded; it is never negative.
\<close>

theorem published_is_folded_plus_pending:
  assumes "spine_laws sp disk" "new_sim sp ch cfg (Some L0) = Inr s0" "config_fits cfg" "fresh_log sp disk L0"
    "sim_reach sp ch s0 s" "s_log s = Some L"
  shows "s_published s = int (length (hist_of disk L)) \<and> 0 \<le> pending_of sp s \<and>
    s_published s = int (cur_of sp disk L) + pending_of sp s \<and>
    Received (p_stats (s_proc s)) = int (cur_of sp disk L)"
proof -
  note laws = assms(1)
  obtain g where g: "wf_of sp disk L"
    "projection (s_proc s) = projection (run_list consume (new_processor g False) (take (cur_of sp disk L) (hist_of disk L)))"
    "s_published s = int (length (hist_of disk L))"
    using spine_laws.reach_fold [OF assms(1-5)] assms(6) by (metis option.inject)
  note cur = spine_laws.wf_cur [OF laws g(1)]
  have len: "length (hist_of disk L) = length (ab_recs (disk (el_log L)))" by (simp add: hist_of_def)
  have pend: "pending_of sp s = int (length (hist_of disk L)) - int (cur_of sp disk L)"
    using cur(1) len assms(6) spine_laws.next_off [OF laws]
    by (simp add: pending_of_def log_pending_def ab_next_def)
  have "Received (p_stats (s_proc s)) = int (length (take (cur_of sp disk L) (hist_of disk L)))"
    using g(2) by (simp add: projection_def run_consume_received) (simp add: new_processor_def zero_stats_def)
  with g(3) pend cur(2) len show ?thesis by simp
qed

theorem published_is_folded_plus_pending_witness:
  "\<exists>(s :: mem_sim) L. s_log s = Some L \<and> s_tick s = 1 \<and>
     s_published s = int (cur_of mem_spine (\<lambda>l. l) L) + pending_of mem_spine s"
proof -
  obtain s L where s: "sim_reach mem_spine list_chain demo_sim s" "s_log s = Some L" "s_tick s = 1" by (rule demo_tick)
  from published_is_folded_plus_pending [OF mem_laws(1) demo_sim_new demo_config_ok(2) mem_log_fresh s(1,2)] s
  show ?thesis by blast
qed

text \<open>
  C11. A tick of a run whose controls set no capacity folds everything: nothing is pending
  afterwards. With a capacity \<open>k\<close>, what is pending afterwards is what was pending plus what the
  tick appended, less \<open>k\<close>, and never below zero.
\<close>

theorem tick_backlog:
  assumes "spine_laws sp disk" "run_ok s" "room s" "follows sp disk b k s L"
    "step_sim sp ch s = Some (None, s')"
  shows "s_tick s' = s_tick s + 1 \<and> s_controls s' = next_controls s \<and> s_pending s' = [] \<and>
    pending_of sp s' =
      (if capacity (next_controls s) = 0 then 0
       else max 0 (pending_of sp s + (s_published s' - s_published s) - capacity (next_controls s)))"
proof -
  note laws = assms(1)
  obtain L' batch where r: "follows sp disk b k s' L'" "run_ok s'" "hist_of disk L' = hist_of disk L @ batch"
    "s_tick s' = s_tick s + 1" "s_published s' = s_published s + int (length batch)"
    "cur_of sp disk L' = (if capacity (next_controls s) \<le> 0 then length (hist_of disk L')
       else min (cur_of sp disk L + nat (capacity (next_controls s))) (length (hist_of disk L')))"
    "s_controls s' = next_controls s" "s_pending s' = []"
    by (rule spine_laws.step_ok [OF laws assms(2-5)], rule that)
  have pend: "pending_of sp t = int (length (hist_of disk M)) - int (cur_of sp disk M)"
    if "follows sp disk b k t M" for t M
  proof -
    have t: "s_log t = Some M" "wf_of sp disk M" using that by (auto simp: follows_def)
    have "length (hist_of disk M) = length (ab_recs (disk (el_log M)))" by (simp add: hist_of_def)
    with t spine_laws.wf_cur [OF laws t(2)] spine_laws.next_off [OF laws] show ?thesis
      by (simp add: pending_of_def log_pending_def ab_next_def)
  qed
  have cap: "0 \<le> capacity (next_controls s)"
    using r(2,7) capacity_bounds(1) by (auto simp: run_ok_def)
  have "pending_of sp s' = (if capacity (next_controls s) = 0 then 0
       else max 0 (pending_of sp s + int (length batch) - capacity (next_controls s)))"
    unfolding pend [OF assms(4)] pend [OF r(1)] r(6) using cap r(3) by auto
  with r show ?thesis by simp
qed

theorem tick_backlog_witness:
  "\<exists>s'. step_sim mem_spine list_chain demo_sim = Some (None, s') \<and> pending_of mem_spine s' = 0"
proof -
  have "run_inv mem_spine (\<lambda>l. l) demo_config (s_proc demo_sim) demo_sim"
    by (rule mem.start_inv [OF demo_sim_new demo_config_ok(2) mem_log_fresh])
  then obtain L where L: "follows mem_spine (\<lambda>l. l) (s_proc demo_sim) 0 demo_sim L" by (auto simp: run_inv_def)
  obtain s where s: "step_sim mem_spine list_chain demo_sim = Some (None, s)" by (rule demo_tick)
  have "next_controls demo_sim = default_controls"
    using new_sim_run_ok(5) [OF demo_sim_new demo_config_ok(2)] demo_sim_controls by (simp add: next_controls_def)
  then have "capacity (next_controls demo_sim) = 0" by (simp add: capacity_def default_controls_def)
  with tick_backlog [OF mem_laws(1) demo_room(2,1) L s] s show ?thesis by auto
qed

text \<open>
  C12. Every tick completes: on a log that does not fail, from any reachable simulation \<^verbatim>\<open>Step\<close>
  returns without an error and without a panic.
\<close>

theorem tick_completes:
  assumes "reliable_spine sp disk" "validates_loggable (sp_validate sp)" "new_sim sp ch cfg (Some L0) = Inr s0"
    "config_fits cfg" "fresh_log sp disk L0" "sim_reach sp ch s0 s" "room s"
  shows "\<exists>s'. step_sim sp ch s = Some (None, s') \<and> s_tick s' = s_tick s + 1"
proof -
  have laws: "spine_laws sp disk" using assms(1) by (simp add: reliable_spine_def)
  have "run_inv sp disk cfg (s_proc s0) s"
    by (rule spine_laws.reach_inv [OF laws assms(6) spine_laws.start_inv [OF laws assms(3-5)]])
  note inv = this
  then obtain L where L: "run_ok s" "follows sp disk (s_proc s0) 0 s L" by (auto simp: run_inv_def)
  obtain s' where s': "step_sim sp ch s = Some (None, s')"
    by (rule reliable_spine.inv_step_total [OF assms(1) inv assms(7,2)])
  from spine_laws.step_ok [OF laws L(1) assms(7) L(2) s'] have "s_tick s' = s_tick s + 1" by metis
  with s' show ?thesis by blast
qed

theorem tick_completes_witness: "\<exists>s'. step_sim mem_spine list_chain demo_sim = Some (None, s')"
  using tick_completes [OF mem_laws(2) mem_validates demo_sim_new demo_config_ok(2) mem_log_fresh
      sim_reach.start demo_room(1)] by blast

text \<open>
  C13. A \<^verbatim>\<open>Save\<close> that reports success is durable: the newest snapshot on disk is this state,
  taken at the projection's cursor, and the group is committed at exactly that offset.
\<close>

theorem save_is_durable:
  assumes "spine_laws sp disk" "save_sim sp ch s = Some (None, s')" "snapshot_fit (snapshot_state ch s)"
  shows "\<exists>L st. s_log s' = Some L \<and> ab_snap (disk (el_log L)) = Some (log_read sp L, st) \<and>
    unmarshal_snapshot st = Some (snapshot_state ch s) \<and>
    ab_commit (disk (el_log L)) group_name = Some (log_read sp L) \<and> s_committed s' = log_read sp L"
proof -
  obtain L where "s_log s' = Some L" "s_committed s' = rd_offset sp (el_reader L)"
    "ab_snap (disk (el_log L)) = Some (rd_offset sp (el_reader L), marshal_snapshot (snapshot_state ch s))"
    "ab_commit (disk (el_log L)) group_name = Some (rd_offset sp (el_reader L))"
    by (rule spine_laws.save_sim_ok [OF assms(1,2)], rule that)
  with unmarshal_marshal_snapshot [OF assms(3)] show ?thesis by (auto simp: log_read_def)
qed

lemma organism_id_ascii: "0 \<le> i \<Longrightarrow> ascii (organism_id i)"
  by (simp add: organism_id_def ascii_Cons fmt_0d_ascii byte_def)

lemma garden_organisms_fit:
  assumes "garden_wf g"
  shows "list_all organism_fit (organisms g)"
  unfolding list_all_length
proof (intro allI impI)
  fix i assume i: "i < length (organisms g)"
  have "organism_ok (organisms g ! i)" using assms i by (simp add: garden_wf_def list_all_length)
  moreover have "ID (organisms g ! i) = organism_id (int i)"
    using assms i garden_shape_nth_ID by (simp add: garden_wf_def)
  ultimately show "organism_fit (organisms g ! i)"
    by (simp add: organism_fit_def organism_ok_def in_int64_def rule_constants ascii_utf8 organism_id_ascii)
qed

lemma small_in_int64: "0 \<le> n \<Longrightarrow> n \<le> 64000 \<Longrightarrow> in_int64 n"
  by (simp add: in_int64_def)

lemma demo_snapshot_fit: "snapshot_fit (snapshot_state list_chain demo_sim)"
proof -
  note new = new_sim_run_ok [OF demo_sim_new demo_config_ok(2)]
  have g: "list_all organism_fit (organisms (s_garden demo_sim))"
    using demo_room(2) garden_organisms_fit by (simp add: run_ok_def)
  have c: "ascii (fmt_d 0)" by (simp add: fmt_d_def dec_nat.simps digit_def ascii_def byte_def)
  have st: "p_stats (s_proc demo_sim) = zero_stats" using new(6) by (auto simp: new_processor_def)
  show ?thesis
    using new g c demo_sim_controls
    by (simp add: snapshot_fit_def snapshot_state_def demo_config_def list_chain_def snapshot_schema_version_def
        controls_fit_def default_controls_def stats_fit_def st zero_stats_def count_keys_sorted_def in_int64_def
        ascii_utf8) (simp add: ascii_utf8 ascii_def byte_def)
qed

theorem save_is_durable_witness:
  "\<exists>s' L. save_sim mem_spine list_chain demo_sim = Some (None, s') \<and> s_log s' = Some L \<and>
     ab_commit (el_log L) group_name = Some (log_read mem_spine L)"
proof -
  have "s_log demo_sim = Some mem_log" using new_sim_run_ok(9) [OF demo_sim_new demo_config_ok(2)] by simp
  then obtain s' where s': "save_sim mem_spine list_chain demo_sim = Some (None, s')"
    by (rule mem.save_total)
  from save_is_durable [OF mem_laws(1) s' demo_snapshot_fit] s' show ?thesis by blast
qed

text \<open>
  \<^verbatim>\<open>FailSnapshotEvery\<close> injects a failure that a save always recovers from: on a log that
  does not fail the save succeeds, counts one retry on every invocation divisible by the
  control and none otherwise, and never counts a failure.
\<close>

lemma injected_failure_recovers:
  assumes "reliable_spine sp disk" "s_log s = Some L"
  shows "\<exists>s'. save_sim sp ch s = Some (None, s') \<and> s_snapshotSaveFailures s' = s_snapshotSaveFailures s \<and>
    s_snapshotSaveRetries s' = s_snapshotSaveRetries s +
      (if FailSnapshotEvery (s_controls s) > 0 \<and>
          (s_saveInvocations s + 1) mod FailSnapshotEvery (s_controls s) = 0 then 1 else 0)"
  by (rule reliable_spine.save_total [OF assms]) blast

lemma injected_failure_recovers_witness:
  "\<exists>s'. save_sim mem_spine list_chain (demo_sim\<lparr>s_controls := default_controls\<lparr>FailSnapshotEvery := 1\<rparr>\<rparr>) = Some (None, s') \<and>
     s_snapshotSaveRetries s' = s_snapshotSaveRetries demo_sim + 1"
proof -
  have "s_log (demo_sim\<lparr>s_controls := default_controls\<lparr>FailSnapshotEvery := 1\<rparr>\<rparr>) = Some mem_log"
    using new_sim_run_ok(9) [OF demo_sim_new demo_config_ok(2)] by simp
  from injected_failure_recovers [OF mem_laws(2) this, where ch = list_chain] show ?thesis by auto
qed

end
