(* ===== verification/Crash.thy ===== *)
theory Crash
  imports Sim_Runs
begin

text \<open>
  Crash safety: what is on disk at every moment of a run, after ticks, saves and failed ticks. The
  snapshot a commit points at is the fold of exactly the records below its own offset, so a restart
  from it and the records after it starts from a garden the run really had.
\<close>

text \<open>A stored snapshot of this run whose organisms and counters are the fold of \<open>es\<close>.\<close>

definition snapshot_folds :: "sim_config \<Rightarrow> processor \<Rightarrow> event list \<Rightarrow> string \<Rightarrow> bool" where
  "snapshot_folds cfg b es st \<longleftrightarrow> list_all event_ok es \<and>
     (\<exists>sn. st = marshal_snapshot sn \<and> sn_Organisms sn = organisms (p_garden (run_list consume b es)) \<and>
        sn_Processor sn = p_stats (run_list consume b es) \<and> sn_RunID sn = c_RunID cfg \<and> sn_Seed sn = c_Seed cfg)"

text \<open>The snapshot on disk is the fold of the records below its offset.\<close>

definition true_snap ::
  "('fs, 'l, 'r) spine \<Rightarrow> ('l \<Rightarrow> contents) \<Rightarrow> sim_config \<Rightarrow> processor \<Rightarrow> ('l, 'r) evlog \<Rightarrow> bool" where
  "true_snap sp disk cfg b L \<longleftrightarrow>
     (\<forall>p st. ab_snap (disk (el_log L)) = Some (p, st) \<longrightarrow>
        ab_first (disk (el_log L)) \<le> p \<and> p \<le> ab_next (disk (el_log L)) \<and>
        snapshot_folds cfg b (take (nat (p - ab_first (disk (el_log L)))) (hist_of disk L)) st)"

lemma true_snap_none: "ab_snap (disk (el_log L)) = None \<Longrightarrow> true_snap sp disk cfg b L"
  by (simp add: true_snap_def)

lemma true_snap_grow:
  assumes "true_snap sp disk cfg b L" "ab_first (disk (el_log L')) = ab_first (disk (el_log L))"
    "ab_recs (disk (el_log L')) = ab_recs (disk (el_log L)) @ xs" "ab_snap (disk (el_log L')) = ab_snap (disk (el_log L))"
  shows "true_snap sp disk cfg b L'"
proof -
  have "take (nat (p - ab_first (disk (el_log L)))) (hist_of disk L') = take (nat (p - ab_first (disk (el_log L)))) (hist_of disk L)"
    if "p \<le> ab_next (disk (el_log L))" for p
    using that assms(3) by (simp add: hist_of_def ab_next_def)
  moreover have "ab_next (disk (el_log L)) \<le> ab_next (disk (el_log L'))" using assms(2,3) by (simp add: ab_next_def)
  ultimately show ?thesis using assms(1) unfolding true_snap_def assms(2,4) by (metis order_trans)
qed

context spine_laws
begin

lemma true_snap_saved:
  assumes "follows sp disk b 0 s L" "s_cfg s = cfg" "same_log sp disk L L'"
    "ab_snap (disk (el_log L')) = Some (rd_offset sp (el_reader L), marshal_snapshot (snapshot_state ch s))"
  shows "true_snap sp disk cfg b L'"
proof -
  have L: "wf_of sp disk L"
    "projection (s_proc s) = projection (run_list consume b (take (cur_of sp disk L) (hist_of disk L)))"
    using assms(1) by (auto simp: follows_def)
  note cur = wf_cur [OF L(1)]
  have n: "nat (rd_offset sp (el_reader L) - ab_first (disk (el_log L'))) = cur_of sp disk L"
    "hist_of disk L' = hist_of disk L" "ab_first (disk (el_log L')) \<le> rd_offset sp (el_reader L)"
    "rd_offset sp (el_reader L) \<le> ab_next (disk (el_log L'))"
    using cur assms(3) same_log_views [OF assms(3)] by (simp_all add: same_log_def ab_next_def)
  have "list_all event_ok (hist_of disk L)"
    using L(1) from_core_ok by (fastforce simp: wf_of_def hist_of_def list_all_iff is_ok_iff)
  then have "list_all event_ok (take (cur_of sp disk L) (hist_of disk L))" by (auto simp: list_all_iff dest: in_set_takeD)
  with n L(2) assms(2,4) show ?thesis
    by (auto simp: true_snap_def snapshot_folds_def snapshot_state_def projection_def s_garden_def
        intro!: exI [of _ "snapshot_state ch s"])
qed

lemma save_loop_snap:
  "save_loop sp st inject n lastErr L s = (err, s') \<Longrightarrow> s_log s = Some L \<Longrightarrow>
     \<exists>L'. s_log s' = Some L' \<and> (ab_snap (disk (el_log L')) = ab_snap (disk (el_log L)) \<or>
       ab_snap (disk (el_log L')) = Some (rd_offset sp (el_reader L), st))"
proof (induction n arbitrary: lastErr L s)
  case 0
  then show ?case by auto
next
  case (Suc n)
  let ?first = "Suc n = max_save_attempts"
  let ?s = "if ?first then s else observe_sim ObserveSnapshotSaveRetry
     (s\<lparr>s_snapshotSaveRetries := s_snapshotSaveRetries s + 1\<rparr>)"
  have s: "s_log ?s = Some L" using Suc.prems(2) by simp
  show ?case
  proof (cases "inject \<and> ?first")
    case True
    then obtain e where "save_loop sp st inject n (Some e) L ?s = (err, s')"
      using Suc.prems(1) unfolding save_loop.simps(2) Let_def by simp
    from Suc.IH [OF this s] show ?thesis .
  next
    case False
    obtain serr L1 where save: "log_save sp st L = (serr, L1)" by (cases "log_save sp st L")
    note eff = log_save_effect [OF save]
    show ?thesis
    proof (cases serr)
      case None
      with False save Suc.prems(1) have "s' = ?s\<lparr>s_log := Some L1, s_committed := log_read sp L\<rparr>"
        by (auto simp: Let_def)
      with eff(5) [OF None] show ?thesis by simp
    next
      case (Some e)
      with False save Suc.prems(1) obtain e' where
        "save_loop sp st inject n (Some e') L1 (?s\<lparr>s_log := Some L1\<rparr>) = (err, s')" by (auto simp: Let_def)
      from Suc.IH [OF this] eff(1,4) show ?thesis by auto
    qed
  qed
qed

lemma save_true_snap:
  assumes "save_sim sp ch s = Some (err, s')" "follows sp disk b 0 s L" "s_cfg s = cfg" "true_snap sp disk cfg b L"
  shows "\<exists>L'. s_log s' = Some L' \<and> true_snap sp disk cfg b L' \<and> backed sp disk L'"
proof -
  have L: "s_log s = Some L" "backed sp disk L" using assms(2) by (auto simp: follows_def)
  let ?s = "s\<lparr>s_saveInvocations := s_saveInvocations s + 1\<rparr>"
  obtain i where sl: "save_loop sp (marshal_snapshot (snapshot_state ch s)) i max_save_attempts None L ?s = (err, s')"
    using assms(1) L by (simp add: save_sim_def Let_def)
  obtain L' where L': "s_log s' = Some L'" "same_log sp disk L L'" using save_loop_frame [OF sl] L by auto
  have "ab_snap (disk (el_log L')) = ab_snap (disk (el_log L)) \<or>
     ab_snap (disk (el_log L')) = Some (rd_offset sp (el_reader L), marshal_snapshot (snapshot_state ch s))"
    using save_loop_snap [OF sl] L L'(1) by auto
  then have "true_snap sp disk cfg b L'"
    using true_snap_grow [OF assms(4), of L' "[]"] true_snap_saved [OF assms(2,3) L'(2)] L'(2)
    by (auto simp: same_log_def)
  with L' L(2) show ?thesis by (simp add: same_log_def)
qed

lemma fold_loop_log: "fold_loop sp ch errs es s = (err, s') \<Longrightarrow> s_log s' = s_log s"
  by (induction es arbitrary: errs s) (auto simp: Let_def split: sum.splits prod.splits)

text \<open>A tick, whether it succeeds or fails: every way out leaves a true snapshot.\<close>

lemma step_true_snap:
  assumes "run_ok s" "room s" "follows sp disk b 0 s L" "s_cfg s = cfg" "true_snap sp disk cfg b L"
    "step_sim sp ch s = Some (err, s')"
  shows "\<exists>L'. s_log s' = Some L' \<and> true_snap sp disk cfg b L' \<and> backed sp disk L'"
proof -
  obtain p1 ctl cs es p2 where prep:
    "stage_changes (s_tick s) (s_pending s) (s_prod s) (s_controls s) [] = (p1, ctl, cs)"
    "producer_tick p1 (s_tick s) ctl = Some (Inr es, p2)"
    and lb: "list_all loggable (tick_batch s cs es)" by (rule step_prepare [OF assms(1,2)])
  let ?batch = "tick_batch s cs es"
  have L: "s_log s = Some L" "wf_of sp disk L" "backed sp disk L" using assms(3) by (auto simp: follows_def)
  note step = assms(6) [unfolded step_expand [OF prep L(1)]]
  obtain aerr L1 where app: "log_append sp ?batch L = (aerr, L1)" by (cases "log_append sp ?batch L")
  note d1 = log_append_disk [OF app]
  obtain xs where xs: "ab_recs (disk (el_log L1)) = ab_recs (disk (el_log L)) @ xs" using d1(5) by blast
  have L1: "true_snap sp disk cfg b L1" "backed sp disk L1"
    using true_snap_grow [OF assms(5) d1(4) xs d1(2)] backed_append [OF app L(3)] by simp_all
  show ?thesis
  proof (cases aerr)
    case (Some e)
    with step app L1 show ?thesis by auto
  next
    case ok: None
    have wf1: "wf_of sp disk L1"
      using log_append_ok [OF L(2) loggable_encodable [OF lb]] app ok by simp
    obtain uerr todo L2 where dr: "unprocessed_up_to sp (capacity ctl) L1 = Some (uerr, todo, L2)"
      and L2: "wf_of sp disk L2" "cur_of sp disk L1 \<le> cur_of sp disk L2"
      using unprocessed_ok [OF wf1, of "capacity ctl"] by auto
    have same: "el_log L2 = el_log L1" by (rule unprocessed_log [OF dr])
    have t2: "true_snap sp disk cfg b L2" "backed sp disk L2"
      using true_snap_grow [OF L1(1), of L2 "[]"] backed_advance [OF L1(2) wf1 L2(1) same L2(2)] same by simp_all
    obtain ferr s1 where fo: "fold_sim sp ch todo (staged s ctl p2 ?batch L2) = (ferr, s1)"
      by (cases "fold_sim sp ch todo (staged s ctl p2 ?batch L2)")
    have log1: "s_log s1 = Some L2" using fold_loop_log [OF fo [unfolded fold_sim_def]] by (simp add: staged_def)
    show ?thesis
    proof (cases "uerr = None \<and> ferr = None")
      case False
      with step app ok dr fo t2 log1 show ?thesis
        by (auto simp: staged_def split: option.splits)
    next
      case True
      note fd = step_folded [OF assms(3) lb app [unfolded ok] dr [unfolded conjunct1 [OF True]]
          fo [unfolded conjunct2 [OF True]]]
      have fin: "end_tick sp ch s1 = Some (err, s')" using step app ok dr fo True by simp
      have cfg1: "s_cfg (s1\<lparr>s_tick := s_tick s1 + 1\<rparr>) = cfg" using fd(5) assms(4) by (auto simp: staged_def)
      from fin log1 t2 save_true_snap [OF _ fd(1) cfg1 t2(1)] show ?thesis
        by (auto simp: end_tick_def Let_def split: if_splits)
    qed
  qed
qed

lemma move_true_snap:
  assumes "sim_move sp ch s s'" "run_inv sp disk cfg b s" "s_log s = Some L" "true_snap sp disk cfg b L"
  shows "\<exists>L'. s_log s' = Some L' \<and> true_snap sp disk cfg b L'"
proof -
  have s: "run_ok s" "s_cfg s = cfg" "follows sp disk b 0 s L" using assms(2,3) by (auto simp: run_inv_def follows_def)
  show ?thesis
    using assms(1)
  proof cases
    case tick
    from step_true_snap [OF s(1) tick(1) s(3,2) assms(4) tick(2)] show ?thesis by blast
  next
    case (control c n)
    with assms(3,4) show ?thesis by (auto simp: set_controls_def Let_def split: option.splits)
  next
    case (save err)
    from save_true_snap [OF save s(3,2) assms(4)] show ?thesis by blast
  qed (use assms(3,4) in \<open>simp_all add: set_state_def\<close>)
qed

lemma reach_true_snap:
  assumes "sim_reach sp ch s0 s" "run_inv sp disk cfg b s0" "s_log s0 = Some L0" "true_snap sp disk cfg b L0"
  shows "\<exists>L. s_log s = Some L \<and> true_snap sp disk cfg b L"
  using assms
proof (induction rule: sim_reach.induct)
  case (move s s')
  then obtain L where "s_log s = Some L" "true_snap sp disk cfg b L" by blast
  with move_true_snap [OF move.hyps(2) reach_inv [OF move.hyps(1) move.prems(1)]] show ?case by blast
qed blast

end

subsection \<open>Commits\<close>

text \<open>
  C14. Crashing is safe at any point of a run whose ticks so far succeeded, or whose last tick
  failed, whatever failed in it, with nothing saved since, and through failed saves: a commit of the group is backed by the
  snapshot on disk, which is no older than the commit and no newer than the records the projection
  has read, and whose organisms and counters are exactly what \<^verbatim>\<open>sim.Fold\<close> makes of the records of
  the log below the snapshot's own offset.
\<close>

theorem commits_are_backed:
  assumes "spine_laws sp disk" "new_sim sp ch cfg (Some L0) = Inr s0" "config_fits cfg" "fresh_log sp disk L0"
    "sim_reach sp ch s0 s" "t = s \<or> room s \<and> step_sim sp ch s = Some (Some e, t)"
    "s_log t = Some L" "ab_commit (disk (el_log L)) group_name = Some c"
  shows "\<exists>p sn g. ab_snap (disk (el_log L)) = Some (p, marshal_snapshot sn) \<and> c \<le> p \<and> p \<le> log_read sp L \<and>
    fold_history (c_Organisms cfg) (take (nat (p - ab_first (disk (el_log L)))) (hist_of disk L)) = Inr (g, sn_Processor sn) \<and>
    sn_Organisms sn = organisms g \<and> sn_RunID sn = c_RunID cfg \<and> sn_Seed sn = c_Seed cfg"
proof -
  note laws = assms(1)
  have inv0: "run_inv sp disk cfg (s_proc s0) s0" by (rule spine_laws.start_inv [OF laws assms(2-4)])
  have log0: "s_log s0 = Some L0" "true_snap sp disk cfg (s_proc s0) L0"
    using new_sim_run_ok(9) [OF assms(2,3)] assms(4) by (simp_all add: fresh_log_def true_snap_none)
  obtain M where M: "s_log s = Some M" "true_snap sp disk cfg (s_proc s0) M"
    using spine_laws.reach_true_snap [OF laws assms(5) inv0 log0] by blast
  have s: "run_ok s" "s_cfg s = cfg" "follows sp disk (s_proc s0) 0 s M"
    using spine_laws.reach_inv [OF laws assms(5) inv0] M(1) by (auto simp: run_inv_def follows_def)
  have "true_snap sp disk cfg (s_proc s0) L \<and> backed sp disk L"
  proof (cases "t = s")
    case True
    with M s(3) assms(7) show ?thesis by (simp add: follows_def)
  next
    case False
    with assms(6) have e: "room s" "step_sim sp ch s = Some (Some e, t)" by blast+
    from spine_laws.step_true_snap [OF laws s(1) e(1) s(3,2) M(2) e(2)] assms(7) show ?thesis by auto
  qed
  note L = conjunct1 [OF this] conjunct2 [OF this]
  obtain p st where p: "ab_snap (disk (el_log L)) = Some (p, st)" "c \<le> p" "p \<le> log_read sp L"
    using L(2) assms(8) unfolding backed_def log_read_def by blast
  let ?es = "take (nat (p - ab_first (disk (el_log L)))) (hist_of disk L)"
  define q where "q = run_list consume (s_proc s0) ?es"
  have "snapshot_folds cfg (s_proc s0) ?es st" using L(1) p(1) unfolding true_snap_def by blast
  then obtain sn where sn: "st = marshal_snapshot sn" "list_all event_ok ?es"
    "sn_Organisms sn = organisms (p_garden q)" "sn_Processor sn = p_stats q" "sn_RunID sn = c_RunID cfg" "sn_Seed sn = c_Seed cfg"
    unfolding snapshot_folds_def q_def by blast
  obtain g where g: "new_garden (c_Organisms cfg) = Inr g" "s_proc s0 = new_processor g (c_Metrics cfg)"
    using new_sim_run_ok(6) [OF assms(2,3)] by blast
  have "projection (s_proc s0) = projection (new_processor g False)" by (simp add: g projection_def new_processor_def)
  from projection_run [OF this, of ?es] have "projection q = projection (run_list consume (new_processor g False) ?es)"
    by (simp only: q_def)
  moreover have "process_batch (new_processor g False) ?es = (None, run_list consume (new_processor g False) ?es)"
    using process_batch_run [of "new_processor g False" ?es] sn(2) by (metis prod.collapse)
  ultimately have "fold_history (c_Organisms cfg) ?es = Inr (p_garden q, p_stats q)"
    using g(1) by (simp add: fold_history_def projection_def)
  with p sn show ?thesis by (intro exI [of _ p] exI [of _ sn] exI [of _ "p_garden q"]) simp
qed

theorem commits_are_backed_witness:
  "\<exists>(s :: mem_sim) L p sn g. s_tick s = 1 \<and> s_log s = Some L \<and> ab_snap (el_log L) = Some (p, marshal_snapshot sn) \<and>
     fold_history 3 (take (nat (p - ab_first (el_log L))) (hist_of (\<lambda>l. l) L)) = Inr (g, sn_Processor sn) \<and>
     sn_Organisms sn = organisms g"
proof -
  obtain t M where t: "sim_reach mem_spine list_chain demo_sim t" "s_log t = Some M" "s_tick t = 1" by (rule demo_tick)
  obtain s where s: "save_sim mem_spine list_chain t = Some (None, s)" by (rule mem.save_total [OF t(2)])
  have r: "sim_reach mem_spine list_chain demo_sim s" by (rule sim_reach.move [OF t(1) sim_move.save [OF s]])
  obtain L where L: "s_log s = Some L" "ab_commit (el_log L) group_name = Some (rd_offset mem_spine (el_reader L))"
    using mem.save_sim_ok [OF s] by blast
  have "s_tick s = 1" using mem.save_sim_frame [OF s] t(3) by (metis same_run_def)
  obtain p sn g where "ab_snap (el_log L) = Some (p, marshal_snapshot sn)"
    "fold_history (c_Organisms demo_config) (take (nat (p - ab_first (el_log L))) (hist_of (\<lambda>l. l) L)) = Inr (g, sn_Processor sn)"
    "sn_Organisms sn = organisms g"
    using commits_are_backed [OF mem_laws(1) demo_sim_new demo_config_ok(2) mem_log_fresh r _ L] by blast
  with L(1) \<open>s_tick s = 1\<close> show ?thesis by (simp add: demo_config_def) blast
qed

end
