(* ===== verification/Sim_Keys.thy ===== *)
theory Sim_Keys
  imports Sim_Runs
begin

text \<open>
  The idempotency keys of a run never repeat across ticks: an event of a later tick, or a later
  control change, has a key that no record before it has. This is why a restart may forget the
  keys at a tick boundary that has no backlog.
\<close>

definition control_key :: "string \<Rightarrow> int \<Rightarrow> string" where
  "control_key runID n = runID @ '':'' @ type_control_changed @ '':'' @ fmt_d n"

definition old_key :: "string \<Rightarrow> int \<Rightarrow> int \<Rightarrow> event \<Rightarrow> bool" where
  "old_key runID q n e \<longleftrightarrow>
     (\<exists>i. 0 < i \<and> i \<le> q \<and> idempotency_key e = event_id runID i) \<or>
     (\<exists>m. m \<le> n \<and> idempotency_key e = control_key runID m)"

definition new_key :: "string \<Rightarrow> int \<Rightarrow> int \<Rightarrow> event \<Rightarrow> bool" where
  "new_key runID q n e \<longleftrightarrow>
     (\<exists>i. q < i \<and> idempotency_key e = event_id runID i) \<or>
     (\<exists>m. n < m \<and> idempotency_key e = control_key runID m)"

lemma keys_disjoint:
  assumes "old_key r q n e" "new_key r q n f" "0 \<le> q"
  shows "idempotency_key e \<noteq> idempotency_key f"
proof -
  have ev: "event_id r i \<noteq> event_id r j" if "0 < i" "i \<le> q" "q < j" for i j
    using event_id_inj [of i j r] that by force
  have ct: "control_key r m \<noteq> control_key r k" if "m \<le> n" "n < k" for m k
    using fmt_d_inj [of m k] that by (auto simp: control_key_def)
  have "event_id r i \<noteq> control_key r m" for i m
    using event_id_not_control_key by (simp add: control_key_def)
  with ev ct assms show ?thesis unfolding old_key_def new_key_def by metis
qed

lemma old_key_mono: "old_key r q n e \<Longrightarrow> q \<le> q' \<Longrightarrow> n \<le> n' \<Longrightarrow> old_key r q' n' e"
  unfolding old_key_def by (meson order_trans)

lemma with_redeliveries_keys:
  "e \<in> set (with_redeliveries d i es) \<Longrightarrow> \<exists>f \<in> set es. idempotency_key e = idempotency_key f"
  by (induction es arbitrary: i) (auto split: if_splits)

lemma with_redeliveries_occurred:
  "list_all (\<lambda>e. OccurredAt e = t) es \<Longrightarrow> list_all (\<lambda>e. OccurredAt e = t) (with_redeliveries d i es)"
  by (induction es arbitrary: i) auto

text \<open>Staged revisions are the last ones handed out, in order.\<close>

definition revs_ok :: "('l, 'r, 'c) sim \<Rightarrow> bool" where
  "revs_ok s \<longleftrightarrow> map fst (s_pending s)
     = map (\<lambda>i. s_revision s - int (length (s_pending s)) + 1 + int i) [0..<length (s_pending s)]"

definition applied_rev :: "('l, 'r, 'c) sim \<Rightarrow> int" where
  "applied_rev s = s_revision s - int (length (s_pending s))"

lemma stage_extends: "\<exists>more. snd (snd (stage_changes tick ps p c batch)) = batch @ more"
proof (induction ps arbitrary: p c batch)
  case (Cons x ps)
  obtain n c1 where x: "x = (n, c1)" by (cases x)
  obtain e q where "control_changed p tick n = (e, q)" by (cases "control_changed p tick n")
  with Cons [of q c1 "batch @ [e]"] show ?case by (auto simp: x)
qed simp

lemma stage_event_keys:
  assumes "stage_changes tick ps p c batch = (p', c', batch @ es)"
  shows "map idempotency_key es = map (\<lambda>x. control_key (pd_runID p) (fst x)) ps"
  using assms
proof (induction ps arbitrary: p c batch es)
  case Nil
  then show ?case by simp
next
  case (Cons x ps)
  obtain n c1 where x: "x = (n, c1)" by (cases x)
  let ?e = "fst (control_changed p tick n)" and ?p = "p\<lparr>pd_seq := pd_seq p + 1\<rparr>"
  have st: "stage_changes tick ps ?p c1 (batch @ [?e]) = (p', c', batch @ es)"
    using Cons.prems by (simp add: x control_changed_def Let_def)
  obtain more where more: "batch @ es = (batch @ [?e]) @ more"
    using stage_extends [of tick ps ?p c1 "batch @ [?e]"] st by (metis snd_conv)
  then have es: "es = ?e # more" by simp
  have "map idempotency_key more = map (\<lambda>x. control_key (pd_runID ?p) (fst x)) ps"
    using st unfolding more by (rule Cons.IH)
  moreover have "idempotency_key ?e = control_key (pd_runID p) n"
    by (simp add: control_changed_def Let_def idempotency_key_def control_key_def)
  ultimately show ?case by (simp add: es x)
qed

lemma stage_occurred:
  assumes "stage_changes tick ps p c batch = (p', c', batch')" "list_all (\<lambda>e. OccurredAt e = tick) batch"
  shows "list_all (\<lambda>e. OccurredAt e = tick) batch'"
  using assms
  by (induction ps arbitrary: p c batch) (auto simp: control_changed_def Let_def)

lemma with_redeliveries_ends:
  assumes "es \<noteq> []"
  shows "with_redeliveries d i es \<noteq> []" "Sequence (last (with_redeliveries d i es)) = Sequence (last es)"
  using assms by (induction es arbitrary: i) (auto split: if_splits)

text \<open>A tick always appends something; where its records say they come from.\<close>

lemma batch_ends:
  assumes "run_ok s" "room s"
  shows "batch_of s \<noteq> []" "OccurredAt (hd (batch_of s)) = s_tick s" "OccurredAt (last (batch_of s)) = s_tick s"
    "Sequence (last (batch_of s))
       = pd_seq (s_prod s) + int (length (s_pending s)) + EventsPerTick (next_controls s)"
proof -
  obtain p1 ctl cs es p2 where prep:
    "stage_changes (s_tick s) (s_pending s) (s_prod s) (s_controls s) [] = (p1, ctl, cs)"
    "producer_tick p1 (s_tick s) ctl = Some (Inr es, p2)" "controls_ok ctl" "ctl = next_controls s"
    "int (length es) = EventsPerTick ctl" "list_all (\<lambda>e. Attempt e = 1 \<and> OccurredAt e = s_tick s) es"
    "\<And>i. i < length es \<Longrightarrow> Sequence (es ! i) = pd_seq (s_prod s) + int (length (s_pending s)) + 1 + int i"
    by (rule step_prepare [OF assms], rule that)
  let ?r = "with_redeliveries (c_DuplicateEvery (s_cfg s)) 0 es"
  have b: "batch_of s = cs @ ?r" using prep(1,2) by (simp add: batch_of_def tick_batch_def)
  have ne: "es \<noteq> []" using prep(3,5) by (auto simp: controls_ok_def)
  note ends = with_redeliveries_ends [OF ne, of "c_DuplicateEvery (s_cfg s)" 0]
  have "list_all (\<lambda>e. OccurredAt e = s_tick s) cs" using stage_occurred [OF prep(1)] by simp
  moreover have "list_all (\<lambda>e. OccurredAt e = s_tick s) es" using prep(6) by (simp add: list_all_iff)
  ultimately have "list_all (\<lambda>e. OccurredAt e = s_tick s) (batch_of s)"
    by (simp add: b with_redeliveries_occurred)
  then have "\<forall>e \<in> set (batch_of s). OccurredAt e = s_tick s" by (simp add: list_all_iff)
  moreover have ne': "batch_of s \<noteq> []" using ends(1) b by simp
  ultimately show "batch_of s \<noteq> []" "OccurredAt (hd (batch_of s)) = s_tick s"
    "OccurredAt (last (batch_of s)) = s_tick s" by simp_all
  have "Sequence (last es) = pd_seq (s_prod s) + int (length (s_pending s)) + int (length es)"
    using prep(7) [of "length es - 1"] ne by (simp add: last_conv_nth of_nat_diff Suc_le_eq)
  with ends b prep(4,5) show "Sequence (last (batch_of s))
       = pd_seq (s_prod s) + int (length (s_pending s)) + EventsPerTick (next_controls s)" by simp
qed

lemma batch_keys:
  assumes "run_ok s" "room s" "revs_ok s" "e \<in> set (batch_of s)"
  shows "new_key (c_RunID (s_cfg s)) (pd_seq (s_prod s)) (applied_rev s) e"
    "old_key (c_RunID (s_cfg s))
       (pd_seq (s_prod s) + int (length (s_pending s)) + EventsPerTick (next_controls s)) (s_revision s) e"
proof -
  let ?r = "c_RunID (s_cfg s)" and ?q = "pd_seq (s_prod s)" and ?k = "int (length (s_pending s))"
  obtain p1 ctl cs es p2 where prep:
    "stage_changes (s_tick s) (s_pending s) (s_prod s) (s_controls s) [] = (p1, ctl, cs)"
    "producer_tick p1 (s_tick s) ctl = Some (Inr es, p2)" "ctl = next_controls s"
    "int (length es) = EventsPerTick ctl" "list_all is_organism_event es"
    "\<And>i. i < length es \<Longrightarrow> EventID (es ! i) = event_id ?r (?q + ?k + 1 + int i)"
    by (rule step_prepare [OF assms(1,2)], rule that)
  have q: "0 \<le> ?q" and run: "pd_runID (s_prod s) = ?r" using assms(1) by (auto simp: run_ok_def)
  have e: "e \<in> set cs \<or> (\<exists>f \<in> set es. idempotency_key e = idempotency_key f)"
    using assms(4) prep(1,2) with_redeliveries_keys by (auto simp: batch_of_def tick_batch_def)
  have "new_key ?r ?q (applied_rev s) e \<and> old_key ?r (?q + ?k + EventsPerTick ctl) (s_revision s) e"
    using e
  proof
    assume "e \<in> set cs"
    then have "idempotency_key e \<in> set (map (\<lambda>x. control_key ?r (fst x)) (s_pending s))"
      using stage_event_keys [of "s_tick s" "s_pending s" "s_prod s" "s_controls s" "[]" p1 ctl cs] prep(1) run
      by (metis append_Nil image_eqI set_map)
    then obtain n where n: "n \<in> set (map fst (s_pending s))" "idempotency_key e = control_key ?r n" by auto
    from n(1) have "n \<in> set (map (\<lambda>i. s_revision s - ?k + 1 + int i) [0..<length (s_pending s)])"
      using assms(3) unfolding revs_ok_def by simp
    then have "applied_rev s < n" "n \<le> s_revision s" by (auto simp: applied_rev_def)
    with n(2) show ?thesis unfolding new_key_def old_key_def by blast
  next
    assume "\<exists>f \<in> set es. idempotency_key e = idempotency_key f"
    then obtain i where i: "i < length es" "idempotency_key e = idempotency_key (es ! i)"
      by (metis in_set_conv_nth)
    then have "idempotency_key e = event_id ?r (?q + ?k + 1 + int i)"
      using prep(5,6) organism_event_key by (simp add: list_all_length)
    moreover have "?q < ?q + ?k + 1 + int i" "?q + ?k + 1 + int i \<le> ?q + ?k + EventsPerTick ctl"
      using i(1) prep(4) by auto
    ultimately show ?thesis using q unfolding new_key_def old_key_def by (metis order_le_less_trans)
  qed
  with prep(3) show "new_key ?r ?q (applied_rev s) e"
    "old_key ?r (?q + ?k + EventsPerTick (next_controls s)) (s_revision s) e" by simp_all
qed

end
