(* ===== verification/Recovery.thy ===== *)
theory Recovery
  imports Sim
begin

text \<open>
  The restoring half of \<^verbatim>\<open>internal/sim/snapshot.go\<close>: \<^verbatim>\<open>Rebuild\<close> (a garden from a log) and
  \<^verbatim>\<open>Resume\<close> (a whole simulation from a log), with the helpers they use.
\<close>

definition trim_prefix :: "string \<Rightarrow> string \<Rightarrow> string" where
  "trim_prefix p s = (if take (length p) s = p then drop (length p) s else s)"

fun highest_organism :: "int \<Rightarrow> event list \<Rightarrow> int" where
  "highest_organism h [] = h"
| "highest_organism h (e # es) =
     (if \<not> is_organism_event e then highest_organism h es
      else case atoi (trim_prefix ''org-'' (EntityID e)) of
        None \<Rightarrow> highest_organism h es
      | Some n \<Rightarrow> highest_organism (if go_int (n + 1) > h then go_int (n + 1) else h) es)"

definition organism_count :: "event list \<Rightarrow> int" where
  "organism_count es = (let h = highest_organism 0 es in if h = 0 then 1 else h)"

definition ticks_in :: "event list \<Rightarrow> int" where
  "ticks_in es = (if es = [] then 0 else OccurredAt (last es) - OccurredAt (hd es) + 1)"

definition merge_counts :: "counts \<Rightarrow> counts \<Rightarrow> counts" where
  "merge_counts a b = fold (\<lambda>(k, v). count_add k v) b (fold (\<lambda>(k, v). count_add k v) a [])"

definition merge_stats :: "proc_stats \<Rightarrow> proc_stats \<Rightarrow> proc_stats" where
  "merge_stats a b =
     \<lparr>Received = Received a + Received b, Applied = Applied a + Applied b,
      NoEffect = NoEffect a + NoEffect b, Duplicates = Duplicates a + Duplicates b,
      Rejected = Rejected a + Rejected b, UnknownEntity = UnknownEntity a + UnknownEntity b,
      ByType = merge_counts (ByType a) (ByType b)\<rparr>"

definition rebuild_from :: "string \<Rightarrow> int \<Rightarrow> event list \<Rightarrow> go_error + garden \<times> snapshot" where
  "rebuild_from state offset tail =
     (case unmarshal_snapshot state of
        None \<Rightarrow> Inl (Errorf [T ''decode snapshot at '', D offset, T '': '', W (Lib ''encoding/json'')])
      | Some sn \<Rightarrow>
          if sn_SchemaVersion sn \<noteq> snapshot_schema_version then
            Inl (Errorf [T ''snapshot at '', D offset, T '' is schema version '', D (sn_SchemaVersion sn),
                         T '', this build writes '', D snapshot_schema_version,
                         T ''; delete it and replay the records''])
          else case restore (sn_Organisms sn) of
            Inl err \<Rightarrow> Inl (Errorf [T ''restore snapshot at '', D offset, T '': '', W err])
          | Inr g \<Rightarrow>
              (case process_batch (new_processor g False) tail of
                 (Some err, _) \<Rightarrow> Inl (Errorf [T ''fold '', D (int (length tail)),
                   T '' records after the snapshot at '', D offset, T '': '', W err])
               | (None, p) \<Rightarrow>
                   Inr (p_garden p,
                        sn\<lparr>sn_Tick := sn_Tick sn + ticks_in tail,
                           sn_Published := sn_Published sn + int (length tail),
                           sn_Processor := merge_stats (sn_Processor sn) (p_stats p)\<rparr>)))"

definition rebuild ::
  "('fs, 'l, 'r) spine \<Rightarrow> ('l, 'r) evlog \<Rightarrow> (go_error + garden \<times> snapshot) option" where
  "rebuild sp L =
     map_option (\<lambda>res. case res of
         Inl err \<Rightarrow> Inl err
       | Inr (None, offset, tail) \<Rightarrow>
           (case fold_history (organism_count tail) tail of
              Inl (err, _) \<Rightarrow> Inl err
            | Inr (g, st) \<Rightarrow> Inr (g, zero_snapshot\<lparr>sn_Processor := st\<rparr>))
       | Inr (Some state, offset, tail) \<Rightarrow> rebuild_from state offset tail)
     (log_restore sp L)"

definition resume_error :: "string \<Rightarrow> go_error \<Rightarrow> go_error" where
  "resume_error runID err = Errorf [T ''resume run '', T runID, T '': '', W err]"

definition resume_sim ::
  "('fs, 'l, 'r) spine \<Rightarrow> 'c chain_ops \<Rightarrow> string \<Rightarrow> ('l, 'r) evlog option \<Rightarrow> bool \<Rightarrow>
   (go_error + ('l, 'r, 'c) sim \<times> snapshot) option" where
  "resume_sim sp ch runID logopt m =
     (case logopt of
        None \<Rightarrow> Some (Inl (Errorf [T ''resume run '', T runID, T '': no log'']))
      | Some L \<Rightarrow>
        (case rebuild sp L of
           None \<Rightarrow> None
         | Some (Inl err) \<Rightarrow> Some (Inl (resume_error runID err))
         | Some (Inr (g, sn)) \<Rightarrow>
           (case mark_folded sp L of
              (Some err, _) \<Rightarrow> Some (Inl (resume_error runID err))
            | (None, L) \<Rightarrow>
                if sn_RunID sn = '''' then Some (Inl (resume_error runID (Sentinel ErrNoRunState)))
                else (case new_producer (sn_RunID sn) (sn_Seed sn) (int (length (sn_Organisms sn))) of
                  Inl err \<Rightarrow> Some (Inl (resume_error runID err))
                | Inr pr \<Rightarrow>
                  (case last_event sp L of
                     Inl err \<Rightarrow> Some (Inl (resume_error runID err))
                   | Inr newest \<Rightarrow>
                     (let pr = (case newest of None \<Rightarrow> pr | Some e \<Rightarrow> resume_producer pr (Sequence e))
                      in case log_committed sp L of
                           (Some err, _) \<Rightarrow> Some (Inl (resume_error runID err))
                         | (None, c) \<Rightarrow>
                             Some (Inr
                               (\<lparr>s_cfg = \<lparr>c_RunID = sn_RunID sn, c_Seed = sn_Seed sn,
                                   c_Organisms = int (length (sn_Organisms sn)),
                                   c_Controls = sn_Controls sn, c_DuplicateEvery = sn_DuplicateEvery sn,
                                   c_SnapshotEvery = 0, c_MaxTicks = sn_MaxTicks sn,
                                   c_TickInterval = sn_TickInterval sn, c_Metrics = m\<rparr>,
                                 s_prod = pr, s_log = Some L,
                                 s_proc = restore_stats (new_processor g m) (sn_Processor sn),
                                 s_chain = ch_new ch, s_tick = sn_Tick sn, s_controls = sn_Controls sn,
                                 s_revision = sn_Revision sn, s_pending = [],
                                 s_published = sn_Published sn, s_committed = c, s_state = sn_State sn,
                                 s_saveInvocations = 0, s_snapshotSaveRetries = 0,
                                 s_snapshotSaveFailures = 0\<rparr>, sn))))))))"

subsection \<open>Merging counters\<close>

lemma count_add_add: "count_keys_sorted m \<Longrightarrow> count_add k v (count_add k w m) = count_add k (w + v) m"
  unfolding count_keys_sorted_def by (induction k w m rule: count_add.induct) (auto simp: add.commute add.left_commute)

lemma count_add_commute:
  "count_keys_sorted m \<Longrightarrow> j \<noteq> k \<Longrightarrow> count_add j w (count_add k v m) = count_add k v (count_add j w m)"
  unfolding count_keys_sorted_def by (induction m) (auto simp: not_less less_le)

definition add_counts :: "counts \<Rightarrow> counts \<Rightarrow> counts" where
  "add_counts b m = fold (\<lambda>(k, v). count_add k v) b m"

lemma add_counts_push:
  "count_keys_sorted m \<Longrightarrow> add_counts b (count_add k v m) = count_add k v (add_counts b m)"
proof (induction b arbitrary: m)
  case (Cons x b)
  obtain j w where x: "x = (j, w)" by (cases x)
  have "count_add j w (count_add k v m) = count_add k v (count_add j w m)"
    using count_add_commute [OF Cons.prems] count_add_add [OF Cons.prems] by (cases "j = k") (auto simp: add.commute)
  with Cons.IH [OF count_add_sorted [OF Cons.prems]] show ?case by (simp add: add_counts_def x)
qed (simp add: add_counts_def)

lemma add_counts_add:
  assumes "count_keys_sorted m"
  shows "add_counts (count_add k v b) m = count_add k v (add_counts b m)"
  using assms
proof (induction k v b arbitrary: m rule: count_add.induct)
  case (1 k v)
  then show ?case by (simp add: add_counts_def)
next
  case (2 k v a x ps)
  have s: "count_keys_sorted (count_add a x m)" by (rule count_add_sorted [OF "2.prems"])
  have c: "add_counts ((a, x) # ps) m = add_counts ps (count_add a x m)" for a x ps m by (simp add: add_counts_def)
  consider "k = a" | "k \<noteq> a" "k < a" | "k \<noteq> a" "\<not> k < a" by blast
  then show ?case
  proof cases
    case 1
    then show ?thesis
      using add_counts_push [OF s, of ps a v] count_add_add [OF "2.prems"] by (simp add: c add.commute)
  next
    case 2
    then show ?thesis
      using add_counts_push [OF s, of ps k v] count_add_commute [OF "2.prems", of a k x v] by (simp add: c)
  next
    case 3
    with "2.IH" [OF _ _ s] show ?thesis by (simp add: c)
  qed
qed

lemma count_add_last: "\<forall>x \<in> set m. fst x < k \<Longrightarrow> count_add k v m = m @ [(k, v)]"
  by (induction m) auto

lemma add_counts_rebuild: "count_keys_sorted (m @ b) \<Longrightarrow> add_counts b m = m @ b"
proof (induction b arbitrary: m)
  case (Cons x b)
  obtain k v where x: "x = (k, v)" by (cases x)
  have "count_add k v m = m @ [(k, v)]"
    using Cons.prems by (intro count_add_last) (auto simp: x count_keys_sorted_def sorted_wrt_append)
  with Cons.IH [of "m @ [(k, v)]"] Cons.prems show ?case by (simp add: add_counts_def x)
qed (simp add: add_counts_def)

lemma merge_counts_eq: "count_keys_sorted a \<Longrightarrow> merge_counts a b = add_counts b a"
  using add_counts_rebuild [of "[]" a] by (simp add: merge_counts_def add_counts_def)

lemma merge_zero: "count_keys_sorted (ByType s) \<Longrightarrow> merge_stats s zero_stats = s"
  by (simp add: merge_stats_def zero_stats_def merge_counts_eq add_counts_def)

text \<open>
  Restarting with the counters of the snapshot: a processor that forgot its keys, fed events
  whose keys it never saw, ends with the garden and, once merged, the counters of the processor
  that went on.
\<close>

lemma restart_consume:
  assumes "p_garden d = p_garden c" "p_applied c = K \<union> p_applied d" "p_stats c = merge_stats base (p_stats d)"
    "count_keys_sorted (ByType base)" "\<forall>e \<in> set es. idempotency_key e \<notin> K"
  shows "p_garden (run_list consume d es) = p_garden (run_list consume c es) \<and>
    p_stats (run_list consume c es) = merge_stats base (p_stats (run_list consume d es))"
  using assms(1,2,3,5)
proof (induction es arbitrary: c d)
  case (Cons e es)
  have key: "idempotency_key e \<in> p_applied c \<longleftrightarrow> idempotency_key e \<in> p_applied d" using Cons.prems(2,4) by auto
  have "p_garden (consume d e) = p_garden (consume c e) \<and> p_applied (consume c e) = K \<union> p_applied (consume d e) \<and>
    p_stats (consume c e) = merge_stats base (p_stats (consume d e))"
  proof (cases "event_ok e")
    case False
    with Cons.prems show ?thesis by (simp add: process_invalid merge_stats_def)
  next
    case ok: True
    show ?thesis
    proof (cases "idempotency_key e \<in> p_applied d")
      case True
      with ok key Cons.prems show ?thesis by (simp add: process_duplicate merge_stats_def)
    next
      case False
      with ok key Cons.prems assms(4) show ?thesis
        by (simp add: process_fresh merge_stats_def merge_counts_eq add_counts_add Let_def split: outcome.splits)
    qed
  qed
  with Cons.IH [of "consume d e" "consume c e"] Cons.prems(4) show ?case by simp
qed simp

end
