(* ===== verification/Restart.thy ===== *)
theory Restart
  imports Sim_Keys Recovery
begin

text \<open>
  Restarting: what \<^verbatim>\<open>Rebuild\<close> and \<^verbatim>\<open>Resume\<close> recover from the log a run left behind. When the
  snapshot was taken with nothing pending, the rebuilt garden is the live one and the resumed
  producer continues where it stopped.
\<close>

lemma new_key_antimono: "new_key r q' n' e \<Longrightarrow> q \<le> q' \<Longrightarrow> n \<le> n' \<Longrightarrow> new_key r q n e"
  unfolding new_key_def by (meson order_le_less_trans)

definition keyed ::
  "('fs, 'l, 'r) spine \<Rightarrow> ('l \<Rightarrow> contents) \<Rightarrow> sim_config \<Rightarrow> processor \<Rightarrow> ('l, 'r, 'c) sim \<Rightarrow> ('l, 'r) evlog \<Rightarrow> bool" where
  "keyed sp disk cfg b s L \<longleftrightarrow>
     run_inv sp disk cfg b s \<and> s_log s = Some L \<and> revs_ok s \<and> 0 \<le> applied_rev s \<and>
     list_all (old_key (c_RunID cfg) (pd_seq (s_prod s)) (applied_rev s)) (hist_of disk L) \<and>
     pd_seq (s_prod s) = (if hist_of disk L = [] then 0 else Sequence (last (hist_of disk L)))"

text \<open>How a log grows from one simulation to a later one.\<close>

definition grows ::
  "('fs, 'l, 'r) spine \<Rightarrow> ('l \<Rightarrow> contents) \<Rightarrow> ('l, 'r, 'c) sim \<Rightarrow> ('l, 'r) evlog \<Rightarrow>
   ('l, 'r, 'c) sim \<Rightarrow> ('l, 'r) evlog \<Rightarrow> event list \<Rightarrow> bool" where
  "grows sp disk s L t M ext \<longleftrightarrow>
     hist_of disk M = hist_of disk L @ ext \<and>
     list_all (new_key (c_RunID (s_cfg s)) (pd_seq (s_prod s)) (applied_rev s)) ext \<and>
     pd_seq (s_prod s) \<le> pd_seq (s_prod t) \<and> applied_rev s \<le> applied_rev t \<and>
     ab_first (disk (el_log M)) = ab_first (disk (el_log L)) \<and> s_cfg t = s_cfg s \<and>
     (if ext = [] then s_tick t = s_tick s
      else OccurredAt (hd ext) = s_tick s \<and> OccurredAt (last ext) = s_tick t - 1)"

lemma grows_refl: "grows sp disk s L s L []"
  by (simp add: grows_def)

lemma grows_trans:
  "grows sp disk s L t M xs \<Longrightarrow> grows sp disk t M u N ys \<Longrightarrow> grows sp disk s L u N (xs @ ys)"
  by (auto simp: grows_def list_all_iff intro: new_key_antimono split: if_splits)

lemma revs_ok_Nil: "s_pending s = [] \<Longrightarrow> revs_ok s"
  by (simp add: revs_ok_def)

lemma set_controls_revs:
  assumes "set_controls c s = (Inr n, s')" "revs_ok s"
  shows "revs_ok s'" "applied_rev s' = applied_rev s" "s_prod s' = s_prod s"
  using assms
  by (auto simp: set_controls_def Let_def revs_ok_def applied_rev_def add.commute split: option.splits)

context spine_laws
begin

lemma move_grows:
  assumes "sim_move sp ch s s'" "keyed sp disk cfg b s L"
  obtains L' ext where "keyed sp disk cfg b s' L'" "grows sp disk s L s' L' ext"
proof -
  have inv: "run_inv sp disk cfg b s" and L: "s_log s = Some L" and rv: "revs_ok s" "0 \<le> applied_rev s"
    and old: "list_all (old_key (c_RunID cfg) (pd_seq (s_prod s)) (applied_rev s)) (hist_of disk L)"
    and sq: "pd_seq (s_prod s) = (if hist_of disk L = [] then 0 else Sequence (last (hist_of disk L)))"
    using assms(2) unfolding keyed_def by blast+
  have inv': "run_inv sp disk cfg b s'" by (rule move_inv [OF assms(1) inv])
  have cfg: "s_cfg s = cfg" and run: "run_ok s" using inv by (auto simp: run_inv_def)
  show thesis
    using assms(1)
  proof cases
    case tick
    have fol: "follows sp disk b 0 s L" using inv L by (auto simp: run_inv_def follows_def)
    from step_ok [OF run tick(1) fol tick(2)] obtain L' where
      L': "follows sp disk b 0 s' L'" "hist_of disk L' = hist_of disk L @ batch_of s"
      "s_pending s' = []" "s_cfg s' = s_cfg s" "s_revision s' = s_revision s" "s_tick s' = s_tick s + 1"
      "pd_seq (s_prod s') = pd_seq (s_prod s) + int (length (s_pending s)) + EventsPerTick (next_controls s)"
      "ab_first (disk (el_log L')) = ab_first (disk (el_log L))" "s_controls s' = next_controls s" "run_ok s'" by metis
    have ge: "pd_seq (s_prod s) \<le> pd_seq (s_prod s')" "applied_rev s \<le> applied_rev s'" "applied_rev s' = s_revision s"
      using L'(3,5,7,9,10) by (auto simp: applied_rev_def run_ok_def controls_ok_def)
    note keys = batch_keys [OF run tick(1) rv(1)] and ends = batch_ends [OF run tick(1)]
    have "list_all (old_key (c_RunID cfg) (pd_seq (s_prod s')) (applied_rev s')) (hist_of disk L')"
      using old ge keys(2) L'(2,7) cfg by (auto simp: list_all_iff intro: old_key_mono)
    moreover have "grows sp disk s L s' L' (batch_of s)"
      using L'(2,4,6,8) ge keys(1) ends(1-3) by (simp add: grows_def list_all_iff)
    ultimately show ?thesis
      using that [of L' "batch_of s"] inv' L'(1,2,3,7) rv(2) ge revs_ok_Nil [OF L'(3)] ends(1,4)
      by (simp add: keyed_def follows_def)
  next
    case (control c n)
    note sc = set_controls_revs [OF control(2) rv(1)]
    have "0 \<le> s_revision s" using inv by (simp add: run_inv_def)
    note ok = set_controls_ok [OF control(2,1) run this]
    show ?thesis
      using that [of L "[]"] inv' sc ok(4,7,10) L rv old sq by (simp add: keyed_def grows_def)
  next
    case (save err)
    obtain L' where s': "same_run s s'" "s_log s' = Some L'" "same_log sp disk L L'"
      using save_sim_frame [OF save] L by (metis option.inject)
    then have "revs_ok s'" "applied_rev s' = applied_rev s" "s_prod s' = s_prod s" "s_cfg s' = s_cfg s"
      "s_tick s' = s_tick s"
      using rv by (auto simp: same_run_def revs_ok_def applied_rev_def)
    with s' same_log_views [OF s'(3)] inv' rv old sq show ?thesis
      by (intro that [of L' "[]"]) (simp_all add: keyed_def grows_def same_log_def)
  next
    case (lifecycle st)
    with inv' L rv old sq show ?thesis
      by (intro that [of L "[]"]) (simp_all add: keyed_def grows_def set_state_def revs_ok_def applied_rev_def)
  next
    case (observe m)
    with inv' L rv old sq show ?thesis
      by (intro that [of L "[]"]) (simp_all add: keyed_def grows_def observe_sim_def revs_ok_def applied_rev_def)
  qed
qed

lemma reach_grows:
  assumes "sim_reach sp ch s t" "keyed sp disk cfg b s L"
  shows "\<exists>M ext. keyed sp disk cfg b t M \<and> grows sp disk s L t M ext"
  using assms
proof (induction rule: sim_reach.induct)
  case start
  then show ?case using grows_refl by blast
next
  case (move t u)
  then obtain M xs where M: "keyed sp disk cfg b t M" "grows sp disk s L t M xs" by blast
  obtain N ys where "keyed sp disk cfg b u N" "grows sp disk t M u N ys" by (rule move_grows [OF move.hyps(2) M(1)])
  with M(2) show ?case using grows_trans by blast
qed

lemma start_keyed:
  assumes "new_sim sp ch cfg (Some L) = Inr s" "config_fits cfg" "fresh_log sp disk L"
  shows "keyed sp disk cfg (s_proc s) s L"
  using start_inv [OF assms] new_sim_run_ok [OF assms(1,2)] assms(3)
  by (auto simp: keyed_def revs_ok_def applied_rev_def fresh_log_def hist_of_def)

end

subsection \<open>Rebuilding\<close>

text \<open>
  A snapshot on disk is the state \<open>s\<close>, taken when \<open>s\<close> had folded all its records: what the
  rebuild reads is that state and exactly the records appended since.
\<close>

context spine_laws
begin

lemma keyed_seen:
  assumes "keyed sp disk cfg b s L" "p_applied b = {}"
  shows "projection (s_proc s) = projection (run_list consume b (take (cur_of sp disk L) (hist_of disk L)))"
    "p_applied (s_proc s) \<subseteq> idempotency_key ` set (hist_of disk L)"
    "run_ok s" "wf_of sp disk L" "list_all event_ok (hist_of disk L)" "0 \<le> pd_seq (s_prod s)"
    "backed sp disk L" "s_published s = int (length (hist_of disk L))" "s_cfg s = cfg"
proof -
  obtain M where M: "follows sp disk b 0 s M" "s_published s = int (length (hist_of disk M))"
    "list_all loggable (hist_of disk M)" "run_ok s" "s_cfg s = cfg" and "s_log s = Some L"
    using assms(1) by (auto simp: keyed_def run_inv_def)
  then have eqM: "M = L" by (simp add: follows_def)
  show proj: "projection (s_proc s) = projection (run_list consume b (take (cur_of sp disk L) (hist_of disk L)))"
    using M(1) by (simp add: eqM follows_def)
  then have "p_applied (s_proc s) = idempotency_key ` {e \<in> set (take (cur_of sp disk L) (hist_of disk L)). event_ok e}"
    using assms(2) by (simp add: projection_def proc.seen_run)
  then show "p_applied (s_proc s) \<subseteq> idempotency_key ` set (hist_of disk L)" by (auto dest: in_set_takeD)
  show "run_ok s" "wf_of sp disk L" "list_all event_ok (hist_of disk L)" "0 \<le> pd_seq (s_prod s)"
    "backed sp disk L" "s_published s = int (length (hist_of disk L))" "s_cfg s = cfg"
    using M by (auto simp: eqM follows_def run_ok_def list_all_iff loggable_def simp del: length_hist)
qed

text \<open>What a rebuild from a snapshot computes: the records after it, folded without the keys.\<close>

lemma wf_hist_ok: "wf_of sp disk L \<Longrightarrow> list_all event_ok (hist_of disk L)"
  using from_core_ok by (fastforce simp: wf_of_def hist_of_def list_all_iff is_ok_iff)

lemma rebuild_tail:
  assumes "run_ok s" "wf_of sp disk M" "ab_first (disk (el_log M)) \<le> p" "p \<le> ab_next (disk (el_log M))"
    "snapshot_fit (snapshot_state ch s)" "ab_snap (disk (el_log M)) = Some (p, marshal_snapshot (snapshot_state ch s))"
    "rebuild sp M = Some (Inr (g, sn))" "tail = drop (nat (p - ab_first (disk (el_log M)))) (hist_of disk M)"
  shows "process_batch (new_processor (s_garden s) False) tail = (None, run_list consume (new_processor (s_garden s) False) tail)"
    "g = p_garden (run_list consume (new_processor (s_garden s) False) tail)"
    "sn = (snapshot_state ch s)\<lparr>sn_Tick := s_tick s + ticks_in tail, sn_Published := s_published s + int (length tail),
       sn_Processor := merge_stats (p_stats (s_proc s)) (p_stats (run_list consume (new_processor (s_garden s) False) tail))\<rparr>"
proof -
  let ?d = "new_processor (s_garden s) False"
  obtain off where lr: "log_restore sp M = Some (Inr (Some (marshal_snapshot (snapshot_state ch s)), off, tail))"
  proof -
    obtain res where res: "log_restore sp M = Some res"
      "\<And>st off out. res = Inr (st, off, out) \<Longrightarrow> st = Some (marshal_snapshot (snapshot_state ch s)) \<and> off = p \<and> out = tail"
      using log_restore_ok [OF assms(2)] assms(3,4,6,8) by fastforce
    then obtain st off out where r: "res = Inr (st, off, out)"
      using assms(7) by (auto simp: rebuild_def split: sum.splits)
    with res(2) [OF r] res(1) that show ?thesis by simp
  qed
  have rs: "restore (organisms (s_garden s)) = Inr (s_garden s)"
    using assms(1) by (simp add: restore_Inr_iff garden_wf_def run_ok_def)
  have "list_all event_ok tail" using wf_hist_ok [OF assms(2)] assms(8) by (auto simp: list_all_iff dest: in_set_dropD)
  then show pb: "process_batch ?d tail = (None, run_list consume ?d tail)"
    using process_batch_run [of ?d tail] by (metis prod.collapse)
  show "g = p_garden (run_list consume ?d tail)"
    "sn = (snapshot_state ch s)\<lparr>sn_Tick := s_tick s + ticks_in tail, sn_Published := s_published s + int (length tail),
       sn_Processor := merge_stats (p_stats (s_proc s)) (p_stats (run_list consume ?d tail))\<rparr>"
    using assms(7) lr unmarshal_marshal_snapshot [OF assms(5)] rs pb
    by (auto simp: rebuild_def rebuild_from_def snapshot_state_def)
qed

lemma rebuild_exact:
  assumes "keyed sp disk cfg b s L" "p_applied b = {}" "cur_of sp disk L = length (hist_of disk L)"
    "keyed sp disk cfg b t M" "grows sp disk s L t M ext" "snapshot_fit (snapshot_state ch s)"
    "ab_snap (disk (el_log M)) = Some (log_read sp L, marshal_snapshot (snapshot_state ch s))"
    "rebuild sp M = Some (Inr (g, sn))"
  shows "g = p_garden (run_list consume b (hist_of disk M))"
    "sn = (snapshot_state ch s)\<lparr>sn_Tick := s_tick t, sn_Published := s_published t,
            sn_Processor := p_stats (run_list consume b (hist_of disk M))\<rparr>"
proof -
  note s = keyed_seen [OF assms(1,2)] and t = keyed_seen [OF assms(4,2)]
  have M: "hist_of disk M = hist_of disk L @ ext" "ab_first (disk (el_log M)) = ab_first (disk (el_log L))"
    "list_all (new_key (c_RunID cfg) (pd_seq (s_prod s)) (applied_rev s)) ext"
    "if ext = [] then s_tick t = s_tick s else OccurredAt (hd ext) = s_tick s \<and> OccurredAt (last ext) = s_tick t - 1"
    using assms(5) s(9) by (auto simp: grows_def)
  have pos: "log_read sp L = ab_first (disk (el_log M)) + int (length (hist_of disk L))"
    using wf_cur [OF s(4)] assms(3) M(2) by (simp add: log_read_def)
  have lens: "length (hist_of disk M) = length (hist_of disk L) + length ext" using M(1) by (metis length_append)
  have next_M: "ab_next (disk (el_log M)) = ab_first (disk (el_log M)) + int (length (hist_of disk M))"
    by (simp add: ab_next_def)
  have tail: "ext = drop (nat (log_read sp L - ab_first (disk (el_log M)))) (hist_of disk M)" using pos M(1) by simp
  have range: "ab_first (disk (el_log M)) \<le> log_read sp L" "log_read sp L \<le> ab_next (disk (el_log M))"
    using pos lens next_M by simp_all
  have wf: "stats_ok (p_stats (s_proc s))" using s(3) by (simp add: run_ok_def)
  let ?d = "new_processor (s_garden s) False"
  note rt = rebuild_tail [OF s(3) t(4) range assms(6,7,8) tail]
  have g: "g = p_garden (run_list consume ?d ext)" and sn: "sn = (snapshot_state ch s)\<lparr>
      sn_Tick := s_tick s + ticks_in ext, sn_Published := s_published s + int (length ext),
      sn_Processor := merge_stats (p_stats (s_proc s)) (p_stats (run_list consume ?d ext))\<rparr>"
    using rt(2,3) by simp_all
  have "\<forall>e \<in> set ext. idempotency_key e \<notin> p_applied (s_proc s)"
  proof
    fix e assume "e \<in> set ext"
    then have new: "new_key (c_RunID cfg) (pd_seq (s_prod s)) (applied_rev s) e" using M(3) by (simp add: list_all_iff)
    have "idempotency_key f \<noteq> idempotency_key e" if "f \<in> set (hist_of disk L)" for f
      using that assms(1) keys_disjoint [OF _ new s(6)] by (auto simp: keyed_def list_all_iff)
    then show "idempotency_key e \<notin> p_applied (s_proc s)" using s(2) by (metis (no_types, lifting) imageE subsetD)
  qed
  from restart_consume [of ?d "s_proc s" "p_applied (s_proc s)" "p_stats (s_proc s)" ext] this wf
  have same: "p_garden (run_list consume ?d ext) = p_garden (run_list consume (s_proc s) ext)"
    "p_stats (run_list consume (s_proc s) ext) = merge_stats (p_stats (s_proc s)) (p_stats (run_list consume ?d ext))"
    by (auto simp: new_processor_def s_garden_def merge_zero stats_ok_def)
  have "projection (s_proc s) = projection (run_list consume b (hist_of disk L))"
    using s(1) assms(3) by (simp del: length_hist)
  from projection_run [OF this, of ext]
  have proj: "projection (run_list consume (s_proc s) ext) = projection (run_list consume b (hist_of disk M))"
    by (simp add: M(1) run_list_append)
  then show "g = p_garden (run_list consume b (hist_of disk M))" using g same(1) by (simp add: projection_def)
  have tk: "s_tick s + ticks_in ext = s_tick t" using M(4) by (auto simp: ticks_in_def split: if_splits)
  have pub: "s_published s + int (length ext) = s_published t" using s(8) t(8) lens by linarith
  show "sn = (snapshot_state ch s)\<lparr>sn_Tick := s_tick t, sn_Published := s_published t,
            sn_Processor := p_stats (run_list consume b (hist_of disk M))\<rparr>"
    using sn tk pub same(2) proj by (simp add: projection_def)
qed

end

lemma run_consume_length: "length (organisms (p_garden (run_list consume p es))) = length (organisms (p_garden p))"
proof (induction es arbitrary: p)
  case (Cons e es)
  have "length (organisms (p_garden (consume p e))) = length (organisms (p_garden p))"
    by (cases "event_ok e"; cases "idempotency_key e \<in> p_applied p")
       (simp_all add: process_invalid process_duplicate process_fresh apply_to_def apply_event_length)
  with Cons show ?case by simp
qed simp

context spine_laws
begin

text \<open>The simulation a restart resumes, next to the one that was interrupted.\<close>

lemma resume_exact:
  assumes "keyed sp disk cfg b s L" "p_applied b = {}" "cur_of sp disk L = length (hist_of disk L)"
    "keyed sp disk cfg b t M" "grows sp disk s L t M ext" "snapshot_fit (snapshot_state ch s)"
    "ab_snap (disk (el_log M)) = Some (log_read sp L, marshal_snapshot (snapshot_state ch s))"
    "resume_sim sp ch runID (Some M) m = Some (Inr (u, sn))" "cur_of sp disk M = length (hist_of disk M)"
    "int (length (organisms (p_garden b))) = c_Organisms cfg"
  shows "s_garden u = s_garden t" "p_stats (s_proc u) = p_stats (s_proc t)" "p_applied (s_proc u) = {}"
    "s_tick u = s_tick t" "s_published u = s_published t" "s_prod u = s_prod t" "s_state u = s_state s"
    "s_controls u = s_controls s" "s_revision u = s_revision s" "s_pending u = []"
    "s_cfg u = cfg\<lparr>c_Controls := s_controls s, c_SnapshotEvery := 0, c_Metrics := m\<rparr>"
    "\<exists>M'. s_log u = Some M' \<and> el_log M' = el_log M \<and> wf_of sp disk M' \<and> cur_of sp disk M' = length (hist_of disk M')"
proof -
  note t = keyed_seen [OF assms(4,2)] and s = keyed_seen [OF assms(1,2)]
  obtain g where rb: "rebuild sp M = Some (Inr (g, sn))"
    using assms(8) unfolding resume_sim_def
    by (auto split: option.splits sum.splits prod.splits if_splits simp: Let_def)
  note ex = rebuild_exact [OF assms(1-7) rb]
  have proj: "projection (s_proc t) = projection (run_list consume b (hist_of disk M))"
    using t(1) assms(9) by (simp del: length_hist)
  have sn: "sn_RunID sn = c_RunID cfg" "sn_Seed sn = c_Seed cfg" "sn_Tick sn = s_tick t"
    "sn_Published sn = s_published t" "sn_Processor sn = p_stats (s_proc t)" "sn_State sn = s_state s"
    "sn_Controls sn = s_controls s" "sn_Revision sn = s_revision s" "sn_MaxTicks sn = c_MaxTicks cfg"
    "sn_TickInterval sn = c_TickInterval cfg" "sn_DuplicateEvery sn = c_DuplicateEvery cfg"
    "sn_Organisms sn = organisms (s_garden s)"
    using ex(2) proj s(9) by (simp_all add: snapshot_state_def projection_def)
  have orgs: "int (length (sn_Organisms sn)) = c_Organisms cfg"
    using sn(12) s(1) assms(10) by (simp add: s_garden_def projection_def run_consume_length)
  have run: "c_RunID cfg \<noteq> ''''" "1 \<le> c_Organisms cfg" using s(3,9) by (auto simp: run_ok_def)
  obtain M' c newest where mf: "mark_folded sp M = (None, M')" "last_event sp M' = Inr newest"
    "log_committed sp M' = (None, c)"
    and u: "u = \<lparr>s_cfg = \<lparr>c_RunID = sn_RunID sn, c_Seed = sn_Seed sn,
                 c_Organisms = int (length (sn_Organisms sn)),
                 c_Controls = sn_Controls sn, c_DuplicateEvery = sn_DuplicateEvery sn,
                 c_SnapshotEvery = 0, c_MaxTicks = sn_MaxTicks sn,
                 c_TickInterval = sn_TickInterval sn, c_Metrics = m\<rparr>,
               s_prod = (let pr = \<lparr>pd_runID = c_RunID cfg, pd_seed = c_Seed cfg, pd_seq = 0, pd_organisms = c_Organisms cfg\<rparr>
                         in case newest of None \<Rightarrow> pr | Some e \<Rightarrow> resume_producer pr (Sequence e)),
               s_log = Some M',
               s_proc = restore_stats (new_processor g m) (sn_Processor sn),
               s_chain = ch_new ch, s_tick = sn_Tick sn, s_controls = sn_Controls sn,
               s_revision = sn_Revision sn, s_pending = [],
               s_published = sn_Published sn, s_committed = c, s_state = sn_State sn,
               s_saveInvocations = 0, s_snapshotSaveRetries = 0,
               s_snapshotSaveFailures = 0\<rparr>"
    using assms(8) rb run sn(1,2) orgs unfolding resume_sim_def
    by (simp add: Let_def new_producer_def split: option.splits sum.splits prod.splits)
  note mk = mark_folded_ok [OF t(4) mf(1)]
  have h: "hist_of disk M' = hist_of disk M" using mk by (simp add: hist_of_def)
  have sq: "pd_seq (s_prod t) = (if hist_of disk M = [] then 0 else Sequence (last (hist_of disk M)))"
    using assms(4) by (simp add: keyed_def)
  have "newest = (if hist_of disk M = [] then None else Some (last (hist_of disk M)))"
    using last_event_ok [OF _ mf(2)] mk h by simp
  then show "s_prod u = s_prod t"
    using sq t(3,9) by (cases "s_prod t") (auto simp: u resume_producer_def run_ok_def)
  show "\<exists>M'. s_log u = Some M' \<and> el_log M' = el_log M \<and> wf_of sp disk M' \<and> cur_of sp disk M' = length (hist_of disk M')"
    using mk by (simp add: u)
  show "s_garden u = s_garden t" using ex(1) proj by (simp add: u s_garden_def projection_def restore_stats_def new_processor_def)
  show "s_cfg u = cfg\<lparr>c_Controls := s_controls s, c_SnapshotEvery := 0, c_Metrics := m\<rparr>"
    using sn orgs by (cases cfg) (simp add: u)
  show "p_stats (s_proc u) = p_stats (s_proc t)" "p_applied (s_proc u) = {}"
    "s_tick u = s_tick t" "s_published u = s_published t" "s_state u = s_state s"
    "s_controls u = s_controls s" "s_revision u = s_revision s" "s_pending u = []"
    using sn by (simp_all add: u restore_stats_def new_processor_def)
qed

end

end
