(* ===== verification/Restart_Runs.thy ===== *)
theory Restart_Runs
  imports Restart
begin

text \<open>
  Restarting whole runs: on a log that does not fail \<^verbatim>\<open>Rebuild\<close> and \<^verbatim>\<open>Resume\<close> return, and when
  no record was pending what they return continues the interrupted run.
\<close>

context reliable_spine
begin

lemma log_restore_total:
  assumes "wf_of sp disk L"
    "\<And>p st. ab_snap (disk (el_log L)) = Some (p, st) \<Longrightarrow>
       ab_first (disk (el_log L)) \<le> p \<and> p \<le> ab_next (disk (el_log L))"
  obtains x where "log_restore sp L = Some (Inr x)"
proof -
  obtain err s r where re: "sp_restore sp (el_log L) = (err, s, r)"
    "err = None \<longleftrightarrow> ab_snap (disk (el_log L)) \<noteq> None" "err \<noteq> None \<longrightarrow> errors_is (the err) (Spine ErrNoSnapshot)"
    using restore_total by blast
  have "ab_first (disk (el_log L)) \<le> rd_offset sp r \<and> rd_offset sp r \<le> ab_next (disk (el_log L))"
  proof (cases err)
    case None
    with re(1) restore_ok assms(2) show ?thesis by force
  next
    case (Some e)
    with re(1,3) restore_none show ?thesis by force
  qed
  then obtain out r' where "read_loop sp ''restore'' 0 (el_log L) r [] = Some (None, out, r')"
    using read_loop_total [of "el_log L" r 0 "[]" "''restore''"] assms(1) by (auto simp: wf_of_def)
  with re that show ?thesis by (cases err) (auto simp: log_restore_def)
qed

lemma last_event_total:
  assumes "wf_of sp disk L"
  obtains x where "last_event sp L = Inr x"
proof (cases "ab_recs (disk (el_log L)) = []")
  case True
  then show ?thesis using that by (simp add: last_event_def ab_next_def)
next
  case False
  let ?p = "ab_next (disk (el_log L)) - 1"
  obtain rc where rc: "sp_read sp (el_log L) ?p = Inr rc"
    using read_total [of "el_log L" ?p] False by (auto simp: ab_next_def)
  have "nat (?p - ab_first (disk (el_log L))) < length (ab_recs (disk (el_log L)))"
    using False by (simp add: ab_next_def flip: length_greater_0_conv)
  with read_ok [OF rc] have "sr_Event rc \<in> set (ab_recs (disk (el_log L)))" by simp
  then have "is_ok (from_core (sr_Event rc))" using assms by (simp add: wf_of_def list_all_iff)
  then obtain e where "from_core (sr_Event rc) = Inr e" by (auto simp: is_ok_iff)
  moreover have "ab_next (disk (el_log L)) \<noteq> ab_first (disk (el_log L))" using False by (simp add: ab_next_def)
  ultimately show ?thesis using rc that by (simp add: last_event_def Let_def)
qed

lemma rebuild_tail_total:
  assumes "run_ok s" "wf_of sp disk M" "ab_first (disk (el_log M)) \<le> p" "p \<le> ab_next (disk (el_log M))"
    "snapshot_fit (snapshot_state ch s)" "ab_snap (disk (el_log M)) = Some (p, marshal_snapshot (snapshot_state ch s))"
  obtains g sn where "rebuild sp M = Some (Inr (g, sn))"
proof -
  have range: "ab_first (disk (el_log M)) \<le> q \<and> q \<le> ab_next (disk (el_log M))"
    if "ab_snap (disk (el_log M)) = Some (q, st)" for q st using that assms(3,4,6) by simp
  obtain st off tail where lr: "log_restore sp M = Some (Inr (st, off, tail))"
    by (rule log_restore_total [OF assms(2) range]) auto
  obtain res where "log_restore sp M = Some res" "\<forall>st off tail. res = Inr (st, off, tail) \<longrightarrow>
      st = Some (marshal_snapshot (snapshot_state ch s)) \<and> tail = drop (nat (p - ab_first (disk (el_log M)))) (hist_of disk M)"
    using log_restore_ok [OF assms(2), OF range, of "\<lambda>_ st. st"] assms(6) by auto
  with lr have st: "st = Some (marshal_snapshot (snapshot_state ch s))"
    "tail = drop (nat (p - ab_first (disk (el_log M)))) (hist_of disk M)" by auto
  have "list_all event_ok tail" using wf_hist_ok [OF assms(2)] by (auto simp: st(2) list_all_iff dest: in_set_dropD)
  then have "fst (process_batch q tail) = None" for q using process_batch_run by blast
  then have pb: "\<exists>r. process_batch q tail = (None, r)" for q by (metis prod.collapse)
  have rs: "restore (organisms (s_garden s)) = Inr (s_garden s)"
    using assms(1) by (simp add: restore_Inr_iff garden_wf_def run_ok_def)
  obtain q where "process_batch (new_processor (s_garden s) False) tail = (None, q)" using pb by blast
  with lr st(1) unmarshal_marshal_snapshot [OF assms(5)] rs that show ?thesis
    by (auto simp: rebuild_def rebuild_from_def snapshot_state_def)
qed

lemma rebuild_total:
  assumes "keyed sp disk cfg b s L" "p_applied b = {}" "cur_of sp disk L = length (hist_of disk L)"
    "keyed sp disk cfg b t M" "grows sp disk s L t M ext" "snapshot_fit (snapshot_state ch s)"
    "ab_snap (disk (el_log M)) = Some (log_read sp L, marshal_snapshot (snapshot_state ch s))"
  obtains g sn where "rebuild sp M = Some (Inr (g, sn))"
proof -
  note s = keyed_seen [OF assms(1,2)] and t = keyed_seen [OF assms(4,2)]
  have "ab_first (disk (el_log M)) \<le> log_read sp L \<and> log_read sp L \<le> ab_next (disk (el_log M))"
    using assms(5,7) wf_cur [OF s(4)] t(4,7) by (auto simp: log_read_def grows_def wf_of_def backed_def)
  then show ?thesis using rebuild_tail_total [OF s(3) t(4) _ _ assms(6,7)] that by blast
qed

lemma resume_total:
  assumes "keyed sp disk cfg b s L" "p_applied b = {}" "cur_of sp disk L = length (hist_of disk L)"
    "keyed sp disk cfg b t M" "grows sp disk s L t M ext" "snapshot_fit (snapshot_state ch s)"
    "ab_snap (disk (el_log M)) = Some (log_read sp L, marshal_snapshot (snapshot_state ch s))"
  obtains u sn where "resume_sim sp ch runID (Some M) m = Some (Inr (u, sn))"
proof -
  note s = keyed_seen [OF assms(1,2)] and t = keyed_seen [OF assms(4,2)]
  obtain g sn where rb: "rebuild sp M = Some (Inr (g, sn))" by (rule rebuild_total [OF assms])
  have sn: "sn_RunID sn = c_RunID cfg" "sn_Organisms sn = organisms (s_garden s)"
    using rebuild_exact(2) [OF assms rb] s(9) by (simp_all add: snapshot_state_def)
  have run: "c_RunID cfg \<noteq> ''''" "organisms (s_garden s) \<noteq> []"
    using s(3,9) by (auto simp: run_ok_def garden_wf_def garden_shape_def)
  then have orgs: "\<not> int (length (organisms (s_garden s))) < 1" by (cases "organisms (s_garden s)") auto
  obtain M' where mf: "mark_folded sp M = (None, M')"
    using seek_total [of "el_log M" "ab_next (disk (el_log M))" "el_reader M"]
    by (cases "rd_seek sp (el_log M) (ab_next (disk (el_log M))) (el_reader M)") (auto simp: mark_folded_def)
  note mk = mark_folded_ok [OF t(4) mf]
  obtain x where le: "last_event sp M' = Inr x" using mk by (auto intro: last_event_total)
  obtain err p where "gr_committed sp group_name (el_log M') = (err, p)"
    "err \<noteq> None \<longrightarrow> errors_is (the err) (Spine ErrNoGroup)" using committed_total by blast
  then obtain c where "log_committed sp M' = (None, c)"
    by (cases err) (auto simp: log_committed_def committed_of_def)
  with rb mf le sn run orgs that show ?thesis
    by (simp add: resume_sim_def new_producer_def Let_def)
qed

end

subsection \<open>Properties of restarting\<close>

lemma no_backlog:
  assumes "spine_laws sp disk" "s_log s = Some L" "wf_of sp disk L" "pending_of sp s = 0"
  shows "cur_of sp disk L = length (hist_of disk L)"
  using spine_laws.wf_cur [OF assms(1,3)] spine_laws.next_off [OF assms(1)] assms(2,4)
  by (auto simp: pending_of_def log_pending_def ab_next_def hist_of_def)

lemma restart_parts:
  assumes "spine_laws sp disk" "new_sim sp ch cfg (Some L0) = Inr s0" "config_fits cfg" "fresh_log sp disk L0"
    "sim_reach sp ch s0 s" "s_log s = Some L" "pending_of sp s = 0"
    "sim_reach sp ch s t" "s_log t = Some M" "pending_of sp t = 0"
  obtains b ext where "keyed sp disk cfg b s L" "p_applied b = {}" "cur_of sp disk L = length (hist_of disk L)"
    "keyed sp disk cfg b t M" "grows sp disk s L t M ext" "cur_of sp disk M = length (hist_of disk M)"
    "int (length (organisms (p_garden b))) = c_Organisms cfg"
proof -
  let ?b = "s_proc s0"
  have k0: "keyed sp disk cfg ?b s0 L0" by (rule spine_laws.start_keyed [OF assms(1-4)])
  have ks: "keyed sp disk cfg ?b s L"
    using spine_laws.reach_grows [OF assms(1,5) k0] assms(6) by (auto simp: keyed_def)
  obtain ext where kt: "keyed sp disk cfg ?b t M" "grows sp disk s L t M ext"
    using spine_laws.reach_grows [OF assms(1,8) ks] assms(9) by (auto simp: keyed_def)
  obtain g where g: "new_garden (c_Organisms cfg) = Inr g" "?b = new_processor g (c_Metrics cfg)"
    using new_sim_run_ok(6) [OF assms(2,3)] by blast
  then have b: "p_applied ?b = {}" "int (length (organisms (p_garden ?b))) = c_Organisms cfg"
    using new_garden_ok [OF g(1)] by (simp_all add: new_processor_def)
  have c: "cur_of sp disk L = length (hist_of disk L)" "cur_of sp disk M = length (hist_of disk M)"
    using no_backlog [OF assms(1,6) _ assms(7)] no_backlog [OF assms(1,9) _ assms(10)]
      spine_laws.keyed_seen(4) [OF assms(1) ks b(1)] spine_laws.keyed_seen(4) [OF assms(1) kt(1) b(1)] by blast+
  show ?thesis by (rule that [OF ks b(1) c(1) kt c(2) b(2)])
qed

text \<open>A tick that is not on the snapshot cadence leaves the snapshot on disk alone.\<close>

lemma step_keeps_snapshot:
  assumes "spine_laws sp disk" "run_ok s" "room s" "s_log s = Some L" "step_sim sp ch s = Some (None, s')"
    "c_SnapshotEvery (s_cfg s) = 0" "s_log s' = Some L'"
  shows "ab_snap (disk (el_log L')) = ab_snap (disk (el_log L))"
proof -
  obtain p1 ctl cs es p2 where prep:
    "stage_changes (s_tick s) (s_pending s) (s_prod s) (s_controls s) [] = (p1, ctl, cs)"
    "producer_tick p1 (s_tick s) ctl = Some (Inr es, p2)" by (rule step_prepare [OF assms(2,3)])
  obtain L1 todo L2 s1 where st: "log_append sp (tick_batch s cs es) L = (None, L1)"
    "unprocessed_up_to sp (capacity ctl) L1 = Some (None, todo, L2)"
    "fold_sim sp ch todo (staged s ctl p2 (tick_batch s cs es) L2) = (None, s1)" "end_tick sp ch s1 = Some (None, s')"
    using step_success [OF prep assms(4,5)] .
  obtain chain where "s1 = (staged s ctl p2 (tick_batch s cs es) L2)\<lparr>s_proc := run_list consume (s_proc s) todo, s_chain := chain\<rparr>"
    using fold_loop_None [OF st(3) [unfolded fold_sim_def]] by (auto simp: staged_def)
  then have "L' = L2" using st(4) assms(6,7) by (simp add: end_tick_def staged_def) (auto split: if_splits)
  with spine_laws.unprocessed_log [OF assms(1) st(2)] spine_laws.log_append_disk(2) [OF assms(1) st(1)]
  show ?thesis by simp
qed

text \<open>A run that saves at its start and then ticks once.\<close>

definition calm_config :: sim_config where
  "calm_config = demo_config\<lparr>c_SnapshotEvery := 0\<rparr>"

definition calm_sim :: mem_sim where
  "calm_sim = projr (new_sim mem_spine list_chain calm_config (Some mem_log))"

lemma calm_new: "new_sim mem_spine list_chain calm_config (Some mem_log) = Inr calm_sim" "config_fits calm_config"
proof -
  have "validate_config calm_config = None"
    using demo_config_ok(1) by (simp add: calm_config_def validate_config_def demo_config_def)
  then have "is_ok (new_sim mem_spine list_chain calm_config (Some mem_log))"
    by (simp add: new_sim_def new_garden_def new_producer_def log_committed_def committed_of_def mem_spine_def
        mem_log_def mem_empty_def demo_config_def calm_config_def)
  then show "new_sim mem_spine list_chain calm_config (Some mem_log) = Inr calm_sim"
    by (auto simp: calm_sim_def is_ok_iff)
  show "config_fits calm_config" using demo_config_ok(2) by (simp add: config_fits_def calm_config_def)
qed

lemmas calm_facts = new_sim_run_ok [OF calm_new]

lemma calm_run:
  obtains s1 t M where "save_sim mem_spine list_chain calm_sim = Some (None, s1)"
    "step_sim mem_spine list_chain s1 = Some (None, t)" "sim_reach mem_spine list_chain calm_sim t" "s_log t = Some M"
    "ab_snap (el_log M) = Some (folded_of mem_spine calm_sim, marshal_snapshot (snapshot_state list_chain calm_sim))"
    "s_tick t = 1" "pending_of mem_spine t = 0" "s_controls t = s_controls calm_sim" "s_pending t = []"
proof -
  have log: "s_log calm_sim = Some mem_log" using calm_facts(9) by simp
  obtain s1 where s1: "save_sim mem_spine list_chain calm_sim = Some (None, s1)" by (rule mem.save_total [OF log])
  obtain L1 where L1: "s_log s1 = Some L1" "same_run calm_sim s1" "same_log mem_spine (\<lambda>l. l) mem_log L1"
    using mem.save_sim_frame [OF s1] log by (metis option.inject)
  have sn: "ab_snap (el_log L1) = Some (folded_of mem_spine calm_sim, marshal_snapshot (snapshot_state list_chain calm_sim))"
    using mem.save_sim_ok [OF s1] L1 log by (auto simp: folded_of_def log_read_def same_log_def)
  have run: "run_ok s1" using same_run_ok [OF L1(2) calm_facts(1)] .
  have room: "room s1"
    using L1(2) calm_facts(5,7,8) by (simp add: room_def same_run_def max_events_per_tick_def)
  have mv: "sim_reach mem_spine list_chain calm_sim s1"
    by (rule sim_reach.move [OF sim_reach.start sim_move.save [OF s1]])
  have inv1: "run_inv mem_spine (\<lambda>l. l) calm_config (s_proc calm_sim) s1"
    by (rule mem.reach_inv [OF mv mem.start_inv [OF calm_new mem_log_fresh]])
  then have fol: "follows mem_spine (\<lambda>l. l) (s_proc calm_sim) 0 s1 L1" using L1(1) by (auto simp: run_inv_def follows_def)
  obtain t where t: "step_sim mem_spine list_chain s1 = Some (None, t)"
    by (rule mem.inv_step_total [OF inv1 room mem_validates])
  from mem.step_ok [OF run room fol t] obtain M where M: "follows mem_spine (\<lambda>l. l) (s_proc calm_sim) 0 t M"
    "s_tick t = s_tick s1 + 1" "s_controls t = next_controls s1" "s_pending t = []"
    "cur_of mem_spine (\<lambda>l. l) M = (if capacity (next_controls s1) \<le> 0 then length (hist_of (\<lambda>l. l) M)
       else min (cur_of mem_spine (\<lambda>l. l) L1 + nat (capacity (next_controls s1))) (length (hist_of (\<lambda>l. l) M)))" by metis
  have Mlog: "s_log t = Some M" "wf_of mem_spine (\<lambda>l. l) M" using M(1) by (auto simp: follows_def)
  have cfg0: "c_SnapshotEvery (s_cfg s1) = 0"
    using L1(2) calm_facts(2) by (simp add: same_run_def calm_config_def)
  have nc: "next_controls s1 = default_controls" "s_controls calm_sim = default_controls"
    using L1(2) calm_facts(5,10) by (simp_all add: next_controls_def same_run_def calm_config_def demo_config_def)
  then have "cur_of mem_spine (\<lambda>l. l) M = length (hist_of (\<lambda>l. l) M)"
    using M(5) by (simp add: capacity_def default_controls_def)
  then have "pending_of mem_spine t = 0"
    using mem.wf_cur [OF Mlog(2)] Mlog(1) by (simp add: pending_of_def log_pending_def ab_next_def hist_of_def)
  moreover have "s_tick t = 1" using M(2) L1(2) calm_facts(3) by (simp add: same_run_def)
  moreover have "ab_snap (el_log M) = Some (folded_of mem_spine calm_sim, marshal_snapshot (snapshot_state list_chain calm_sim))"
    using step_keeps_snapshot [OF mem_laws(1) run room L1(1) t cfg0 Mlog(1)] sn by simp
  ultimately show ?thesis
    using that [OF s1 t sim_reach.move [OF mv sim_move.tick [OF room t]] Mlog(1)] M(3,4) nc by simp
qed

lemma calm_snapshot_fit: "snapshot_fit (snapshot_state list_chain calm_sim)"
proof -
  have "list_all organism_fit (organisms (s_garden calm_sim))"
    using calm_facts(1) garden_organisms_fit by (simp add: run_ok_def)
  moreover have "ascii (fmt_d 0)" by (simp add: fmt_d_def dec_nat.simps digit_def ascii_def byte_def)
  moreover have "p_stats (s_proc calm_sim) = zero_stats" using calm_facts(6) by (auto simp: new_processor_def)
  ultimately show ?thesis
    using calm_facts
    by (simp add: snapshot_fit_def snapshot_state_def demo_config_def calm_config_def list_chain_def
        snapshot_schema_version_def controls_fit_def default_controls_def stats_fit_def zero_stats_def
        count_keys_sorted_def in_int64_def ascii_utf8) (simp add: ascii_utf8 ascii_def byte_def)
qed

lemma calm_idle: "pending_of mem_spine calm_sim = 0" "s_log calm_sim = Some mem_log"
  using calm_facts(9)
  by (simp_all add: pending_of_def log_pending_def mem_log_def mem_spine_def mem_empty_def ab_next_def)

text \<open>
  C15. \<^verbatim>\<open>Rebuild\<close> recovers the run: when the newest snapshot on disk was taken by \<open>s\<close> with
  nothing pending, and the run went on to \<open>t\<close> (ticks, control changes, failed saves) and has
  nothing pending there, the snapshot and the records after it give the garden, the counters,
  the number of published events and the tick of \<open>t\<close>. The keys the processor forgets do not
  matter, because no key occurs on both sides of the snapshot.
\<close>

theorem rebuild_recovers_run:
  assumes "spine_laws sp disk" "new_sim sp ch cfg (Some L0) = Inr s0" "config_fits cfg" "fresh_log sp disk L0"
    "sim_reach sp ch s0 s" "s_log s = Some L" "pending_of sp s = 0" "snapshot_fit (snapshot_state ch s)"
    "sim_reach sp ch s t" "s_log t = Some M" "pending_of sp t = 0"
    "ab_snap (disk (el_log M)) = Some (folded_of sp s, marshal_snapshot (snapshot_state ch s))"
    "rebuild sp M = Some (Inr (g, sn))"
  shows "g = s_garden t \<and> sn_Processor sn = p_stats (s_proc t) \<and> sn_Published sn = s_published t \<and>
    sn_Tick sn = s_tick t \<and> sn_RunID sn = c_RunID cfg \<and> sn_Seed sn = c_Seed cfg"
proof -
  obtain b ext where p: "keyed sp disk cfg b s L" "p_applied b = {}" "cur_of sp disk L = length (hist_of disk L)"
    "keyed sp disk cfg b t M" "grows sp disk s L t M ext" "cur_of sp disk M = length (hist_of disk M)"
    by (rule restart_parts [OF assms(1-7,9-11)])
  have "ab_snap (disk (el_log M)) = Some (log_read sp L, marshal_snapshot (snapshot_state ch s))"
    using assms(6,12) by (simp add: folded_of_def)
  note ex = spine_laws.rebuild_exact [OF assms(1) p(1-5) assms(8) this assms(13)]
  have "projection (s_proc t) = projection (run_list consume b (hist_of disk M))"
    using spine_laws.keyed_seen(1) [OF assms(1) p(4,2)] p(6) by (simp add: hist_of_def)
  with ex spine_laws.keyed_seen(9) [OF assms(1) p(1,2)] show ?thesis
    by (simp add: projection_def s_garden_def snapshot_state_def)
qed

theorem rebuild_recovers_run_witness:
  "\<exists>(t :: mem_sim) M g sn. s_tick t = 1 \<and> s_log t = Some M \<and> rebuild mem_spine M = Some (Inr (g, sn)) \<and>
     g = s_garden t \<and> sn_Tick sn = 1"
proof -
  obtain s1 t M where t: "save_sim mem_spine list_chain calm_sim = Some (None, s1)"
    "step_sim mem_spine list_chain s1 = Some (None, t)" "sim_reach mem_spine list_chain calm_sim t" "s_log t = Some M"
    "ab_snap (el_log M) = Some (folded_of mem_spine calm_sim, marshal_snapshot (snapshot_state list_chain calm_sim))"
    "s_tick t = 1" "pending_of mem_spine t = 0" by (rule calm_run)
  obtain b ext where p: "keyed mem_spine (\<lambda>l. l) calm_config b calm_sim mem_log" "p_applied b = {}"
    "cur_of mem_spine (\<lambda>l. l) mem_log = length (hist_of (\<lambda>l. l) mem_log)"
    "keyed mem_spine (\<lambda>l. l) calm_config b t M" "grows mem_spine (\<lambda>l. l) calm_sim mem_log t M ext"
    by (rule restart_parts [OF mem_laws(1) calm_new mem_log_fresh sim_reach.start calm_idle(2,1) t(3,4,7)])
  have "ab_snap (el_log M) = Some (log_read mem_spine mem_log, marshal_snapshot (snapshot_state list_chain calm_sim))"
    using t(5) calm_idle(2) by (simp add: folded_of_def)
  then obtain g sn where r: "rebuild mem_spine M = Some (Inr (g, sn))"
    by (rule mem.rebuild_total [OF p calm_snapshot_fit])
  from rebuild_recovers_run [OF mem_laws(1) calm_new mem_log_fresh sim_reach.start calm_idle(2,1)
      calm_snapshot_fit t(3,4,7,5) r] r t(4,6)
  show ?thesis by auto
qed

text \<open>
  C16. \<^verbatim>\<open>Resume\<close> continues the run as itself: on a log that does not fail it returns a
  simulation with the garden, counters, tick and published count of the interrupted one, the
  same producer position, and its cursor at the tail; and while no control change was applied
  since the snapshot, the next tick appends exactly the events the interrupted run would have.
  What is lost is the cadence of snapshots: the resumed configuration has none.
\<close>

theorem resume_continues_run:
  assumes "reliable_spine sp disk" "new_sim sp ch cfg (Some L0) = Inr s0" "config_fits cfg" "fresh_log sp disk L0"
    "sim_reach sp ch s0 s" "s_log s = Some L" "pending_of sp s = 0" "snapshot_fit (snapshot_state ch s)"
    "sim_reach sp ch s t" "s_log t = Some M" "pending_of sp t = 0"
    "ab_snap (disk (el_log M)) = Some (folded_of sp s, marshal_snapshot (snapshot_state ch s))"
    "s_controls t = s_controls s" "s_pending t = []"
  shows "\<exists>u sn. resume_sim sp ch runID (Some M) m = Some (Inr (u, sn)) \<and> s_garden u = s_garden t \<and>
    p_stats (s_proc u) = p_stats (s_proc t) \<and> s_tick u = s_tick t \<and> s_published u = s_published t \<and>
    s_prod u = s_prod t \<and> pending_of sp u = 0 \<and> batch_of u = batch_of t \<and> c_SnapshotEvery (s_cfg u) = 0"
proof -
  have laws: "spine_laws sp disk" using assms(1) by (simp add: reliable_spine_def)
  obtain b ext where p: "keyed sp disk cfg b s L" "p_applied b = {}" "cur_of sp disk L = length (hist_of disk L)"
    "keyed sp disk cfg b t M" "grows sp disk s L t M ext" "cur_of sp disk M = length (hist_of disk M)"
    "int (length (organisms (p_garden b))) = c_Organisms cfg"
    by (rule restart_parts [OF laws assms(2-7,9-11)])
  have snap: "ab_snap (disk (el_log M)) = Some (log_read sp L, marshal_snapshot (snapshot_state ch s))"
    using assms(6,12) by (simp add: folded_of_def)
  obtain u sn where u: "resume_sim sp ch runID (Some M) m = Some (Inr (u, sn))"
    using reliable_spine.resume_total [OF assms(1) p(1-5) assms(8) snap] .
  note ex = spine_laws.resume_exact [OF laws p(1-5) assms(8) snap u p(6,7)]
  obtain M' where M': "s_log u = Some M'" "wf_of sp disk M'" "cur_of sp disk M' = length (hist_of disk M')"
    using ex(12) by blast
  then have "pending_of sp u = 0"
    using spine_laws.wf_cur [OF laws M'(2)] spine_laws.next_off [OF laws]
    by (simp add: pending_of_def log_pending_def ab_next_def hist_of_def)
  moreover have "s_cfg t = cfg" by (rule spine_laws.keyed_seen(9) [OF laws p(4,2)])
  then have "tick_batch u = tick_batch t" using ex(11) by (intro ext) (simp add: tick_batch_def)
  then have "batch_of u = batch_of t" using ex(4,6,8,10) assms(13,14)
    by (simp add: batch_of_def split: option.split sum.split)
  moreover have "c_SnapshotEvery (s_cfg u) = 0" using ex(11) by simp
  ultimately show ?thesis using u ex(1,2,4,5,6) by blast
qed

theorem resume_continues_run_witness:
  "\<exists>(t :: mem_sim) M u sn. s_tick t = 1 \<and> s_log t = Some M \<and>
     resume_sim mem_spine list_chain ''run-0001'' (Some M) False = Some (Inr (u, sn)) \<and>
     s_garden u = s_garden t \<and> batch_of u = batch_of t"
proof -
  obtain s1 t M where t: "save_sim mem_spine list_chain calm_sim = Some (None, s1)"
    "step_sim mem_spine list_chain s1 = Some (None, t)" "sim_reach mem_spine list_chain calm_sim t" "s_log t = Some M"
    "ab_snap (el_log M) = Some (folded_of mem_spine calm_sim, marshal_snapshot (snapshot_state list_chain calm_sim))"
    "s_tick t = 1" "pending_of mem_spine t = 0" "s_controls t = s_controls calm_sim" "s_pending t = []"
    by (rule calm_run)
  from resume_continues_run [OF mem_laws(2) calm_new mem_log_fresh sim_reach.start calm_idle(2,1)
      calm_snapshot_fit t(3,4,7,5,8,9)] t(4,6)
  show ?thesis by blast
qed

end
