(* ===== verification/Backlog.thy ===== *)
theory Backlog
  imports Restart_Runs
begin

text \<open>
  Restarting with a backlog: a snapshot taken while records were pending. \<^verbatim>\<open>Rebuild\<close> folds the pending
  records with a processor that knows none of the keys folded before the snapshot, so a redelivery
  whose first copy the snapshot already contains takes effect a second time. The last section is a
  run with a capacity of one event per tick where this happens.
\<close>

text \<open>A save with records pending: what is on disk after it, and what a rebuild reads from it.\<close>

lemma saved_backlog:
  assumes "spine_laws sp disk" "new_sim sp ch cfg (Some L0) = Inr s0" "config_fits cfg" "fresh_log sp disk L0"
    "sim_reach sp ch s0 s" "save_sim sp ch s = Some (None, s1)" "s_log s1 = Some M"
    "snapshot_fit (snapshot_state ch s)" "rebuild sp M = Some (Inr (g, sn))"
    "tail = drop (cur_of sp disk M) (hist_of disk M)"
  shows "run_ok s" "list_all event_ok tail" "int (length tail) = pending_of sp s"
    "process_batch (new_processor (s_garden s) False) tail = (None, run_list consume (new_processor (s_garden s) False) tail)"
    "g = p_garden (run_list consume (new_processor (s_garden s) False) tail)"
    "sn_Processor sn = merge_stats (p_stats (s_proc s)) (p_stats (run_list consume (new_processor (s_garden s) False) tail))"
proof -
  note laws = assms(1)
  have "run_inv sp disk cfg (s_proc s0) s"
    by (rule spine_laws.reach_inv [OF laws assms(5) spine_laws.start_inv [OF laws assms(2-4)]])
  then obtain L where L: "follows sp disk (s_proc s0) 0 s L" and run: "run_ok s" by (auto simp: run_inv_def)
  then have log: "s_log s = Some L" "wf_of sp disk L" by (auto simp: follows_def)
  have M: "same_log sp disk L M" "ab_snap (disk (el_log M)) = Some (rd_offset sp (el_reader M), marshal_snapshot (snapshot_state ch s))"
    using spine_laws.save_sim_frame [OF laws assms(6)] spine_laws.save_sim_ok [OF laws assms(6)] log(1) assms(7)
    by (metis option.inject)+
  have wf: "wf_of sp disk M" using same_log_views [OF M(1)] log(2) by simp
  note cur = spine_laws.wf_cur [OF laws wf]
  have p: "ab_first (disk (el_log M)) \<le> rd_offset sp (el_reader M)" "rd_offset sp (el_reader M) \<le> ab_next (disk (el_log M))"
    "cur_of sp disk M = nat (rd_offset sp (el_reader M) - ab_first (disk (el_log M)))"
    using cur by (simp_all add: ab_next_def)
  note rt = spine_laws.rebuild_tail [OF laws run wf p(1,2) assms(8) M(2) assms(9) assms(10) [unfolded p(3)]]
  show "run_ok s" by (rule run)
  show "list_all event_ok tail"
    using spine_laws.wf_hist_ok [OF laws wf] assms(10) by (auto simp: list_all_iff dest: in_set_dropD)
  show "int (length tail) = pending_of sp s"
    using cur assms(10) M(1) log(1) spine_laws.next_off [OF laws]
    by (simp add: pending_of_def log_pending_def same_log_def ab_next_def hist_of_def)
  show "process_batch (new_processor (s_garden s) False) tail = (None, run_list consume (new_processor (s_garden s) False) tail)"
    "g = p_garden (run_list consume (new_processor (s_garden s) False) tail)"
    "sn_Processor sn = merge_stats (p_stats (s_proc s)) (p_stats (run_list consume (new_processor (s_garden s) False) tail))"
    using rt by simp_all
qed

subsection \<open>A run that saves with a redelivery pending\<close>

text \<open>One organism, one rain event per tick, every event redelivered, one event folded per tick.\<close>

definition rain_controls :: controls where
  "rain_controls = default_controls\<lparr>EventsPerTick := 1, RainWeight := 1, GrowthWeight := 0, PestWeight := 0,
     WorkerCount := 1, BatchSize := 1\<rparr>"

definition rain_config :: sim_config where
  "rain_config = demo_config\<lparr>c_Organisms := 1, c_Controls := rain_controls, c_DuplicateEvery := 1, c_SnapshotEvery := 0\<rparr>"

text \<open>A chain that keeps nothing.\<close>

definition unit_chain :: "unit chain_ops" where
  "unit_chain = \<lparr>ch_new = (), ch_advance = (\<lambda>_ _ _. ()), ch_digest = (\<lambda>_. []), ch_steps = (\<lambda>_. 0),
     ch_absorbed = (\<lambda>_ _. True)\<rparr>"

type_synonym rain_run_state = "(contents, int, unit) sim"

definition rain_sim :: rain_run_state where
  "rain_sim = projr (new_sim mem_spine unit_chain rain_config (Some mem_log))"

lemma rain_controls_ok: "controls_ok rain_controls" "weights_fit rain_controls" "capacity rain_controls = 1"
  by (simp_all add: rain_controls_def default_controls_def controls_ok_def weights_fit_def capacity_def in_int64_def
      max_events_per_tick_def max_worker_count_def max_batch_size_def total_weight_def go_int_def)

lemma rain_new: "new_sim mem_spine unit_chain rain_config (Some mem_log) = Inr rain_sim" "config_fits rain_config"
proof -
  have "validate_controls rain_controls = None" using rain_controls_ok(1) by (simp add: validate_controls_None_iff)
  then have "validate_config rain_config = None"
    by (simp add: rain_config_def validate_config_def demo_config_def)
  then have "is_ok (new_sim mem_spine unit_chain rain_config (Some mem_log))"
    by (simp add: new_sim_def new_garden_def new_producer_def log_committed_def committed_of_def mem_spine_def
        mem_log_def mem_empty_def demo_config_def rain_config_def)
  then show "new_sim mem_spine unit_chain rain_config (Some mem_log) = Inr rain_sim"
    by (auto simp: rain_sim_def is_ok_iff)
  show "config_fits rain_config" using demo_config_ok(2) rain_controls_ok(2) by (simp add: config_fits_def rain_config_def)
qed

lemmas rain_facts = new_sim_run_ok [OF rain_new]

definition rain_garden :: garden where
  "rain_garden = projr (new_garden 1)"

lemma rain_garden_facts:
  "new_garden 1 = Inr rain_garden" "garden_wf rain_garden" "length (organisms rain_garden) = 1"
  "Moisture (organisms rain_garden ! 0) = 0" "alive (organisms rain_garden ! 0)"
proof -
  show n: "new_garden 1 = Inr rain_garden" by (simp add: rain_garden_def new_garden_def)
  show "garden_wf rain_garden" "length (organisms rain_garden) = 1" using new_garden_ok [OF n] by simp_all
  show "Moisture (organisms rain_garden ! 0) = 0" "alive (organisms rain_garden ! 0)"
    by (simp_all add: rain_garden_def new_garden_def alive_def rule_constants)
qed

text \<open>The one event the tick draws.\<close>

lemma rain_batch:
  obtains e where "batch_of rain_sim = [e, e\<lparr>Attempt := 2\<rparr>]" "event_ok e" "is_organism_event e"
    "Type e = type_rain" "EntityID e = organism_id 0" "5 \<le> Amount (Payload e)" "Amount (Payload e) \<le> 25"
proof -
  let ?p = "s_prod rain_sim"
  have c: "s_controls rain_sim = rain_controls" "s_pending rain_sim = []" "s_tick rain_sim = 0"
    "c_DuplicateEvery (s_cfg rain_sim) = 1" using rain_facts(2,3,5,10) by (simp_all add: rain_config_def)
  have p: "pd_organisms ?p = 1" "pd_runID ?p \<noteq> ''''" "pd_seq ?p = 0"
    using rain_facts(1,2,7) by (auto simp: run_ok_def rain_config_def)
  obtain es where es: "producer_tick ?p 0 rain_controls = Some (Inr es, ?p\<lparr>pd_seq := pd_seq ?p + EventsPerTick rain_controls\<rparr>)"
    "int (length es) = EventsPerTick rain_controls"
    "\<And>i. i < length es \<Longrightarrow> produced (pd_runID ?p) (pd_organisms ?p) 0 rain_controls (pd_seq ?p + 1 + int i) (es ! i)"
    using producer_tick_total [OF rain_controls_ok(1,2), of ?p 0] p(1) by auto
  have "length es = 1" using es(2) by (simp add: rain_controls_def)
  then obtain e where e: "es = [e]" by (auto simp: length_Suc_conv)
  have pr: "produced (pd_runID ?p) 1 0 rain_controls (0 + 1) e" using es(3) [of 0] p(1,3) by (simp add: e)
  have "Attempt e = 1" using pr by (simp add: produced_def)
  then have b: "batch_of rain_sim = [e, e\<lparr>Attempt := 2\<rparr>]"
    using es(1) c by (simp add: batch_of_def tick_batch_def e)
  have "Type e = type_rain" using pr by (auto simp: produced_def type_weight_def rain_controls_def type_defs)
  moreover obtain k where k: "0 \<le> k" "k < 1" "EntityID e = organism_id k" using pr unfolding produced_def by blast
  then have "k = 0" by simp
  with k have "EntityID e = organism_id 0" by simp
  moreover have "amount_range (Type e) (Amount (Payload e))" using pr by (simp add: produced_def)
  ultimately show ?thesis
    using that [OF b] produced_event_ok(1,2) [OF pr p(2)] by (simp add: amount_range_def rain_min_def rain_max_def)
qed

lemma rain_applied:
  assumes "garden_wf g" "length (organisms g) = 1" "alive (organisms g ! 0)" "Moisture (organisms g ! 0) + a \<le> 100"
    "is_organism_event e" "Type e = type_rain" "EntityID e = organism_id 0" "Amount (Payload e) = a" "0 < a"
  shows "apply_to g e = g\<lparr>organisms := (organisms g)[0 := (organisms g ! 0)\<lparr>Moisture := Moisture (organisms g ! 0) + a\<rparr>]\<rparr>"
proof -
  have i: "index g (organism_id 0) = Some 0"
    using garden_shape_lookup [of g "organism_id 0" 0] assms(1,2) by (simp add: garden_wf_def)
  have o: "0 \<le> Moisture (organisms g ! 0)"
    using assms(1,2) by (auto simp: garden_wf_def list_all_length organism_ok_def)
  have w: "go_int (Moisture (organisms g ! 0) + a) = Moisture (organisms g ! 0) + a"
    using assms(4,9) o by (simp add: in_int64_def)
  show ?thesis
    using assms(3-) i o w
    by (simp add: apply_to_def apply_event_def apply_rule_def apply_rain_def clamp_def max_moisture_def Let_def)
qed

text \<open>The run after its first tick: the event is folded, its redelivery is pending.\<close>

lemma rain_run:
  obtains t M e where "sim_reach mem_spine unit_chain rain_sim t" "s_log t = Some M" "s_tick t = 1" "run_ok t"
    "drop (cur_of mem_spine (\<lambda>l. l) M) (hist_of (\<lambda>l. l) M) = [e\<lparr>Attempt := 2\<rparr>]" "wf_of mem_spine (\<lambda>l. l) M"
    "projection (s_proc t) = projection (consume (new_processor rain_garden False) e)"
    "s_cfg t = rain_config" "s_controls t = rain_controls" "s_revision t = 0" "s_published t = 2" "s_state t = ''running''"
    "event_ok e" "is_organism_event e" "Type e = type_rain" "EntityID e = organism_id 0"
    "5 \<le> Amount (Payload e)" "Amount (Payload e) \<le> 25"
proof -
  obtain e where e: "batch_of rain_sim = [e, e\<lparr>Attempt := 2\<rparr>]" "event_ok e" "is_organism_event e"
    "Type e = type_rain" "EntityID e = organism_id 0" "5 \<le> Amount (Payload e)" "Amount (Payload e) \<le> 25"
    by (rule rain_batch)
  have inv: "run_inv mem_spine (\<lambda>l. l) rain_config (s_proc rain_sim) rain_sim"
    by (rule mem.start_inv [OF rain_new mem_log_fresh])
  have log: "s_log rain_sim = Some mem_log" using rain_facts(9) by simp
  have fol: "follows mem_spine (\<lambda>l. l) (s_proc rain_sim) 0 rain_sim mem_log"
    using inv log by (auto simp: run_inv_def follows_def)
  have room: "room rain_sim" using rain_facts(5,7,8) by (simp add: room_def max_events_per_tick_def)
  obtain t where t: "step_sim mem_spine unit_chain rain_sim = Some (None, t)"
    by (rule mem.inv_step_total [OF inv room mem_validates])
  have nc: "next_controls rain_sim = rain_controls" using rain_facts(5,10) by (simp add: next_controls_def rain_config_def)
  have empty: "hist_of (\<lambda>l. l) mem_log = []" "cur_of mem_spine (\<lambda>l. l) mem_log = 0"
    using mem_log_fresh by (auto simp: fresh_log_def hist_of_def cur_of_def wf_of_def ab_next_def)
  from mem.step_ok [OF rain_facts(1) room fol t] obtain M where M: "follows mem_spine (\<lambda>l. l) (s_proc rain_sim) 0 t M"
    "run_ok t" "hist_of (\<lambda>l. l) M = hist_of (\<lambda>l. l) mem_log @ batch_of rain_sim" "s_tick t = s_tick rain_sim + 1"
    "cur_of mem_spine (\<lambda>l. l) M = (if capacity (next_controls rain_sim) \<le> 0 then length (hist_of (\<lambda>l. l) M)
       else min (cur_of mem_spine (\<lambda>l. l) mem_log + nat (capacity (next_controls rain_sim))) (length (hist_of (\<lambda>l. l) M)))"
    "s_cfg t = s_cfg rain_sim" "s_controls t = next_controls rain_sim" "s_revision t = s_revision rain_sim"
    "s_published t = s_published rain_sim + int (length (batch_of rain_sim))"
    by metis
  have h: "hist_of (\<lambda>l. l) M = [e, e\<lparr>Attempt := 2\<rparr>]" using M(3) e(1) empty by simp
  have c: "cur_of mem_spine (\<lambda>l. l) M = 1"
    using M(5) unfolding nc h rain_controls_ok(3) empty(2) by simp
  have tail: "drop (cur_of mem_spine (\<lambda>l. l) M) (hist_of (\<lambda>l. l) M) = [e\<lparr>Attempt := 2\<rparr>]" unfolding c h by simp
  obtain g where "new_garden (c_Organisms rain_config) = Inr g" "s_proc rain_sim = new_processor g (c_Metrics rain_config)"
    using rain_facts(6) by blast
  then have "s_proc rain_sim = new_processor rain_garden False"
    using rain_garden_facts(1) by (simp add: rain_config_def demo_config_def)
  then have pr: "projection (s_proc t) = projection (consume (new_processor rain_garden False) e)"
    using M(1) by (simp add: follows_def h c)
  let ?t = "set_state ''running'' t"
  have r: "sim_reach mem_spine unit_chain rain_sim ?t"
    by (rule sim_reach.move [OF sim_reach.move [OF sim_reach.start sim_move.tick [OF room t]] sim_move.lifecycle])
  have st: "s_log ?t = Some M" "s_tick ?t = 1" "run_ok ?t" "wf_of mem_spine (\<lambda>l. l) M"
    "projection (s_proc ?t) = projection (consume (new_processor rain_garden False) e)"
    "s_cfg ?t = rain_config" "s_controls ?t = rain_controls" "s_revision ?t = 0" "s_published ?t = 2" "s_state ?t = ''running''"
    using M pr nc e(1) rain_facts(2-4,8) by (simp_all add: set_state_def follows_def run_ok_def s_garden_def)
  show ?thesis by (rule that [OF r st(1-3) tail st(4-10) e(2-7)])
qed

subsection \<open>The redelivery is applied twice\<close>

lemma rain_fit:
  fixes t :: rain_run_state
  assumes "run_ok t" "s_cfg t = rain_config" "s_controls t = rain_controls" "s_revision t = 0" "s_published t = 2"
    "s_tick t = 1" "s_state t = ''running''" "event_ok e" "Type e = type_rain"
    "projection (s_proc t) = projection (consume (new_processor rain_garden False) e)"
  shows "snapshot_fit (snapshot_state unit_chain t)"
proof -
  have "list_all organism_fit (organisms (s_garden t))" using assms(1) garden_organisms_fit by (simp add: run_ok_def)
  moreover have "stats_fit (p_stats (s_proc t))"
  proof -
    have "p_stats (s_proc t) = p_stats (consume (new_processor rain_garden False) e)" using assms(10) by (simp add: projection_def)
    moreover have "utf8_ok type_rain" by (simp add: type_defs ascii_utf8 ascii_def byte_def)
    ultimately show ?thesis
      using assms(9) process_fresh(3) [OF assms(8), of "new_processor rain_garden False"]
      by (simp add: new_processor_def zero_stats_def stats_fit_def count_keys_sorted_def in_int64_def Let_def split: outcome.split)
  qed
  ultimately show ?thesis
    using assms(2-7)
    by (simp add: snapshot_fit_def snapshot_state_def demo_config_def rain_config_def unit_chain_def
        snapshot_schema_version_def controls_fit_def rain_controls_def default_controls_def in_int64_def ascii_utf8)
       (simp add: ascii_utf8 ascii_def byte_def)
qed

text \<open>
  C17. \<^verbatim>\<open>Rebuild\<close> forgets which keys were folded. When a run saved with records pending and the first
  pending record \<open>e\<close> is a redelivery of one already folded, the run itself drops \<open>e\<close> as a duplicate,
  and \<^verbatim>\<open>Rebuild\<close> applies it to the garden of the snapshot again: the garden it returns is what a
  processor with no keys makes of all the pending records, beginning with the effect of \<open>e\<close>, and
  none of the duplicates of the run before the save are added to. The witness is a run with a
  capacity of one event per tick whose rebuilt organism has twice the moisture of the live one.
\<close>

theorem straddling_redelivery_applied_twice:
  assumes "spine_laws sp disk" "new_sim sp ch cfg (Some L0) = Inr s0" "config_fits cfg" "fresh_log sp disk L0"
    "sim_reach sp ch s0 s" "save_sim sp ch s = Some (None, s1)" "s_log s1 = Some M"
    "snapshot_fit (snapshot_state ch s)" "rebuild sp M = Some (Inr (g, sn))"
    "drop (cur_of sp disk M) (hist_of disk M) = e # rest" "idempotency_key e \<in> p_applied (s_proc s)"
  shows "pending_of sp s = 1 + int (length rest) \<and>
    p_garden (snd (process (s_proc s) e)) = s_garden s \<and> res_Duplicate (fst (process (s_proc s) e)) \<and>
    \<not> res_Duplicate (fst (process (new_processor (s_garden s) False) e)) \<and>
    p_garden (snd (process (new_processor (s_garden s) False) e)) = snd (apply_event (s_garden s) e) \<and>
    (\<exists>p. process_batch (snd (process (new_processor (s_garden s) False) e)) rest = (None, p) \<and> g = p_garden p \<and>
       sn_Processor sn = merge_stats (p_stats (s_proc s)) (p_stats p))"
proof -
  let ?d = "new_processor (s_garden s) False"
  note sb = saved_backlog [OF assms(1-9) refl, unfolded assms(10)]
  have e: "event_ok e" and rest: "list_all event_ok rest" using sb(2) by simp_all
  have fresh: "idempotency_key e \<notin> p_applied ?d" by (simp add: new_processor_def)
  have "process_batch (consume ?d e) rest = (None, run_list consume (consume ?d e) rest)"
    using process_batch_run [of "consume ?d e" rest] rest by (metis prod.collapse)
  then have "\<exists>p. process_batch (consume ?d e) rest = (None, p) \<and> g = p_garden p \<and>
      sn_Processor sn = merge_stats (p_stats (s_proc s)) (p_stats p)"
    using sb(5,6) by simp
  then show ?thesis
    using sb(3) process_duplicate [OF e assms(11)] process_fresh [OF e fresh]
    by (simp add: consume_def s_garden_def new_processor_def apply_to_def)
qed

theorem straddling_redelivery_applied_twice_witness:
  "\<exists>(t :: rain_run_state) s1 M g sn a. sim_reach mem_spine unit_chain rain_sim t \<and> s_tick t = 1 \<and> pending_of mem_spine t = 1 \<and>
     save_sim mem_spine unit_chain t = Some (None, s1) \<and> s_log s1 = Some M \<and> rebuild mem_spine M = Some (Inr (g, sn)) \<and>
     0 < a \<and> Moisture (organisms (s_garden t) ! 0) = a \<and> Moisture (organisms g ! 0) = 2 * a"
proof -
  obtain t L e where t: "sim_reach mem_spine unit_chain rain_sim t" "s_log t = Some L" "s_tick t = 1" "run_ok t"
    "drop (cur_of mem_spine (\<lambda>l. l) L) (hist_of (\<lambda>l. l) L) = [e\<lparr>Attempt := 2\<rparr>]" "wf_of mem_spine (\<lambda>l. l) L"
    "projection (s_proc t) = projection (consume (new_processor rain_garden False) e)"
    "s_cfg t = rain_config" "s_controls t = rain_controls" "s_revision t = 0" "s_published t = 2" "s_state t = ''running''"
    and e: "event_ok e" "is_organism_event e" "Type e = type_rain" "EntityID e = organism_id 0"
    "5 \<le> Amount (Payload e)" "Amount (Payload e) \<le> 25" by (rule rain_run)
  let ?a = "Amount (Payload e)" and ?e = "e\<lparr>Attempt := 2\<rparr>"
  have key: "idempotency_key ?e = idempotency_key e" by (simp add: idempotency_key_def is_organism_event_def)
  note once = process_fresh [OF e(1), of "new_processor rain_garden False"]
  have t_proc: "s_garden t = apply_to rain_garden e" "p_applied (s_proc t) = {idempotency_key e}"
    using t(7) once(1,2) by (simp_all add: projection_def s_garden_def new_processor_def)
  have wet: "s_garden t = rain_garden\<lparr>organisms := (organisms rain_garden)[0 := (organisms rain_garden ! 0)\<lparr>Moisture := ?a\<rparr>]\<rparr>"
    using rain_applied [OF rain_garden_facts(2,3,5) _ e(2,3,4) refl] e(5,6) rain_garden_facts(4) by (simp add: t_proc(1))
  have g1: "garden_wf (s_garden t)" "length (organisms (s_garden t)) = 1" "alive (organisms (s_garden t) ! 0)"
    "Moisture (organisms (s_garden t) ! 0) = ?a"
    using t(4) rain_garden_facts(3,5) by (simp_all add: wet run_ok_def alive_def)
  have e2: "is_organism_event ?e" "Type ?e = type_rain" "EntityID ?e = organism_id 0" "Amount (Payload ?e) = ?a"
    using e(2-4) by (simp_all add: is_organism_event_def)
  have twice: "Moisture (organisms (snd (apply_event (s_garden t) ?e)) ! 0) = 2 * ?a"
    using rain_applied [OF g1(1-3) _ e2] g1(2,4) e(5,6) by (simp add: apply_to_def)
  have fit: "snapshot_fit (snapshot_state unit_chain t)" by (rule rain_fit [OF t(4,8-11,3,12) e(1,3) t(7)])
  obtain s1 where s1: "save_sim mem_spine unit_chain t = Some (None, s1)" by (rule mem.save_total [OF t(2)])
  obtain M where M: "s_log s1 = Some M" "same_log mem_spine (\<lambda>l. l) L M"
    "ab_snap (el_log M) = Some (rd_offset mem_spine (el_reader M), marshal_snapshot (snapshot_state unit_chain t))"
    using mem.save_sim_frame [OF s1] mem.save_sim_ok [OF s1] t(2) by (metis option.inject)
  have tail: "drop (cur_of mem_spine (\<lambda>l. l) M) (hist_of (\<lambda>l. l) M) = ?e # []" and wf: "wf_of mem_spine (\<lambda>l. l) M"
    using t(5,6) same_log_views [OF M(2)] by simp_all
  obtain g sn where rb: "rebuild mem_spine M = Some (Inr (g, sn))"
    by (rule mem.rebuild_tail_total [OF t(4) wf _ _ fit M(3)]) (use mem.wf_cur [OF wf] in \<open>simp_all add: ab_next_def\<close>)
  have "idempotency_key ?e \<in> p_applied (s_proc t)" by (simp add: t_proc(2) key)
  from straddling_redelivery_applied_twice [OF mem_laws(1) rain_new mem_log_fresh t(1) s1 M(1) fit rb tail this]
  have "pending_of mem_spine t = 1" "g = snd (apply_event (s_garden t) ?e)" by (auto simp: process_batch_def)
  then show ?thesis
    using t(1,3) s1 M(1) rb g1(4) twice e(5)
    by (intro exI [of _ t] exI [of _ s1] exI [of _ M] exI [of _ g] exI [of _ sn] exI [of _ ?a]) simp
qed

end
