(* ===== verification/Run.thy ===== *)
theory Run
  imports Sim_Runs "HOL-Library.Multiset"
begin

text \<open>
  \<^verbatim>\<open>internal/run/run.go\<close>: the batch path. Every tick and every control change is known up front,
  so a run is a function of its configuration. \<^verbatim>\<open>ControlChanges\<close> is a Go map; it is the
  association list of its entries in whatever order the map is ranged over.
\<close>

record run_config =
  rc_RunID :: string
  rc_Seed :: int
  rc_Ticks :: int
  rc_Organisms :: int
  rc_Controls :: controls
  rc_ControlChanges :: "(int \<times> controls) list"
  rc_DuplicateEvery :: int

definition sorted_ticks :: "(int \<times> controls) list \<Rightarrow> int list" where
  "sorted_ticks changes = sort (map fst changes)"

fun validate_changes :: "int \<Rightarrow> (int \<times> controls) list \<Rightarrow> int list \<Rightarrow> go_error option" where
  "validate_changes ticks changes [] = None"
| "validate_changes ticks changes (tick # rest) =
     (if tick < 0 \<or> tick \<ge> ticks then
        Some (Errorf [T ''control change at tick '', D tick, T '' is outside the run''])
      else case validate_controls (case map_of changes tick of None \<Rightarrow> zero_controls | Some c \<Rightarrow> c) of
        Some err \<Rightarrow> Some (Errorf [T ''control change at tick '', D tick, T '': '', W err])
      | None \<Rightarrow> validate_changes ticks changes rest)"

definition validate_run :: "run_config \<Rightarrow> go_error option" where
  "validate_run c =
     (if rc_RunID c = '''' then Some (Errorf [T ''run id is required''])
      else if rc_Ticks c < 1 then Some (Errorf [T ''ticks must be at least 1, got '', D (rc_Ticks c)])
      else if rc_Organisms c < 1 then
        Some (Errorf [T ''organisms must be at least 1, got '', D (rc_Organisms c)])
      else if rc_DuplicateEvery c < 0 then
        Some (Errorf [T ''duplicate_every must not be negative, got '', D (rc_DuplicateEvery c)])
      else case validate_controls (rc_Controls c) of
        Some err \<Rightarrow> Some (Errorf [T ''initial controls: '', W err])
      | None \<Rightarrow> validate_changes (rc_Ticks c) (rc_ControlChanges c) (sorted_ticks (rc_ControlChanges c)))"

record run_result =
  rr_Config :: run_config
  rr_Garden :: garden_stats
  rr_Organisms :: "organism list"
  rr_Snapshot :: string
  rr_Processor :: proc_stats
  rr_Published :: int
  rr_Revisions :: int
  rr_FinalCtrls :: controls
  rr_Chain :: string
  rr_ChainSteps :: int
  rr_Absorbed :: bool

definition absorbed_window :: int where "absorbed_window = 200"

definition sim_config_of :: "run_config \<Rightarrow> sim_config" where
  "sim_config_of c =
     \<lparr>c_RunID = rc_RunID c, c_Seed = rc_Seed c, c_Organisms = rc_Organisms c, c_Controls = rc_Controls c,
      c_DuplicateEvery = rc_DuplicateEvery c, c_SnapshotEvery = 0, c_MaxTicks = 0, c_TickInterval = 0,
      c_Metrics = False\<rparr>"

text \<open>The loop over the ticks, with \<open>n\<close> ticks left.\<close>

fun execute_loop ::
  "('fs, 'l, 'r) spine \<Rightarrow> 'c chain_ops \<Rightarrow> (int \<times> controls) list \<Rightarrow> nat \<Rightarrow> int \<Rightarrow> ('l, 'r, 'c) sim \<Rightarrow>
   (go_error + ('l, 'r, 'c) sim) option" where
  "execute_loop sp ch changes 0 tick s = Some (Inr s)"
| "execute_loop sp ch changes (Suc n) tick s =
     (case (case map_of changes tick of
              None \<Rightarrow> (None, s)
            | Some nxt \<Rightarrow>
                (case set_controls nxt s of
                   (Inl err, s) \<Rightarrow> (Some (Errorf [T ''control change at tick '', D tick, T '': '', W err]), s)
                 | (Inr _, s) \<Rightarrow> (None, s))) of
        (Some err, _) \<Rightarrow> Some (Inl err)
      | (None, s) \<Rightarrow>
          (case step_sim sp ch s of
             None \<Rightarrow> None
           | Some (Some err, _) \<Rightarrow> Some (Inl err)
           | Some (None, s) \<Rightarrow> execute_loop sp ch changes n (tick + 1) s))"

definition scorecard :: "'c chain_ops \<Rightarrow> run_config \<Rightarrow> ('l, 'r, 'c) sim \<Rightarrow> run_result" where
  "scorecard ch cfg s =
     \<lparr>rr_Config = cfg, rr_Garden = stats (s_garden s), rr_Organisms = organisms (s_garden s),
      rr_Snapshot = hash (s_garden s), rr_Processor = p_stats (s_proc s), rr_Published = s_published s,
      rr_Revisions = s_revision s, rr_FinalCtrls = s_controls s, rr_Chain = ch_digest ch (s_chain s),
      rr_ChainSteps = ch_steps ch (s_chain s), rr_Absorbed = ch_absorbed ch absorbed_window (s_chain s)\<rparr>"

definition execute ::
  "('fs, 'l, 'r) spine \<Rightarrow> 'c chain_ops \<Rightarrow> run_config \<Rightarrow> (go_error + run_result) option" where
  "execute sp ch cfg =
     (case validate_run cfg of
        Some err \<Rightarrow> Some (Inl (Errorf [T ''invalid run config: '', W err]))
      | None \<Rightarrow>
          (case new_sim sp ch (sim_config_of cfg) None of
             Inl err \<Rightarrow> Some (Inl err)
           | Inr s \<Rightarrow>
               map_option (map_sum id (scorecard ch cfg))
                 (execute_loop sp ch (rc_ControlChanges cfg) (nat (rc_Ticks cfg)) 0 s)))"

subsection \<open>The batch path is a run\<close>

definition run_fits :: "run_config \<Rightarrow> bool" where
  "run_fits c \<longleftrightarrow> utf8_ok (rc_RunID c) \<and> rc_Organisms c < 2 ^ 63 \<and> weights_fit (rc_Controls c) \<and>
     list_all (\<lambda>(t, d). weights_fit d) (rc_ControlChanges c) \<and> distinct (map fst (rc_ControlChanges c)) \<and>
     rc_Ticks c < 2 ^ 50"

text \<open>
  One tick of the schedule: the change due at the tick, if any, is accepted, then the simulation
  steps; \<open>scheduled\<close> is the controls the tick runs under, given those of the tick before.
\<close>

definition run_tick ::
  "('fs, 'l, 'r) spine \<Rightarrow> 'c chain_ops \<Rightarrow> (int \<times> controls) list \<Rightarrow> int \<Rightarrow> ('l, 'r, 'c) sim \<Rightarrow> ('l, 'r, 'c) sim \<Rightarrow> bool" where
  "run_tick sp ch changes tick s s' \<longleftrightarrow>
     (\<exists>u. (case map_of changes tick of None \<Rightarrow> u = s | Some c \<Rightarrow> set_controls c s = (Inr (s_revision s + 1), u)) \<and>
        step_sim sp ch u = Some (None, s'))"

definition scheduled :: "(int \<times> controls) list \<Rightarrow> int \<Rightarrow> controls \<Rightarrow> controls" where
  "scheduled changes tick c = (case map_of changes tick of None \<Rightarrow> c | Some d \<Rightarrow> d)"

definition changes_before :: "int \<Rightarrow> (int \<times> controls) list \<Rightarrow> int" where
  "changes_before tick changes = int (length (filter (\<lambda>(t, c). t < tick) changes))"

lemma changes_before_Suc:
  assumes "distinct (map fst changes)"
  shows "changes_before (tick + 1) changes = changes_before tick changes + (if map_of changes tick = None then 0 else 1)"
  using assms by (induction changes) (auto simp: changes_before_def map_of_eq_None_iff image_iff)

lemma validate_changes_None:
  "validate_changes ticks changes ts = None \<longleftrightarrow>
     (\<forall>t \<in> set ts. 0 \<le> t \<and> t < ticks \<and> controls_ok (case map_of changes t of None \<Rightarrow> zero_controls | Some c \<Rightarrow> c))"
  by (induction ts) (auto simp: validate_controls_None_iff[symmetric] split: option.splits)

lemma validate_run_None:
  assumes "validate_run c = None" "distinct (map fst (rc_ControlChanges c))"
  shows "validate_config (sim_config_of c) = None" "1 \<le> rc_Ticks c"
    "\<And>t d. (t, d) \<in> set (rc_ControlChanges c) \<Longrightarrow> 0 \<le> t \<and> t < rc_Ticks c \<and> controls_ok d"
proof -
  show "validate_config (sim_config_of c) = None" "1 \<le> rc_Ticks c"
    using assms(1) by (auto simp: validate_run_def validate_config_def sim_config_of_def split: if_splits option.splits)
  have v: "validate_changes (rc_Ticks c) (rc_ControlChanges c) (sorted_ticks (rc_ControlChanges c)) = None"
    using assms(1) by (auto simp: validate_run_def split: if_splits option.splits)
  fix t d assume td: "(t, d) \<in> set (rc_ControlChanges c)"
  then have "t \<in> set (sorted_ticks (rc_ControlChanges c))" by (force simp: sorted_ticks_def)
  moreover have "map_of (rc_ControlChanges c) t = Some d" using td assms(2) by simp
  ultimately show "0 \<le> t \<and> t < rc_Ticks c \<and> controls_ok d" using v by (auto simp: validate_changes_None)
qed

context spine_laws
begin

text \<open>The ephemeral log a simulation opens for itself is an empty one.\<close>

lemma open_ephemeral:
  assumes "open_log sp (sp_new_fs sp) = (Inr L, rc)"
  shows "fresh_log sp disk L"
proof -
  obtain l0 l where o: "sp_open sp (sp_new_fs sp) Sync = (None, l0, rc)" "gr_open sp group_name l0 = (None, l)"
    and r: "reposition sp l = Inr (el_reader L)" and L: "el_log L = l"
    using assms by (auto simp: open_log_def open_with_def split: prod.splits option.splits sum.splits)
  have "disk l = disk l0" by (rule group_open [OF o(2)])
  with open_new [OF o(1)] reposition_ok [OF r] show ?thesis
    by (auto simp: fresh_log_def wf_of_def L ab_resume_def ab_next_def)
qed

lemma new_sim_ephemeral:
  assumes "new_sim sp ch cfg None = Inr s"
  obtains L where "new_sim sp ch cfg (Some L) = Inr s" "fresh_log sp disk L"
proof -
  obtain L where L: "fst (open_log sp (sp_new_fs sp)) = Inr L"
    using assms by (auto simp: new_sim_def split: option.splits sum.splits)
  then have "fresh_log sp disk L" using open_ephemeral by (metis prod.collapse)
  moreover have "new_sim sp ch cfg (Some L) = Inr s" using assms L
    by (simp add: new_sim_def split: option.split_asm sum.split_asm)
  ultimately show ?thesis by (rule that [rotated])
qed

end

context reliable_spine
begin

lemma open_ephemeral_total: "\<exists>L. fst (open_log sp (sp_new_fs sp)) = Inr L"
proof -
  obtain l0 rc where o: "sp_open sp (sp_new_fs sp) Sync = (None, l0, rc)"
    using open_total [of Sync] by (metis prod.collapse)
  obtain l where l: "gr_open sp group_name l0 = (None, l)" using group_open_total by (metis prod.collapse)
  have d: "ab_recs (disk l) = [] \<and> ab_commit (disk l) = Map.empty"
    using open_new [OF o] group_open [OF l] by simp
  obtain err p where c: "gr_committed sp group_name l = (err, p)" "err \<noteq> None \<longrightarrow> errors_is (the err) (Spine ErrNoGroup)"
    using committed_total by blast
  have "err \<noteq> None" using committed_ok [of group_name l p] c(1) d by auto
  then have "committed_of sp l = (None, ab_first (disk l))"
    using c committed_none [of group_name l "the err" p] by (auto simp: committed_of_def)
  moreover obtain r where "gr_reader sp group_name l = Inr r"
    using group_reader_total [of l group_name] d by (auto simp: ab_resume_def)
  ultimately have "reposition sp l = Inr r" by (simp add: reposition_def)
  with o l show ?thesis by (simp add: open_log_def open_with_def)
qed

lemma new_sim_total:
  assumes "validate_config cfg = None"
  obtains s where "new_sim sp ch cfg None = Inr s"
proof -
  obtain L where L: "fst (open_log sp (sp_new_fs sp)) = Inr L" using open_ephemeral_total by blast
  obtain err p where "gr_committed sp group_name (el_log L) = (err, p)" "err \<noteq> None \<longrightarrow> errors_is (the err) (Spine ErrNoGroup)"
    using committed_total by blast
  then have "\<exists>c. log_committed sp L = (None, c)" by (cases err) (auto simp: log_committed_def committed_of_def)
  moreover have "1 \<le> c_Organisms cfg" "c_RunID cfg \<noteq> ''''" using validate_config_None [OF assms] by auto
  ultimately show ?thesis
    using that assms L by (auto simp: new_sim_def new_garden_def new_producer_def)
qed

lemma execute_loop_total:
  assumes "validate_run cfg = None" "run_fits cfg" "validates_loggable (sp_validate sp)"
    "run_inv sp disk (sim_config_of cfg) b s" "s_pending s = []" "s_tick s = tick" "0 \<le> tick"
    "tick + int n = rc_Ticks cfg" "s_revision s = changes_before tick (rc_ControlChanges cfg)" "s_revision s \<le> tick"
    "pd_seq (s_prod s) \<le> 1001 * tick"
  shows "\<exists>f. f 0 = s \<and> execute_loop sp ch (rc_ControlChanges cfg) n tick s = Some (Inr (f n)) \<and> sim_reach sp ch s (f n) \<and>
    s_tick (f n) = rc_Ticks cfg \<and> s_pending (f n) = [] \<and>
    s_revision (f n) = changes_before (rc_Ticks cfg) (rc_ControlChanges cfg) \<and>
    (\<forall>i < n. run_tick sp ch (rc_ControlChanges cfg) (tick + int i) (f i) (f (Suc i)) \<and>
       s_controls (f (Suc i)) = scheduled (rc_ControlChanges cfg) (tick + int i) (s_controls (f i)))"
  using assms(4-)
proof (induction n arbitrary: tick s)
  case 0
  then show ?case using sim_reach.start by (intro exI [of _ "\<lambda>_. s"]) auto
next
  case (Suc n)
  let ?cs = "rc_ControlChanges cfg"
  have fits: "distinct (map fst ?cs)" "list_all (\<lambda>(t, d). weights_fit d) ?cs" "rc_Ticks cfg < 2 ^ 50"
    using assms(2) by (auto simp: run_fits_def)
  obtain s1 where s1: "sim_reach sp ch s s1" "run_inv sp disk (sim_config_of cfg) b s1"
    "execute_loop sp ch ?cs (Suc n) tick s = (case step_sim sp ch s1 of None \<Rightarrow> None
       | Some (Some err, _) \<Rightarrow> Some (Inl err) | Some (None, s) \<Rightarrow> execute_loop sp ch ?cs n (tick + 1) s)"
    "s_tick s1 = tick" "s_revision s1 = changes_before (tick + 1) ?cs" "s_revision s1 \<le> tick + 1"
    "s_prod s1 = s_prod s" "length (s_pending s1) \<le> 1" "next_controls s1 = scheduled ?cs tick (s_controls s)"
    "\<And>s'. step_sim sp ch s1 = Some (None, s') \<Longrightarrow> run_tick sp ch ?cs tick s s'"
  proof (cases "map_of ?cs tick")
    case None
    then show ?thesis
      using Suc.prems sim_reach.start changes_before_Suc [OF fits(1), of tick]
      by (intro that [of s]) (auto simp: next_controls_def scheduled_def run_tick_def)
  next
    case (Some d)
    then have d: "controls_ok d" "weights_fit d"
      using validate_run_None(3) [OF assms(1) fits(1), of tick d] fits(2) by (auto simp: list_all_iff dest: map_of_SomeD)
    let ?s1 = "snd (set_controls d s)"
    have v: "validate_controls d = None" using d(1) by (simp add: validate_controls_None_iff)
    then have sc: "set_controls d s = (Inr (s_revision s + 1), ?s1)" by (simp add: set_controls_def Let_def)
    have mv: "sim_move sp ch s ?s1" by (rule sim_move.control [OF d(2) sc])
    show ?thesis
      using that [of ?s1, OF sim_reach.move [OF sim_reach.start mv] move_inv [OF mv Suc.prems(1)]]
        Suc.prems Some sc v changes_before_Suc [OF fits(1), of tick]
      by (simp add: set_controls_def Let_def next_controls_def scheduled_def run_tick_def)
  qed
  have run: "run_ok s1" using s1(2) by (simp add: run_inv_def)
  obtain L where fol: "follows sp disk b 0 s1 L" using s1(2) by (auto simp: run_inv_def)
  have room: "room s1"
    using s1(6,7,8) Suc.prems(3,4,5,8) fits(3) by (simp add: room_def max_events_per_tick_def)
  obtain s2 where s2: "step_sim sp ch s1 = Some (None, s2)" using inv_step_total [OF s1(2) room assms(3)] .
  have mv: "sim_move sp ch s1 s2" by (rule sim_move.tick [OF room s2])
  from step_ok [OF run room fol s2] have after: "s_tick s2 = s_tick s1 + 1" "s_pending s2 = []" "s_revision s2 = s_revision s1"
    "pd_seq (s_prod s2) = pd_seq (s_prod s1) + int (length (s_pending s1)) + EventsPerTick (next_controls s1)"
    "s_controls s2 = next_controls s1" "run_ok s2" by metis+
  have "EventsPerTick (next_controls s1) \<le> 1000"
    using after(5,6) by (auto simp: run_ok_def controls_ok_def max_events_per_tick_def)
  then have seq: "pd_seq (s_prod s2) \<le> 1001 * (tick + 1)" using after(4) s1(7,8) Suc.prems(8) by simp
  have "\<exists>f. f 0 = s2 \<and> execute_loop sp ch ?cs n (tick + 1) s2 = Some (Inr (f n)) \<and> sim_reach sp ch s2 (f n) \<and>
    s_tick (f n) = rc_Ticks cfg \<and> s_pending (f n) = [] \<and> s_revision (f n) = changes_before (rc_Ticks cfg) ?cs \<and>
    (\<forall>i < n. run_tick sp ch ?cs (tick + 1 + int i) (f i) (f (Suc i)) \<and>
       s_controls (f (Suc i)) = scheduled ?cs (tick + 1 + int i) (s_controls (f i)))"
    using Suc.IH [OF move_inv [OF mv s1(2)] after(2)] after s1(4-6) Suc.prems(4,5) seq by simp
  then obtain f where f: "f 0 = s2" "execute_loop sp ch ?cs n (tick + 1) s2 = Some (Inr (f n))" "sim_reach sp ch s2 (f n)"
    "s_tick (f n) = rc_Ticks cfg" "s_pending (f n) = []" "s_revision (f n) = changes_before (rc_Ticks cfg) ?cs"
    "\<forall>i < n. run_tick sp ch ?cs (tick + 1 + int i) (f i) (f (Suc i)) \<and>
       s_controls (f (Suc i)) = scheduled ?cs (tick + 1 + int i) (s_controls (f i))" by blast
  let ?f = "case_nat s f"
  have path: "run_tick sp ch ?cs (tick + int i) (?f i) (?f (Suc i)) \<and>
      s_controls (?f (Suc i)) = scheduled ?cs (tick + int i) (s_controls (?f i))" if "i < Suc n" for i
    using that f(1,7) s1(9,10) s2 after(5) by (cases i) (auto simp: algebra_simps)
  have "sim_reach sp ch s (f n)" by (rule reach_trans [OF sim_reach.move [OF s1(1) mv] f(3)])
  with s2 s1(3) f path show ?case by (intro exI [of _ ?f]) simp
qed

end

subsection \<open>Properties of batch runs\<close>

text \<open>
  C18. A valid batch run completes and its scorecard is that of the scheduled run: on a log that
  does not fail, there are states \<open>f 0, ..., f n\<close>, the first a simulation started on an empty log,
  each the one before it with the change scheduled for that very tick accepted as the next revision
  and one tick taken, running under those controls or, when none is due, under those of the tick
  before; \<^verbatim>\<open>Execute\<close> returns the scorecard of the last, with every configured change accepted and
  none left staged.
\<close>

theorem execute_scores_a_run:
  assumes "reliable_spine sp disk" "validates_loggable (sp_validate sp)" "validate_run cfg = None" "run_fits cfg"
  shows "\<exists>L0 f. new_sim sp ch (sim_config_of cfg) (Some L0) = Inr (f 0) \<and> fresh_log sp disk L0 \<and>
    (\<forall>i < nat (rc_Ticks cfg). run_tick sp ch (rc_ControlChanges cfg) (int i) (f i) (f (Suc i)) \<and>
       s_controls (f (Suc i)) = scheduled (rc_ControlChanges cfg) (int i) (s_controls (f i))) \<and>
    s_tick (f (nat (rc_Ticks cfg))) = rc_Ticks cfg \<and> s_pending (f (nat (rc_Ticks cfg))) = [] \<and>
    s_revision (f (nat (rc_Ticks cfg))) = int (length (rc_ControlChanges cfg)) \<and>
    execute sp ch cfg = Some (Inr (scorecard ch cfg (f (nat (rc_Ticks cfg)))))"
proof -
  have laws: "spine_laws sp disk" using assms(1) by (simp add: reliable_spine_def)
  have dist: "distinct (map fst (rc_ControlChanges cfg))" using assms(4) by (simp add: run_fits_def)
  note v = validate_run_None [OF assms(3) dist]
  have fits: "config_fits (sim_config_of cfg)" using assms(4) by (simp add: run_fits_def config_fits_def sim_config_of_def)
  obtain s0 where s0: "new_sim sp ch (sim_config_of cfg) None = Inr s0"
    using reliable_spine.new_sim_total [OF assms(1) v(1)] .
  obtain L0 where L0: "new_sim sp ch (sim_config_of cfg) (Some L0) = Inr s0" "fresh_log sp disk L0"
    using spine_laws.new_sim_ephemeral [OF laws s0] .
  note new = new_sim_run_ok [OF L0(1) fits]
  have none: "filter (\<lambda>(t, c). t < 0) (rc_ControlChanges cfg) = []"
    using v(3) by (fastforce simp: filter_empty_conv)
  have all: "filter (\<lambda>(t, c). t < rc_Ticks cfg) (rc_ControlChanges cfg) = rc_ControlChanges cfg"
    using v(3) by (auto simp: filter_id_conv)
  let ?n = "nat (rc_Ticks cfg)"
  obtain f where f: "f 0 = s0" "execute_loop sp ch (rc_ControlChanges cfg) ?n 0 s0 = Some (Inr (f ?n))"
    "s_tick (f ?n) = rc_Ticks cfg" "s_pending (f ?n) = []"
    "s_revision (f ?n) = changes_before (rc_Ticks cfg) (rc_ControlChanges cfg)"
    "\<forall>i < ?n. run_tick sp ch (rc_ControlChanges cfg) (0 + int i) (f i) (f (Suc i)) \<and>
       s_controls (f (Suc i)) = scheduled (rc_ControlChanges cfg) (0 + int i) (s_controls (f i))"
    using reliable_spine.execute_loop_total [OF assms(1,3,4,2) spine_laws.start_inv [OF laws L0(1) fits L0(2)],
        of 0 ?n ch] new(3,5,7,8) v(2) none by (auto simp: changes_before_def)
  then have "execute sp ch cfg = Some (Inr (scorecard ch cfg (f ?n)))" using assms(3) s0 by (simp add: execute_def)
  with L0 f all show ?thesis by (intro exI [of _ L0] exI [of _ f]) (simp add: changes_before_def)
qed

definition demo_run :: run_config where
  "demo_run = \<lparr>rc_RunID = ''run-0001'', rc_Seed = 7, rc_Ticks = 40, rc_Organisms = 3, rc_Controls = default_controls,
     rc_ControlChanges = [(20, default_controls\<lparr>PestWeight := 9\<rparr>), (5, default_controls\<lparr>EventsPerTick := 12\<rparr>)],
     rc_DuplicateEvery = 4\<rparr>"

lemma demo_run_ok: "validate_run demo_run = None" "run_fits demo_run"
proof -
  show "validate_run demo_run = None"
    by (simp add: demo_run_def validate_run_def sorted_ticks_def validate_controls_def default_controls_def
        total_weight_def max_events_per_tick_def max_worker_count_def max_batch_size_def go_int_def)
  show "run_fits demo_run"
    by (simp add: demo_run_def run_fits_def weights_fit_def default_controls_def ascii_utf8 ascii_def byte_def)
qed

theorem execute_scores_a_run_witness:
  "\<exists>f :: nat \<Rightarrow> mem_sim. s_controls (f 6) = (s_controls (f 5))\<lparr>EventsPerTick := 12\<rparr> \<and> s_controls (f 5) = default_controls \<and>
     s_tick (f 40) = 40 \<and> s_revision (f 40) = 2 \<and>
     execute mem_spine list_chain demo_run = Some (Inr (scorecard list_chain demo_run (f 40)))"
proof -
  obtain L0 and f :: "nat \<Rightarrow> mem_sim" where f: "new_sim mem_spine list_chain (sim_config_of demo_run) (Some L0) = Inr (f 0)"
    "\<forall>i < nat (rc_Ticks demo_run). s_controls (f (Suc i)) = scheduled (rc_ControlChanges demo_run) (int i) (s_controls (f i))"
    "s_tick (f (nat (rc_Ticks demo_run))) = rc_Ticks demo_run"
    "s_revision (f (nat (rc_Ticks demo_run))) = int (length (rc_ControlChanges demo_run))"
    "execute mem_spine list_chain demo_run = Some (Inr (scorecard list_chain demo_run (f (nat (rc_Ticks demo_run)))))"
    using execute_scores_a_run [OF mem_laws(2) mem_validates demo_run_ok, where ch = list_chain] by blast
  have "config_fits (sim_config_of demo_run)" using demo_run_ok(2) by (simp add: run_fits_def config_fits_def sim_config_of_def)
  then have c0: "s_controls (f 0) = default_controls"
    using new_sim_run_ok(10) [OF f(1)] by (simp add: demo_run_def sim_config_of_def)
  have c: "s_controls (f (Suc i)) = scheduled (rc_ControlChanges demo_run) (int i) (s_controls (f i))" if "i < 40" for i
    using f(2) that by (simp add: demo_run_def)
  have none: "scheduled (rc_ControlChanges demo_run) (int i) d = d" if "i < 5" for i d
    using that by (simp add: scheduled_def demo_run_def)
  have "s_controls (f i) = default_controls" if "i \<le> 5" for i
    using that by (induction i) (simp_all add: c0 c none)
  then have "s_controls (f 5) = default_controls" "s_controls (f (Suc 5)) = default_controls\<lparr>EventsPerTick := 12\<rparr>"
    using c [of 5] by (simp_all add: scheduled_def demo_run_def)
  with f(3-5) show ?thesis by (intro exI [of _ f]) (simp add: demo_run_def)
qed

text \<open>
  A batch run does not depend on the order Go ranges over the map of control changes: two
  orders of the same entries are validated alike, error for error, and give the same scorecard.
\<close>

lemma execute_ignores_map_order:
  assumes "distinct (map fst cs)" "mset cs = mset cs'"
  shows "validate_run (cfg\<lparr>rc_ControlChanges := cs\<rparr>) = validate_run (cfg\<lparr>rc_ControlChanges := cs'\<rparr>) \<and>
    map_option (map_sum id (\<lambda>r. r\<lparr>rr_Config := cfg\<rparr>)) (execute sp ch (cfg\<lparr>rc_ControlChanges := cs\<rparr>))
      = map_option (map_sum id (\<lambda>r. r\<lparr>rr_Config := cfg\<rparr>)) (execute sp ch (cfg\<lparr>rc_ControlChanges := cs'\<rparr>))"
proof -
  have "distinct (map fst cs')" using assms(1) mset_eq_imp_distinct_iff [of "map fst cs" "map fst cs'"] assms(2) by simp
  then have m: "map_of cs = map_of cs'" using map_of_inject_set [OF assms(1)] mset_eq_setD [OF assms(2)] by simp
  have "mset (map fst cs) = mset (map fst cs')" using assms(2) by simp
  then have st: "sorted_ticks cs = sorted_ticks cs'"
    unfolding sorted_ticks_def by (intro properties_for_sort) simp_all
  have vc: "validate_changes n cs ts = validate_changes n cs' ts" for n ts
    by (induction ts) (simp_all add: m split: option.split)
  have v: "validate_run (cfg\<lparr>rc_ControlChanges := cs\<rparr>) = validate_run (cfg\<lparr>rc_ControlChanges := cs'\<rparr>)"
    by (simp add: validate_run_def st vc split: option.split)
  have ex: "execute_loop sp ch cs n t s = execute_loop sp ch cs' n t s" for n t s
  proof (induction n arbitrary: t s)
    case (Suc n)
    have IH: "execute_loop sp ch cs n = execute_loop sp ch cs' n" using Suc by (intro ext) simp
    show ?case by (simp only: execute_loop.simps m IH)
  qed simp
  have sc: "(\<lambda>r. r\<lparr>rr_Config := cfg\<rparr>) \<circ> scorecard ch (cfg\<lparr>rc_ControlChanges := x\<rparr>) = scorecard ch cfg" for x
    by (rule HOL.ext) (simp add: scorecard_def)
  have cf: "sim_config_of (cfg\<lparr>rc_ControlChanges := x\<rparr>) = sim_config_of cfg" for x by (simp add: sim_config_of_def)
  show ?thesis
    using v
    by (simp add: execute_def ex cf option.map_comp sum.map_comp o_def sc [unfolded o_def] split: option.split sum.split)
qed

lemma execute_ignores_map_order_witness:
  "validate_run (demo_run\<lparr>rc_ControlChanges := [(1, default_controls), (0, default_controls)]\<rparr>)
     = validate_run (demo_run\<lparr>rc_ControlChanges := [(0, default_controls), (1, default_controls)]\<rparr>)"
  using execute_ignores_map_order [of "[(1, default_controls), (0, default_controls)]"
      "[(0, default_controls), (1, default_controls)]" demo_run mem_spine list_chain] by (simp add: add_mset_commute)

end
