(* ===== verification/Engine.thy ===== *)
theory Engine
  imports Recovery
begin

text \<open>
  \<^verbatim>\<open>internal/engine/engine.go\<close>: runs that tick from a clock and take commands while they go.
  Each run is owned by one goroutine that takes ticks and commands from one \<^verbatim>\<open>select\<close>, so its
  history is a sequence of whole handlers; every handler here is a function of the run, and the
  registry's methods are functions of the registry. \<open>now\<close> is the reading of the clock in a
  handler. \<open>opn\<close> stands for the injected \<^verbatim>\<open>LogOpener\<close>, with the answers it gives at the time of
  the call. A Go map is the association list of its entries. Spans are not modelled.
\<close>

definition default_snapshot_every :: int where "default_snapshot_every = 50"

definition default_tick_interval :: int where "default_tick_interval = 200000000"

definition default_subscriber_buffer :: int where "default_subscriber_buffer = 16"

definition max_id_attempts :: nat where "max_id_attempts = 1000"

type_synonym run_state = string

definition state_running :: run_state where "state_running = ''running''"
definition state_paused :: run_state where "state_paused = ''paused''"
definition state_finished :: run_state where "state_finished = ''finished''"

datatype corrupt_policy = RefuseCorrupt | ContinueCorrupt

definition policy_string :: "corrupt_policy \<Rightarrow> string" where
  "policy_string p = (if p = ContinueCorrupt then ''continue'' else ''refuse'')"

type_synonym ('l, 'r) log_opener = "string \<Rightarrow> (go_error + ('l, 'r) evlog) \<times> recovery"

definition ephemeral_logs :: "('fs, 'l, 'r) spine \<Rightarrow> ('l, 'r) log_opener" where
  "ephemeral_logs sp = (\<lambda>_. open_log sp (sp_new_fs sp))"

definition directory_logs :: "('fs, 'l, 'r) spine \<Rightarrow> string \<Rightarrow> ('l, 'r) log_opener" where
  "directory_logs sp dir = (\<lambda>runID. open_dir sp dir runID)"

record start_request =
  rq_RunID :: string
  rq_Seed :: int
  rq_Organisms :: int
  rq_Controls :: controls
  rq_TickInterval :: int
  rq_MaxTicks :: int
  rq_DuplicateEvery :: int
  rq_SnapshotEvery :: int

definition validate_request :: "start_request \<Rightarrow> go_error option" where
  "validate_request r =
     (if rq_Organisms r < 1 then
        Some (Errorf [T ''organisms must be at least 1, got '', D (rq_Organisms r)])
      else if rq_TickInterval r < 0 then
        Some (Errorf [T ''tick_interval must not be negative, got '', D (rq_TickInterval r)])
      else if rq_MaxTicks r < 0 then
        Some (Errorf [T ''max_ticks must not be negative, got '', D (rq_MaxTicks r)])
      else if rq_DuplicateEvery r < 0 then
        Some (Errorf [T ''duplicate_every must not be negative, got '', D (rq_DuplicateEvery r)])
      else if rq_SnapshotEvery r < 0 then
        Some (Errorf [T ''snapshot_every must not be negative, got '', D (rq_SnapshotEvery r)])
      else validate_controls (rq_Controls r))"

text \<open>
  A point-in-time view of a run. \<open>vw_Failure\<close> and \<open>vw_LogRecovery\<close> hold the errors whose text
  the code puts there; \<open>None\<close> is the empty string, and for \<open>vw_FinishedAt\<close> the zero time.
\<close>

record run_view =
  vw_RunID :: string
  vw_Seed :: int
  vw_Organisms :: int
  vw_State :: run_state
  vw_Tick :: int
  vw_MaxTicks :: int
  vw_TickInterval :: int
  vw_Controls :: controls
  vw_Revision :: int
  vw_StartedAt :: int
  vw_UpdatedAt :: int
  vw_FinishedAt :: "int option"
  vw_Failure :: "go_error option"
  vw_LogRecovery :: "go_error option"
  vw_Resumed :: bool

record control_revision =
  cr_RunID :: string
  cr_Revision :: int
  cr_Controls :: controls
  cr_EffectiveTick :: int

record garden_snapshot =
  fr_RunID :: string
  fr_Sequence :: int
  fr_Tick :: int
  fr_Revision :: int
  fr_State :: run_state
  fr_Stats :: garden_stats
  fr_Organisms :: "organism list"
  fr_Hash :: string
  fr_ObservedAt :: int
  fr_FoldedOffset :: int

record telemetry_snapshot =
  tm_RunID :: string
  tm_State :: run_state
  tm_Tick :: int
  tm_Revision :: int
  tm_TickInterval :: int
  tm_Published :: int
  tm_Processor :: proc_stats
  tm_Pending :: int
  tm_Subscribers :: int
  tm_SnapshotsSent :: int
  tm_SnapshotsDropped :: int
  tm_Uptime :: int
  tm_ObservedAt :: int
  tm_LogOffset :: int
  tm_CommittedOffset :: int
  tm_SnapshotSaveRetries :: int
  tm_SnapshotSaveFailures :: int

record run_summary =
  su_Run :: run_view
  su_Snapshot :: garden_snapshot
  su_Telemetry :: telemetry_snapshot

datatype closed_reason = SubscriptionClosedRunFinished | SubscriptionClosedRegistryShutdown

text \<open>A subscription: the frames buffered in its channel, the buffer's size, and how it ended.\<close>

record subscription =
  sub_id :: int
  sub_ch :: "garden_snapshot list"
  sub_buffer :: int
  sub_closed :: bool
  sub_reason :: closed_reason

text \<open>
  \<open>lr_ticker\<close> is whether there is a ticker, \<open>lr_subs\<close> the attached subscribers, \<open>lr_detached\<close> the
  subscriptions that were closed and that their clients may still hold. \<open>lr_done\<close> is the closed
  \<^verbatim>\<open>done\<close> channel: the goroutine is gone.
\<close>

record ('l, 'r, 'c) live_run =
  lr_req :: start_request
  lr_sim :: "('l, 'r, 'c) sim"
  lr_state :: run_state
  lr_startedAt :: int
  lr_updatedAt :: int
  lr_finishedAt :: "int option"
  lr_failure :: "go_error option"
  lr_recovered :: recovery
  lr_resumed :: bool
  lr_ticker :: bool
  lr_subs :: "(int \<times> subscription) list"
  lr_nextSub :: int
  lr_snapSeq :: int
  lr_snapshotsSent :: int
  lr_snapshotsDropped :: int
  lr_detached :: "subscription list"
  lr_done :: bool

subsection \<open>Reading a run\<close>

definition view_of :: "('l, 'r, 'c) live_run \<Rightarrow> run_view" where
  "view_of r =
     \<lparr>vw_RunID = rq_RunID (lr_req r), vw_Seed = rq_Seed (lr_req r), vw_Organisms = rq_Organisms (lr_req r),
      vw_State = lr_state r, vw_Tick = s_tick (lr_sim r), vw_MaxTicks = rq_MaxTicks (lr_req r),
      vw_TickInterval = rq_TickInterval (lr_req r), vw_Controls = s_controls (lr_sim r),
      vw_Revision = s_revision (lr_sim r), vw_StartedAt = lr_startedAt r, vw_UpdatedAt = lr_updatedAt r,
      vw_FinishedAt = lr_finishedAt r, vw_Failure = lr_failure r,
      vw_LogRecovery = map_option (\<lambda>e. Errorf
        [T ''log opened corrupt and was allowed to continue: discarded '', D (rc_Discarded (lr_recovered r)),
         T '' bytes, resumed at offset '', D (rc_Next (lr_recovered r)), T '': '', W e]) (rc_Corrupt (lr_recovered r)),
      vw_Resumed = lr_resumed r\<rparr>"

definition frame_of :: "('fs, 'l, 'r) spine \<Rightarrow> int \<Rightarrow> ('l, 'r, 'c) live_run \<Rightarrow> garden_snapshot" where
  "frame_of sp now r =
     \<lparr>fr_RunID = rq_RunID (lr_req r), fr_Sequence = lr_snapSeq r, fr_Tick = s_tick (lr_sim r),
      fr_Revision = s_revision (lr_sim r), fr_State = lr_state r, fr_Stats = stats (s_garden (lr_sim r)),
      fr_Organisms = organisms (s_garden (lr_sim r)), fr_Hash = hash (s_garden (lr_sim r)),
      fr_ObservedAt = now, fr_FoldedOffset = folded_of sp (lr_sim r)\<rparr>"

definition telemetry_of :: "('fs, 'l, 'r) spine \<Rightarrow> int \<Rightarrow> ('l, 'r, 'c) live_run \<Rightarrow> telemetry_snapshot" where
  "telemetry_of sp now r =
     \<lparr>tm_RunID = rq_RunID (lr_req r), tm_State = lr_state r, tm_Tick = s_tick (lr_sim r),
      tm_Revision = s_revision (lr_sim r), tm_TickInterval = rq_TickInterval (lr_req r),
      tm_Published = s_published (lr_sim r), tm_Processor = p_stats (s_proc (lr_sim r)),
      tm_Pending = pending_of sp (lr_sim r), tm_Subscribers = int (length (lr_subs r)),
      tm_SnapshotsSent = lr_snapshotsSent r, tm_SnapshotsDropped = lr_snapshotsDropped r,
      tm_Uptime = lr_updatedAt r - lr_startedAt r, tm_ObservedAt = now,
      tm_LogOffset = offset_of sp (lr_sim r), tm_CommittedOffset = s_committed (lr_sim r),
      tm_SnapshotSaveRetries = s_snapshotSaveRetries (lr_sim r),
      tm_SnapshotSaveFailures = s_snapshotSaveFailures (lr_sim r)\<rparr>"

definition run_observe :: "metric_call \<Rightarrow> ('l, 'r, 'c) live_run \<Rightarrow> ('l, 'r, 'c) live_run" where
  "run_observe m r = r\<lparr>lr_sim := observe_sim m (lr_sim r)\<rparr>"

subsection \<open>Subscribers\<close>

text \<open>One non-blocking send, as the \<^verbatim>\<open>select\<close> with a \<^verbatim>\<open>default\<close> does it.\<close>

fun send_frames ::
  "garden_snapshot \<Rightarrow> (int \<times> subscription) list \<Rightarrow> ('l, 'r, 'c) live_run \<Rightarrow>
   (int \<times> subscription) list \<times> ('l, 'r, 'c) live_run" where
  "send_frames f [] r = ([], r)"
| "send_frames f ((i, s) # ss) r =
     (if int (length (sub_ch s)) < sub_buffer s
      then (let (ss', r') = send_frames f ss
                  (run_observe ObservePublish (r\<lparr>lr_snapshotsSent := lr_snapshotsSent r + 1\<rparr>))
            in ((i, s\<lparr>sub_ch := sub_ch s @ [f]\<rparr>) # ss', r'))
      else (let (ss', r') = send_frames f ss
                  (run_observe ObserveSnapshotDropped (r\<lparr>lr_snapshotsDropped := lr_snapshotsDropped r + 1\<rparr>))
            in ((i, s) # ss', r')))"

definition publish :: "('fs, 'l, 'r) spine \<Rightarrow> int \<Rightarrow> ('l, 'r, 'c) live_run \<Rightarrow> ('l, 'r, 'c) live_run" where
  "publish sp now r =
     (if lr_subs r = [] then r
      else let r = r\<lparr>lr_snapSeq := lr_snapSeq r + 1\<rparr>;
               (ss, r') = send_frames (frame_of sp now r) (lr_subs r) r
           in r'\<lparr>lr_subs := ss\<rparr>)"

definition remove_sub :: "int \<Rightarrow> ('l, 'r, 'c) live_run \<Rightarrow> ('l, 'r, 'c) live_run" where
  "remove_sub i r =
     (case map_of (lr_subs r) i of
        None \<Rightarrow> r
      | Some s \<Rightarrow> r\<lparr>lr_subs := filter (\<lambda>p. fst p \<noteq> i) (lr_subs r),
                    lr_detached := lr_detached r @ [s\<lparr>sub_closed := True\<rparr>]\<rparr>)"

definition close_subs :: "closed_reason \<Rightarrow> ('l, 'r, 'c) live_run \<Rightarrow> ('l, 'r, 'c) live_run" where
  "close_subs reason r =
     r\<lparr>lr_subs := [],
       lr_detached := lr_detached r @ map (\<lambda>(i, s). s\<lparr>sub_reason := reason, sub_closed := True\<rparr>) (lr_subs r)\<rparr>"

definition stop_ticker :: "('l, 'r, 'c) live_run \<Rightarrow> ('l, 'r, 'c) live_run" where
  "stop_ticker r = r\<lparr>lr_ticker := False\<rparr>"

subsection \<open>The run's own handlers\<close>

definition keep_failure :: "go_error option \<Rightarrow> ('l, 'r, 'c) live_run \<Rightarrow> ('l, 'r, 'c) live_run" where
  "keep_failure err r = (if err \<noteq> None \<and> lr_failure r = None then r\<lparr>lr_failure := err\<rparr> else r)"

definition finish ::
  "('fs, 'l, 'r) spine \<Rightarrow> 'c chain_ops \<Rightarrow> int \<Rightarrow> ('l, 'r, 'c) live_run \<Rightarrow> ('l, 'r, 'c) live_run option" where
  "finish sp ch now r =
     (if lr_state r = state_finished then Some r
      else let r = r\<lparr>lr_state := state_finished, lr_sim := set_state state_finished (lr_sim r),
                     lr_finishedAt := Some now, lr_updatedAt := now\<rparr>
           in case save_sim sp ch (lr_sim r) of
                None \<Rightarrow> None
              | Some (err, s) \<Rightarrow>
                  (let r = keep_failure err (r\<lparr>lr_sim := s\<rparr>);
                       r = publish sp now (stop_ticker r);
                       r = close_subs SubscriptionClosedRunFinished r
                   in Some (run_observe (ForgetRun (rq_RunID (lr_req r))) r)))"

definition advance ::
  "('fs, 'l, 'r) spine \<Rightarrow> 'c chain_ops \<Rightarrow> int \<Rightarrow> ('l, 'r, 'c) live_run \<Rightarrow> ('l, 'r, 'c) live_run option" where
  "advance sp ch now r =
     (let r = r\<lparr>lr_updatedAt := now\<rparr> in
      if lr_state r \<noteq> state_running then Some r
      else case step_sim sp ch (lr_sim r) of
             None \<Rightarrow> None
           | Some (err, s) \<Rightarrow>
               (let r = run_observe ObserveTick (r\<lparr>lr_sim := s\<rparr>) in
                case err of
                  Some e \<Rightarrow> finish sp ch now (r\<lparr>lr_failure := Some e\<rparr>)
                | None \<Rightarrow>
                    (let r = run_observe (ObservePending (rq_RunID (lr_req r)) (pending_of sp (lr_sim r))) r;
                         r = publish sp now r
                     in if rq_MaxTicks (lr_req r) > 0 \<and> s_tick (lr_sim r) \<ge> rq_MaxTicks (lr_req r)
                        then finish sp ch now r else Some r)))"

text \<open>
  One pass of the owner's \<^verbatim>\<open>select\<close>: a tick while there is a ticker, and \<^verbatim>\<open>quit\<close>, after which the
  goroutine is gone and the log is closed.
\<close>

definition tick_run ::
  "('fs, 'l, 'r) spine \<Rightarrow> 'c chain_ops \<Rightarrow> int \<Rightarrow> ('l, 'r, 'c) live_run \<Rightarrow> ('l, 'r, 'c) live_run option" where
  "tick_run sp ch now r = (if lr_done r \<or> \<not> lr_ticker r then Some r else advance sp ch now r)"

definition quit_run :: "('fs, 'l, 'r) spine \<Rightarrow> ('l, 'r, 'c) live_run \<Rightarrow> ('l, 'r, 'c) live_run" where
  "quit_run sp r =
     (let r = close_subs SubscriptionClosedRegistryShutdown (stop_ticker r)
      in r\<lparr>lr_sim := snd (close_sim sp (lr_sim r)), lr_done := True\<rparr>)"

text \<open>
  \<^verbatim>\<open>do\<close>: run a command on the owner, or report that the owner is gone. A command returns its
  result and the run; \<open>None\<close> is a panic.
\<close>

definition do_run ::
  "(('l, 'r, 'c) live_run \<Rightarrow> ('a \<times> ('l, 'r, 'c) live_run) option) \<Rightarrow> ('l, 'r, 'c) live_run \<Rightarrow>
   ((go_error + 'a) \<times> ('l, 'r, 'c) live_run) option" where
  "do_run fn r =
     (if lr_done r then Some (Inl (Sentinel ErrRunClosed), r)
      else map_option (\<lambda>(x, r). (Inr x, r)) (fn r))"

definition update_controls_cmd ::
  "controls \<Rightarrow> int \<Rightarrow> ('l, 'r, 'c) live_run \<Rightarrow> ((go_error + control_revision) \<times> ('l, 'r, 'c) live_run) option" where
  "update_controls_cmd c now r =
     (if lr_state r = state_finished then Some (Inl (Sentinel ErrRunFinished), r)
      else case set_controls c (lr_sim r) of
        (Inl err, s) \<Rightarrow> Some (Inl err, r\<lparr>lr_sim := s\<rparr>)
      | (Inr revision, s) \<Rightarrow>
          Some (Inr \<lparr>cr_RunID = rq_RunID (lr_req r), cr_Revision = revision, cr_Controls = c,
                     cr_EffectiveTick = s_tick s\<rparr>,
                r\<lparr>lr_sim := s, lr_updatedAt := now\<rparr>))"

definition set_paused_cmd ::
  "('fs, 'l, 'r) spine \<Rightarrow> 'c chain_ops \<Rightarrow> bool \<Rightarrow> int \<Rightarrow> ('l, 'r, 'c) live_run \<Rightarrow>
   ((go_error + run_view) \<times> ('l, 'r, 'c) live_run) option" where
  "set_paused_cmd sp ch paused now r =
     (if lr_state r = state_finished then Some (Inl (Sentinel ErrRunFinished), r)
      else let st = (if paused then state_paused else state_running);
               r = r\<lparr>lr_state := st, lr_sim := set_state st (lr_sim r)\<rparr>
           in case save_sim sp ch (lr_sim r) of
                None \<Rightarrow> None
              | Some (err, s) \<Rightarrow>
                  (let r = keep_failure err (r\<lparr>lr_sim := s\<rparr>);
                       r = publish sp now (r\<lparr>lr_updatedAt := now\<rparr>)
                   in Some (Inr (view_of r), r)))"

definition finish_cmd ::
  "('fs, 'l, 'r) spine \<Rightarrow> 'c chain_ops \<Rightarrow> int \<Rightarrow> ('l, 'r, 'c) live_run \<Rightarrow>
   (run_summary \<times> ('l, 'r, 'c) live_run) option" where
  "finish_cmd sp ch now r =
     (case finish sp ch now r of
        None \<Rightarrow> None
      | Some r \<Rightarrow> Some (\<lparr>su_Run = view_of r, su_Snapshot = frame_of sp now r,
                         su_Telemetry = telemetry_of sp now r\<rparr>, r))"

definition subscribe_cmd ::
  "('fs, 'l, 'r) spine \<Rightarrow> int \<Rightarrow> int \<Rightarrow> bool \<Rightarrow> int \<Rightarrow> ('l, 'r, 'c) live_run \<Rightarrow>
   ((go_error + subscription \<times> event list) \<times> ('l, 'r, 'c) live_run) option" where
  "subscribe_cmd sp buffer from catchup now r =
     (case (if catchup then since_of sp from (lr_sim r) else Some (None, [])) of
        None \<Rightarrow> None
      | Some (Some err, _) \<Rightarrow> Some (Inl err, r)
      | Some (None, missed) \<Rightarrow>
          (let sub = \<lparr>sub_id = 0, sub_ch = [frame_of sp now r], sub_buffer = buffer, sub_closed = False,
                      sub_reason = SubscriptionClosedRunFinished\<rparr>;
               r = run_observe ObservePublish (r\<lparr>lr_snapshotsSent := lr_snapshotsSent r + 1\<rparr>)
           in if lr_state r = state_finished
              then let sub = sub\<lparr>sub_closed := True\<rparr>
                   in Some (Inr (sub, missed), r\<lparr>lr_detached := lr_detached r @ [sub]\<rparr>)
              else let i = lr_nextSub r + 1; sub = sub\<lparr>sub_id := i\<rparr>
                   in Some (Inr (sub, missed),
                            r\<lparr>lr_nextSub := i, lr_subs := lr_subs r @ [(i, sub)]\<rparr>)))"

text \<open>
  What a client does with a subscription it holds: receive the next frame, or close it.
\<close>

definition receive_frame :: "int \<Rightarrow> ('l, 'r, 'c) live_run \<Rightarrow> garden_snapshot option \<times> ('l, 'r, 'c) live_run" where
  "receive_frame i r =
     (case map_of (lr_subs r) i of
        None \<Rightarrow> (None, r)
      | Some s \<Rightarrow>
          (case sub_ch s of
             [] \<Rightarrow> (None, r)
           | f # fs \<Rightarrow> (Some f, r\<lparr>lr_subs := map (\<lambda>(j, t). if j = i then (j, t\<lparr>sub_ch := fs\<rparr>) else (j, t)) (lr_subs r)\<rparr>)))"

definition subscription_close :: "int \<Rightarrow> ('l, 'r, 'c) live_run \<Rightarrow> ('l, 'r, 'c) live_run" where
  "subscription_close i r = (if lr_done r then r else remove_sub i r)"

end
