(* ===== verification/Live_Run.thy ===== *)
theory Live_Run
  imports Engine Sim_Runs
begin

text \<open>
  One live run as a state machine: its moves are whole passes of the owner's loop (a tick, a
  command, the shutdown) and what a client does with a subscription it holds. Every move keeps
  \<open>live_ok\<close>, and while no step failed the moves only drive the simulation through the calls
  \<open>sim_reach\<close> allows.
\<close>

text \<open>What reporting to the recorder can change.\<close>

definition quiet :: "('l, 'r, 'c) sim \<Rightarrow> ('l, 'r, 'c) sim \<Rightarrow> bool" where
  "quiet s t \<longleftrightarrow> (\<exists>ms. t = s\<lparr>s_proc := (s_proc s)\<lparr>p_obs := ms\<rparr>\<rparr>)"

lemma quiet_refl [simp]: "quiet s s"
  unfolding quiet_def by (rule exI [of _ "p_obs (s_proc s)"]) simp

lemma quiet_trans: "quiet s t \<Longrightarrow> quiet t u \<Longrightarrow> quiet s u"
  by (auto simp: quiet_def)

lemma quiet_observe: "quiet s (observe_sim m s)"
  by (auto simp: quiet_def observe_sim_def p_observe_def)

lemma quiet_sels:
  assumes "quiet s t"
  shows "s_log t = s_log s" "s_tick t = s_tick s" "s_controls t = s_controls s" "s_revision t = s_revision s"
    "s_pending t = s_pending s" "s_published t = s_published s" "s_state t = s_state s" "s_cfg t = s_cfg s"
    "s_garden t = s_garden s" "p_stats (s_proc t) = p_stats (s_proc s)" "s_prod t = s_prod s" "s_committed t = s_committed s"
  using assms by (auto simp: quiet_def s_garden_def)

lemma run_observe_sels [simp]:
  "lr_req (run_observe m r) = lr_req r" "lr_state (run_observe m r) = lr_state r"
  "lr_startedAt (run_observe m r) = lr_startedAt r" "lr_updatedAt (run_observe m r) = lr_updatedAt r"
  "lr_finishedAt (run_observe m r) = lr_finishedAt r" "lr_failure (run_observe m r) = lr_failure r"
  "lr_recovered (run_observe m r) = lr_recovered r" "lr_resumed (run_observe m r) = lr_resumed r"
  "lr_ticker (run_observe m r) = lr_ticker r" "lr_subs (run_observe m r) = lr_subs r"
  "lr_nextSub (run_observe m r) = lr_nextSub r" "lr_snapSeq (run_observe m r) = lr_snapSeq r"
  "lr_snapshotsSent (run_observe m r) = lr_snapshotsSent r" "lr_snapshotsDropped (run_observe m r) = lr_snapshotsDropped r"
  "lr_detached (run_observe m r) = lr_detached r" "lr_done (run_observe m r) = lr_done r"
  "lr_sim (run_observe m r) = observe_sim m (lr_sim r)"
  by (simp_all add: run_observe_def)

definition offered :: "garden_snapshot \<Rightarrow> subscription \<Rightarrow> subscription" where
  "offered f s = (if int (length (sub_ch s)) < sub_buffer s then s\<lparr>sub_ch := sub_ch s @ [f]\<rparr> else s)"

text \<open>Everything a publication leaves alone.\<close>

definition same_live ::
  "('fs, 'l, 'r) spine \<Rightarrow> 'c chain_ops \<Rightarrow> ('l, 'r, 'c) live_run \<Rightarrow> ('l, 'r, 'c) live_run \<Rightarrow> bool" where
  "same_live sp ch r t \<longleftrightarrow>
     lr_req t = lr_req r \<and> lr_state t = lr_state r \<and> lr_startedAt t = lr_startedAt r \<and>
     lr_updatedAt t = lr_updatedAt r \<and> lr_finishedAt t = lr_finishedAt r \<and> lr_failure t = lr_failure r \<and>
     lr_recovered t = lr_recovered r \<and> lr_resumed t = lr_resumed r \<and> lr_ticker t = lr_ticker r \<and>
     lr_nextSub t = lr_nextSub r \<and> lr_detached t = lr_detached r \<and> lr_done t = lr_done r \<and>
     quiet (lr_sim r) (lr_sim t) \<and> sim_reach sp ch (lr_sim r) (lr_sim t)"

lemma reach_observe: "sim_reach sp ch s t \<Longrightarrow> sim_reach sp ch s (observe_sim m t)"
  by (rule sim_reach.move [OF _ sim_move.observe])

lemma send_frames_spec:
  assumes "send_frames f ss r = (ss', r')"
  shows "ss' = map (\<lambda>(i, s). (i, offered f s)) ss \<and> same_live sp ch r r' \<and> lr_subs r' = lr_subs r \<and>
    lr_snapSeq r' = lr_snapSeq r \<and> lr_snapshotsSent r \<le> lr_snapshotsSent r' \<and>
    lr_snapshotsDropped r \<le> lr_snapshotsDropped r' \<and>
    lr_snapshotsSent r' + lr_snapshotsDropped r' = lr_snapshotsSent r + lr_snapshotsDropped r + int (length ss)"
  using assms
proof (induction ss arbitrary: ss' r)
  case Nil
  then show ?case by (simp add: same_live_def sim_reach.start)
next
  case (Cons x ss)
  obtain i s where x: "x = (i, s)" by (cases x)
  let ?r = "if int (length (sub_ch s)) < sub_buffer s
    then run_observe ObservePublish (r\<lparr>lr_snapshotsSent := lr_snapshotsSent r + 1\<rparr>)
    else run_observe ObserveSnapshotDropped (r\<lparr>lr_snapshotsDropped := lr_snapshotsDropped r + 1\<rparr>)"
  obtain ss1 where rec: "send_frames f ss ?r = (ss1, r')" and ss': "ss' = (i, offered f s) # ss1"
    using Cons.prems by (auto simp: x offered_def split: if_splits prod.splits)
  have "quiet (lr_sim r) (lr_sim ?r)" "sim_reach sp ch (lr_sim r) (lr_sim ?r)"
    using quiet_observe reach_observe [OF sim_reach.start] by auto
  with Cons.IH [OF rec] show ?case
    by (auto simp: ss' x same_live_def split: if_splits intro: quiet_trans reach_trans)
qed

lemma publish_spec:
  "same_live sp ch r (publish sp now r)"
  "lr_subs (publish sp now r)
     = (if lr_subs r = [] then [] else map (\<lambda>(i, s). (i, offered (frame_of sp now (r\<lparr>lr_snapSeq := lr_snapSeq r + 1\<rparr>)) s)) (lr_subs r))"
  "lr_snapSeq (publish sp now r) = lr_snapSeq r + (if lr_subs r = [] then 0 else 1)"
  "lr_snapshotsSent r \<le> lr_snapshotsSent (publish sp now r)"
  "lr_snapshotsDropped r \<le> lr_snapshotsDropped (publish sp now r)"
  "lr_snapshotsSent (publish sp now r) + lr_snapshotsDropped (publish sp now r)
     = lr_snapshotsSent r + lr_snapshotsDropped r + int (length (lr_subs r))"
proof -
  let ?r = "r\<lparr>lr_snapSeq := lr_snapSeq r + 1\<rparr>"
  obtain ss r' where sf: "send_frames (frame_of sp now ?r) (lr_subs r) ?r = (ss, r')"
    by (cases "send_frames (frame_of sp now ?r) (lr_subs r) ?r")
  note spec = send_frames_spec [OF sf, of sp ch]
  have pub: "publish sp now r = (if lr_subs r = [] then r else r'\<lparr>lr_subs := ss\<rparr>)"
    using sf by (simp add: publish_def Let_def)
  show "same_live sp ch r (publish sp now r)"
    using spec by (auto simp: pub same_live_def sim_reach.start)
  show "lr_subs (publish sp now r)
     = (if lr_subs r = [] then [] else map (\<lambda>(i, s). (i, offered (frame_of sp now (r\<lparr>lr_snapSeq := lr_snapSeq r + 1\<rparr>)) s)) (lr_subs r))"
    "lr_snapSeq (publish sp now r) = lr_snapSeq r + (if lr_subs r = [] then 0 else 1)"
    "lr_snapshotsSent r \<le> lr_snapshotsSent (publish sp now r)"
    "lr_snapshotsDropped r \<le> lr_snapshotsDropped (publish sp now r)"
    "lr_snapshotsSent (publish sp now r) + lr_snapshotsDropped (publish sp now r)
       = lr_snapshotsSent r + lr_snapshotsDropped r + int (length (lr_subs r))"
    using spec by (auto simp: pub)
qed

subsection \<open>The invariant of a live run\<close>

definition frames_ok :: "int \<Rightarrow> garden_snapshot list \<Rightarrow> bool" where
  "frames_ok n fs \<longleftrightarrow> sorted_wrt (<) (map fr_Sequence fs) \<and> list_all (\<lambda>f. fr_Sequence f \<le> n) fs"

definition sub_ok :: "('l, 'r, 'c) live_run \<Rightarrow> int \<times> subscription \<Rightarrow> bool" where
  "sub_ok r = (\<lambda>(i, s). sub_id s = i \<and> 0 < i \<and> i \<le> lr_nextSub r \<and> \<not> sub_closed s \<and> 1 \<le> sub_buffer s \<and>
     int (length (sub_ch s)) \<le> sub_buffer s \<and> frames_ok (lr_snapSeq r) (sub_ch s))"

definition live_ok :: "('l, 'r, 'c) live_run \<Rightarrow> bool" where
  "live_ok r \<longleftrightarrow>
     lr_state r \<in> {state_running, state_paused, state_finished} \<and> s_state (lr_sim r) = lr_state r \<and>
     (lr_state r = state_finished \<longleftrightarrow> lr_finishedAt r \<noteq> None) \<and>
     (lr_state r = state_finished \<longrightarrow> \<not> lr_ticker r \<and> lr_subs r = []) \<and>
     (lr_done r \<longrightarrow> \<not> lr_ticker r \<and> lr_subs r = []) \<and>
     distinct (map fst (lr_subs r)) \<and> list_all (sub_ok r) (lr_subs r) \<and>
     list_all sub_closed (lr_detached r) \<and> 0 \<le> lr_nextSub r \<and>
     0 \<le> lr_snapshotsSent r \<and> 0 \<le> lr_snapshotsDropped r \<and>
     (\<not> lr_done r \<longrightarrow> s_log (lr_sim r) \<noteq> None)"

lemmas state_defs = state_running_def state_paused_def state_finished_def

lemma frames_ok_snoc: "frames_ok n fs \<Longrightarrow> fr_Sequence f = n + 1 \<Longrightarrow> frames_ok (n + 1) (fs @ [f])"
  by (fastforce simp: frames_ok_def sorted_wrt_append list_all_iff)

lemma frames_ok_mono: "frames_ok n fs \<Longrightarrow> frames_ok (n + 1) fs"
  by (fastforce simp: frames_ok_def list_all_iff)

lemma sub_ok_offered:
  assumes "sub_ok r (i, s)" "lr_nextSub t = lr_nextSub r" "lr_snapSeq t = lr_snapSeq r + 1" "fr_Sequence f = lr_snapSeq r + 1"
  shows "sub_ok t (i, offered f s)"
  using assms frames_ok_snoc frames_ok_mono by (auto simp: sub_ok_def offered_def)

lemma publish_ok:
  assumes "list_all (sub_ok r) (lr_subs r)"
  shows "list_all (sub_ok (publish sp now r)) (lr_subs (publish sp now r))"
    "map fst (lr_subs (publish sp now r)) = map fst (lr_subs r)"
proof -
  have n: "lr_nextSub (publish sp now r) = lr_nextSub r" for sp now
    using publish_spec(1) [of sp undefined r now] by (simp add: same_live_def)
  show "map fst (lr_subs (publish sp now r)) = map fst (lr_subs r)"
    by (auto simp: publish_spec(2) split_beta)
  show "list_all (sub_ok (publish sp now r)) (lr_subs (publish sp now r))"
    using assms n
    by (auto simp: publish_spec(2,3) list_all_iff frame_of_def intro!: sub_ok_offered)
qed

lemma publish_sels [simp]:
  "lr_req (publish sp now r) = lr_req r" "lr_state (publish sp now r) = lr_state r"
  "lr_updatedAt (publish sp now r) = lr_updatedAt r" "lr_startedAt (publish sp now r) = lr_startedAt r"
  "lr_finishedAt (publish sp now r) = lr_finishedAt r" "lr_failure (publish sp now r) = lr_failure r"
  "lr_ticker (publish sp now r) = lr_ticker r" "lr_nextSub (publish sp now r) = lr_nextSub r"
  "lr_detached (publish sp now r) = lr_detached r" "lr_done (publish sp now r) = lr_done r"
  "s_state (lr_sim (publish sp now r)) = s_state (lr_sim r)" "s_log (lr_sim (publish sp now r)) = s_log (lr_sim r)"
  "s_tick (lr_sim (publish sp now r)) = s_tick (lr_sim r)" "s_garden (lr_sim (publish sp now r)) = s_garden (lr_sim r)"
  "s_revision (lr_sim (publish sp now r)) = s_revision (lr_sim r)"
  "s_controls (lr_sim (publish sp now r)) = s_controls (lr_sim r)"
  using publish_spec(1) [of sp undefined r now] quiet_sels [of "lr_sim r" "lr_sim (publish sp now r)"]
  by (simp_all add: same_live_def)

lemma observe_sim_sels [simp]:
  "s_state (observe_sim m s) = s_state s" "s_log (observe_sim m s) = s_log s" "s_tick (observe_sim m s) = s_tick s"
  "s_garden (observe_sim m s) = s_garden s" "s_revision (observe_sim m s) = s_revision s"
  "s_controls (observe_sim m s) = s_controls s"
  using quiet_sels [OF quiet_observe] by simp_all

text \<open>A publication changes nothing else the invariant speaks of.\<close>

lemma live_ok_publish: "live_ok r \<Longrightarrow> live_ok (publish sp now r)"
  using publish_ok [of r sp now] publish_spec(4,5) [of r sp now] publish_spec(2) [of sp now r]
  by (auto simp: live_ok_def)

lemma live_ok_observe [simp]: "live_ok (run_observe m r) = live_ok r"
  by (simp add: live_ok_def sub_ok_def)

lemma small_step_req [simp]:
  "lr_req (close_subs reason r) = lr_req r" "lr_req (stop_ticker r) = lr_req r" "lr_req (keep_failure err r) = lr_req r"
  by (simp_all add: close_subs_def stop_ticker_def keep_failure_def)

lemma finish_spec:
  assumes "finish sp ch now r = Some r'" "lr_state r \<noteq> state_finished"
  obtains err s where "save_sim sp ch (set_state state_finished (lr_sim r)) = Some (err, s)"
    "lr_state r' = state_finished" "lr_finishedAt r' = Some now" "\<not> lr_ticker r'" "lr_subs r' = []"
    "quiet s (lr_sim r')" "sim_reach sp ch s (lr_sim r')" "lr_req r' = lr_req r" "lr_done r' = lr_done r"
    "lr_failure r' = (if lr_failure r = None then err else lr_failure r)" "lr_nextSub r' = lr_nextSub r"
    "lr_snapshotsSent r \<le> lr_snapshotsSent r'" "lr_snapshotsDropped r \<le> lr_snapshotsDropped r'"
    "\<exists>ds. lr_detached r' = lr_detached r @ ds \<and> list_all (\<lambda>d. sub_closed d \<and> sub_reason d = SubscriptionClosedRunFinished) ds \<and>
       map sub_id ds = map (\<lambda>p. sub_id (snd p)) (lr_subs r)"
proof -
  let ?r = "r\<lparr>lr_state := state_finished, lr_sim := set_state state_finished (lr_sim r),
                     lr_finishedAt := Some now, lr_updatedAt := now\<rparr>"
  obtain err s where sv: "save_sim sp ch (set_state state_finished (lr_sim r)) = Some (err, s)"
    using assms by (auto simp: finish_def Let_def split: option.splits)
  define q where "q = stop_ticker (keep_failure err (?r\<lparr>lr_sim := s\<rparr>))"
  have r': "r' = run_observe (ForgetRun (rq_RunID (lr_req r))) (close_subs SubscriptionClosedRunFinished (publish sp now q))"
    using assms sv by (auto simp: finish_def Let_def q_def)
  have q: "lr_sim q = s" "lr_subs q = lr_subs r" "lr_snapshotsSent q = lr_snapshotsSent r"
    "lr_snapshotsDropped q = lr_snapshotsDropped r" "lr_detached q = lr_detached r" "lr_req q = lr_req r"
    "lr_done q = lr_done r" "lr_state q = state_finished" "lr_finishedAt q = Some now" "\<not> lr_ticker q"
    "lr_failure q = (if lr_failure r = None then err else lr_failure r)" "lr_nextSub q = lr_nextSub r"
    by (simp_all add: q_def stop_ticker_def keep_failure_def)
  have sim: "quiet s (lr_sim (publish sp now q))" "sim_reach sp ch s (lr_sim (publish sp now q))"
    using publish_spec(1) [of sp ch q now] q(1) by (auto simp: same_live_def)
  show ?thesis
  proof (rule that [OF sv])
    show "quiet s (lr_sim r')" "sim_reach sp ch s (lr_sim r')"
      using sim quiet_trans [OF _ quiet_observe] reach_observe by (auto simp: r' close_subs_def)
    show "lr_snapshotsSent r \<le> lr_snapshotsSent r'" "lr_snapshotsDropped r \<le> lr_snapshotsDropped r'"
      using publish_spec(4,5) [of q sp now] q by (simp_all add: r' close_subs_def)
    have ids: "map (\<lambda>p. sub_id (snd p)) (lr_subs (publish sp now q)) = map (\<lambda>p. sub_id (snd p)) (lr_subs r)"
      by (auto simp: publish_spec(2) q(2) offered_def)
    show "\<exists>ds. lr_detached r' = lr_detached r @ ds \<and>
        list_all (\<lambda>d. sub_closed d \<and> sub_reason d = SubscriptionClosedRunFinished) ds \<and>
        map sub_id ds = map (\<lambda>p. sub_id (snd p)) (lr_subs r)"
      unfolding ids [symmetric]
      by (intro exI [of _ "map (\<lambda>(i, s). s\<lparr>sub_reason := SubscriptionClosedRunFinished, sub_closed := True\<rparr>)
            (lr_subs (publish sp now q))"]) (auto simp: r' close_subs_def q(5) list_all_iff)
  qed (simp_all add: r' close_subs_def q)
qed

text \<open>What no tick and no save changes, whatever its outcome.\<close>

definition keeps :: "('l, 'r, 'c) sim \<Rightarrow> ('l, 'r, 'c) sim \<Rightarrow> bool" where
  "keeps s t \<longleftrightarrow> s_state t = s_state s \<and> s_cfg t = s_cfg s \<and> (s_log s \<noteq> None \<longrightarrow> s_log t \<noteq> None)"

lemma keeps_refl [simp]: "keeps s s"
  by (simp add: keeps_def)

lemma keeps_trans: "keeps s t \<Longrightarrow> keeps t u \<Longrightarrow> keeps s u"
  by (auto simp: keeps_def)

lemma keeps_updates [simp]:
  "keeps (s\<lparr>s_saveInvocations := i\<rparr>) t = keeps s t" "keeps (s\<lparr>s_snapshotSaveRetries := i\<rparr>) t = keeps s t"
  "keeps (s\<lparr>s_tick := i\<rparr>) t = keeps s t" "keeps (s\<lparr>s_proc := p\<rparr>) t = keeps s t" "keeps (s\<lparr>s_chain := c\<rparr>) t = keeps s t"
  by (simp_all add: keeps_def)

lemma keeps_quiet: "quiet s t \<Longrightarrow> keeps s t"
  by (simp add: keeps_def quiet_sels)

lemma keeps_observe: "keeps s t \<Longrightarrow> keeps s (observe_sim m t)"
  using keeps_trans keeps_quiet [OF quiet_observe] by blast

lemma save_loop_keeps: "keeps s (snd (save_loop sp st inject n lastErr L s))"
proof (induction n arbitrary: lastErr L s)
  case 0
  show ?case by (auto intro!: keeps_observe simp: keeps_def)
next
  case (Suc n)
  define t where "t = (if Suc n = max_save_attempts then s
    else observe_sim ObserveSnapshotSaveRetry (s\<lparr>s_snapshotSaveRetries := s_snapshotSaveRetries s + 1\<rparr>))"
  have k: "keeps s t" by (auto intro!: keeps_observe simp: t_def keeps_def)
  then have k': "keeps s (t\<lparr>s_log := Some L'\<rparr>)" "keeps s (t\<lparr>s_log := Some L', s_committed := c\<rparr>)" for L' c
    by (simp_all add: keeps_def)
  obtain le L1 where ls: "log_save sp st L = (le, L1)" by (cases "log_save sp st L")
  have "(\<exists>e. save_loop sp st inject (Suc n) lastErr L s = save_loop sp st inject n e L t) \<or>
    (\<exists>e. save_loop sp st inject (Suc n) lastErr L s = save_loop sp st inject n e L1 (t\<lparr>s_log := Some L1\<rparr>)) \<or>
    (\<exists>c. save_loop sp st inject (Suc n) lastErr L s = (None, t\<lparr>s_log := Some L1, s_committed := c\<rparr>))"
    unfolding save_loop.simps Let_def t_def [symmetric] ls by (cases le) auto
  then show ?case
    using Suc.IH keeps_trans [OF k] keeps_trans [OF k'(1)] k'(2) by (metis snd_conv)
qed

lemma save_sim_keeps: "save_sim sp ch s = Some (err, s') \<Longrightarrow> keeps s s'"
  using save_loop_keeps [of "s\<lparr>s_saveInvocations := s_saveInvocations s + 1\<rparr>" sp _ _ max_save_attempts None]
  by (auto simp: save_sim_def Let_def split: option.splits) (metis snd_conv)

lemma fold_loop_keeps: "keeps s (snd (fold_loop sp ch errs es s))"
proof (induction es arbitrary: errs s)
  case (Cons e es)
  show ?case
  proof (cases "to_core (sp_validate sp) e")
    case (Inr rec)
    obtain r proc where p: "process (s_proc s) e = (r, proc)" by (cases "process (s_proc s) e")
    show ?thesis using Cons.IH [of "s\<lparr>s_proc := proc, s_chain := c\<rparr>" for c] Inr p by (simp add: Let_def)
  qed simp
qed simp

lemma end_tick_keeps: "end_tick sp ch s = Some (err, s') \<Longrightarrow> keeps s s'"
  using save_sim_keeps [of sp ch "s\<lparr>s_tick := s_tick s + 1\<rparr>"]
  by (auto simp: end_tick_def Let_def keeps_def split: if_splits)

lemma step_sim_keeps:
  assumes "step_sim sp ch s = Some (err, s')"
  shows "keeps s s'"
proof -
  obtain p1 ctl cs where st: "stage_changes (s_tick s) (s_pending s) (s_prod s) (s_controls s) [] = (p1, ctl, cs)"
    by (cases "stage_changes (s_tick s) (s_pending s) (s_prod s) (s_controls s) []")
  obtain x p2 where pt: "producer_tick p1 (s_tick s) ctl = Some (x, p2)"
    using assms st by (cases "producer_tick p1 (s_tick s) ctl") (auto simp: step_sim_def Let_def)
  show ?thesis
  proof (cases x)
    case (Inl e)
    with assms st pt show ?thesis by (auto simp: step_sim_def Let_def keeps_def)
  next
    case (Inr es)
    obtain L where L: "s_log s = Some L"
      using assms st pt Inr by (cases "s_log s") (auto simp: step_sim_def Let_def)
    note ex = step_expand [OF st pt [unfolded Inr] L, of sp ch]
    obtain ae L1 where ap: "log_append sp (tick_batch s cs es) L = (ae, L1)" by (cases "log_append sp (tick_batch s cs es) L")
    show ?thesis
    proof (cases ae)
      case (Some e)
      with assms ex ap show ?thesis by (auto simp: keeps_def)
    next
      case None
      obtain ue todo L2 where un: "unprocessed_up_to sp (capacity ctl) L1 = Some (ue, todo, L2)"
        using assms ex ap None by (cases "unprocessed_up_to sp (capacity ctl) L1") auto
      obtain fe s1 where fo: "fold_sim sp ch todo (staged s ctl p2 (tick_batch s cs es) L2) = (fe, s1)"
        by (cases "fold_sim sp ch todo (staged s ctl p2 (tick_batch s cs es) L2)")
      have k: "keeps s (staged s ctl p2 (tick_batch s cs es) L2)" by (simp add: keeps_def staged_def)
      have "keeps s s1"
        using keeps_trans [OF k] fold_loop_keeps [of "staged s ctl p2 (tick_batch s cs es) L2" sp ch "[]" todo] fo
        by (simp add: fold_sim_def)
      with assms ex ap None un fo k show ?thesis
        by (cases ue; cases fe) (auto dest: end_tick_keeps keeps_trans)
    qed
  qed
qed

inductive run_move ::
  "('fs, 'l, 'r) spine \<Rightarrow> 'c chain_ops \<Rightarrow> ('l, 'r, 'c) live_run \<Rightarrow> ('l, 'r, 'c) live_run \<Rightarrow> bool"
  for sp :: "('fs, 'l, 'r) spine" and ch :: "'c chain_ops" where
  tick: "room (lr_sim r) \<Longrightarrow> tick_run sp ch now r = Some r' \<Longrightarrow> run_move sp ch r r'"
| update: "weights_fit c \<Longrightarrow> do_run (update_controls_cmd c now) r = Some (x, r') \<Longrightarrow> run_move sp ch r r'"
| pause: "do_run (set_paused_cmd sp ch paused now) r = Some (y, r') \<Longrightarrow> run_move sp ch r r'"
| finish: "do_run (finish_cmd sp ch now) r = Some (z, r') \<Longrightarrow> run_move sp ch r r'"
| subscribe: "1 \<le> buffer \<Longrightarrow> do_run (subscribe_cmd sp buffer from catchup now) r = Some (w, r') \<Longrightarrow> run_move sp ch r r'"
| receive: "receive_frame i r = (f, r') \<Longrightarrow> run_move sp ch r r'"
| unsubscribe: "run_move sp ch r (subscription_close i r)"
| quit: "run_move sp ch r (quit_run sp r)"

inductive run_reach ::
  "('fs, 'l, 'r) spine \<Rightarrow> 'c chain_ops \<Rightarrow> ('l, 'r, 'c) live_run \<Rightarrow> ('l, 'r, 'c) live_run \<Rightarrow> bool"
  for sp :: "('fs, 'l, 'r) spine" and ch :: "'c chain_ops" and r0 :: "('l, 'r, 'c) live_run" where
  start: "run_reach sp ch r0 r0"
| move: "run_reach sp ch r0 r \<Longrightarrow> run_move sp ch r r' \<Longrightarrow> run_reach sp ch r0 r'"

inductive_cases run_move_cases: "run_move sp ch r r'"

lemma do_runE:
  assumes "do_run fn r = Some (x, r')"
  obtains "lr_done r" "r' = r" | y where "\<not> lr_done r" "fn r = Some (y, r')" "x = Inr y"
  using assms by (auto simp: do_run_def split: if_splits)

lemma keep_failure_sels [simp]:
  "lr_state (keep_failure err r) = lr_state r" "lr_sim (keep_failure err r) = lr_sim r"
  "lr_subs (keep_failure err r) = lr_subs r" "lr_done (keep_failure err r) = lr_done r"
  "live_ok (keep_failure err r) = live_ok r"
  by (simp_all add: keep_failure_def live_ok_def sub_ok_def)

lemma finish_ok:
  assumes "finish sp ch now r = Some r'" "live_ok r"
  shows "live_ok r'" "lr_state r' = state_finished"
proof -
  have "live_ok r' \<and> lr_state r' = state_finished"
  proof (cases "lr_state r = state_finished")
    case True
    with assms show ?thesis by (simp add: finish_def)
  next
    case False
    obtain err s where f: "save_sim sp ch (set_state state_finished (lr_sim r)) = Some (err, s)"
      "lr_state r' = state_finished" "lr_finishedAt r' = Some now" "\<not> lr_ticker r'" "lr_subs r' = []"
      "quiet s (lr_sim r')" "lr_done r' = lr_done r" "lr_nextSub r' = lr_nextSub r"
      "lr_snapshotsSent r \<le> lr_snapshotsSent r'" "lr_snapshotsDropped r \<le> lr_snapshotsDropped r'"
      "\<exists>ds. lr_detached r' = lr_detached r @ ds \<and> list_all (\<lambda>d. sub_closed d \<and> sub_reason d = SubscriptionClosedRunFinished) ds \<and>
         map sub_id ds = map (\<lambda>p. sub_id (snd p)) (lr_subs r)"
      by (rule finish_spec [OF assms(1) False], rule that)
    have "keeps (set_state state_finished (lr_sim r)) s" by (rule save_sim_keeps [OF f(1)])
    then have "s_state (lr_sim r') = state_finished" "s_log (lr_sim r) \<noteq> None \<Longrightarrow> s_log (lr_sim r') \<noteq> None"
      using f(6) by (simp_all add: keeps_def set_state_def quiet_sels)
    with f assms(2) show ?thesis by (auto simp: live_ok_def list_all_iff)
  qed
  then show "live_ok r'" "lr_state r' = state_finished" by simp_all
qed

lemma live_ok_sim:
  assumes "live_ok r" "keeps (lr_sim r) s"
  shows "live_ok (r\<lparr>lr_sim := s\<rparr>)"
  using assms by (auto simp: live_ok_def keeps_def sub_ok_def)

lemma live_ok_updates [simp]:
  "live_ok (r\<lparr>lr_updatedAt := i\<rparr>) = live_ok r" "live_ok (r\<lparr>lr_failure := e\<rparr>) = live_ok r"
  by (simp_all add: live_ok_def sub_ok_def)

lemma advance_ok:
  assumes "advance sp ch now r = Some r'" "live_ok r"
  shows "live_ok r'"
proof (cases "lr_state r = state_running")
  case False
  with assms show ?thesis by (auto simp: advance_def Let_def)
next
  case True
  obtain err s where st: "step_sim sp ch (lr_sim r) = Some (err, s)"
    using assms(1) True by (auto simp: advance_def Let_def split: option.splits)
  let ?q = "run_observe ObserveTick (r\<lparr>lr_updatedAt := now, lr_sim := s\<rparr>)"
  have q: "live_ok ?q"
    using live_ok_sim [of "r\<lparr>lr_updatedAt := now\<rparr>" s] assms(2) step_sim_keeps [OF st] by simp
  show ?thesis
  proof (cases err)
    case (Some e)
    then have "finish sp ch now (?q\<lparr>lr_failure := Some e\<rparr>) = Some r'"
      using assms(1) True st by (simp add: advance_def Let_def)
    from finish_ok(1) [OF this] q show ?thesis by simp
  next
    case None
    define p where "p = publish sp now (run_observe (ObservePending (rq_RunID (lr_req ?q)) (pending_of sp (lr_sim ?q))) ?q)"
    have p: "live_ok p" unfolding p_def using q by (intro live_ok_publish) simp
    have "(if rq_MaxTicks (lr_req p) > 0 \<and> s_tick (lr_sim p) \<ge> rq_MaxTicks (lr_req p)
         then finish sp ch now p else Some p) = Some r'"
      using assms(1) True st None by (auto simp: advance_def Let_def p_def split: if_splits)
    with p finish_ok(1) [of sp ch now p r'] show ?thesis by (auto split: if_splits)
  qed
qed

lemma sub_ok_nextSub:
  "sub_ok r (i, s) \<Longrightarrow> lr_nextSub r \<le> lr_nextSub t \<Longrightarrow> lr_snapSeq t = lr_snapSeq r \<Longrightarrow> sub_ok t (i, s)"
  by (auto simp: sub_ok_def)

lemma subscribe_ok:
  assumes "subscribe_cmd sp buffer from catchup now r = Some (w, r')" "live_ok r" "1 \<le> buffer" "\<not> lr_done r"
  shows "live_ok r'"
proof -
  obtain e missed where sn: "(if catchup then since_of sp from (lr_sim r) else Some (None, [])) = Some (e, missed)"
    using assms(1) by (auto simp: subscribe_cmd_def split: option.splits)
  let ?q = "run_observe ObservePublish (r\<lparr>lr_snapshotsSent := lr_snapshotsSent r + 1\<rparr>)"
  let ?s = "\<lparr>sub_id = 0, sub_ch = [frame_of sp now r], sub_buffer = buffer, sub_closed = False,
                      sub_reason = SubscriptionClosedRunFinished\<rparr>"
  have q: "live_ok ?q" using assms(2) by (auto simp: live_ok_def sub_ok_def)
  show ?thesis
  proof (cases e)
    case (Some err)
    with sn assms(1,2) show ?thesis by (simp add: subscribe_cmd_def)
  next
    case None
    show ?thesis
    proof (cases "lr_state r = state_finished")
      case True
      then have "r' = ?q\<lparr>lr_detached := lr_detached r @ [?s\<lparr>sub_closed := True\<rparr>]\<rparr>"
        using sn assms(1) None by (simp add: subscribe_cmd_def Let_def)
      with q show ?thesis by (auto simp: live_ok_def sub_ok_def)
    next
      case False
      let ?i = "lr_nextSub r + 1"
      have r': "r' = ?q\<lparr>lr_nextSub := ?i, lr_subs := lr_subs r @ [(?i, ?s\<lparr>sub_id := ?i\<rparr>)]\<rparr>"
        using sn assms(1) None False by (simp add: subscribe_cmd_def Let_def)
      have old: "list_all (sub_ok r') (lr_subs r)"
        using q by (auto simp: live_ok_def list_all_iff r' intro: sub_ok_nextSub [of ?q])
      have new: "sub_ok r' (?i, ?s\<lparr>sub_id := ?i\<rparr>)"
        using assms(2,3) by (simp add: sub_ok_def r' frames_ok_def frame_of_def live_ok_def)
      have "?i \<notin> fst ` set (lr_subs r)"
        using assms(2) by (auto simp: live_ok_def list_all_iff sub_ok_def)
      with old new q False assms(4) show ?thesis by (auto simp: r' live_ok_def)
    qed
  qed
qed

lemma remove_sub_ok: "live_ok r \<Longrightarrow> live_ok (remove_sub i r)"
  by (auto simp: remove_sub_def live_ok_def list_all_iff sub_ok_def distinct_map_filter split: option.split)

lemma receive_ok:
  assumes "receive_frame i r = (f, r')" "live_ok r"
  shows "live_ok r'"
proof (cases "\<exists>s g gs. map_of (lr_subs r) i = Some s \<and> sub_ch s = g # gs")
  case True
  then obtain s g gs where s: "map_of (lr_subs r) i = Some s" "sub_ch s = g # gs" by blast
  then have r': "r' = r\<lparr>lr_subs := map (\<lambda>(j, t). if j = i then (j, t\<lparr>sub_ch := gs\<rparr>) else (j, t)) (lr_subs r)\<rparr>"
    using assms(1) by (simp add: receive_frame_def)
  have d: "distinct (map fst (lr_subs r))" "list_all (sub_ok r) (lr_subs r)" using assms(2) by (auto simp: live_ok_def)
  have si: "t = s" if "(i, t) \<in> set (lr_subs r)" for t
    using that s(1) d(1) by (metis map_of_eq_Some_iff option.inject)
  have "sub_ok r' (if j = i then (j, t\<lparr>sub_ch := gs\<rparr>) else (j, t))" if "(j, t) \<in> set (lr_subs r)" for j t
  proof -
    have ok: "sub_ok r (j, t)" using that d(2) by (auto simp: list_all_iff)
    show ?thesis using ok si s(2) that by (auto simp: sub_ok_def r' frames_ok_def)
  qed
  then have "list_all (sub_ok r') (lr_subs r')" by (auto simp: r' list_all_iff)
  moreover have "map fst (lr_subs r') = map fst (lr_subs r)" by (auto simp: r')
  then have "distinct (map fst (lr_subs r'))" using d(1) by simp
  ultimately show ?thesis using assms(2) d by (auto simp: live_ok_def r')
next
  case False
  then show ?thesis using assms by (auto simp: receive_frame_def split: option.splits list.splits)
qed

lemma quit_ok: "live_ok r \<Longrightarrow> live_ok (quit_run sp r)"
  by (auto simp: quit_run_def live_ok_def close_subs_def stop_ticker_def close_sim_def list_all_iff Let_def
      split: option.split)

lemma set_paused_ok:
  assumes "set_paused_cmd sp ch paused now r = Some (x, r')" "live_ok r"
  shows "live_ok r'"
proof (cases "lr_state r = state_finished")
  case True
  with assms show ?thesis by (simp add: set_paused_cmd_def)
next
  case False
  let ?st = "if paused then state_paused else state_running"
  let ?r = "r\<lparr>lr_state := ?st, lr_sim := set_state ?st (lr_sim r)\<rparr>"
  have base: "live_ok ?r" using assms(2) False by (auto simp: live_ok_def sub_ok_def set_state_def state_defs)
  obtain err s where sv: "save_sim sp ch (lr_sim ?r) = Some (err, s)"
    using assms(1) False by (auto simp: set_paused_cmd_def Let_def split: option.splits)
  have "r' = publish sp now ((keep_failure err (?r\<lparr>lr_sim := s\<rparr>))\<lparr>lr_updatedAt := now\<rparr>)"
    using assms(1) False sv by (simp add: set_paused_cmd_def Let_def)
  moreover have "live_ok (?r\<lparr>lr_sim := s\<rparr>)" using live_ok_sim [OF base save_sim_keeps [OF sv]] .
  ultimately show ?thesis by (auto intro!: live_ok_publish)
qed

lemma update_controls_ok:
  assumes "update_controls_cmd c now r = Some (x, r')" "live_ok r"
  shows "live_ok r'"
proof -
  have "keeps (lr_sim r) (snd (set_controls c (lr_sim r)))"
    by (simp add: keeps_def set_controls_def Let_def split: option.split)
  from live_ok_sim [OF assms(2) this] assms show ?thesis
    by (auto simp: update_controls_cmd_def split: if_splits prod.splits sum.splits)
qed

lemma run_move_ok:
  assumes "run_move sp ch r r'" "live_ok r"
  shows "live_ok r'"
  using assms(1)
proof cases
  case (tick now)
  with assms(2) advance_ok show ?thesis by (auto simp: tick_run_def split: if_splits)
next
  case (update c now x)
  from update(2) show ?thesis by (rule do_runE) (use assms(2) update_controls_ok in blast)+
next
  case (pause paused now y)
  from pause show ?thesis by (rule do_runE) (use assms(2) set_paused_ok in blast)+
next
  case (finish now z)
  from finish show ?thesis
    by (rule do_runE) (use assms(2) finish_ok(1) in \<open>auto simp: finish_cmd_def split: option.splits\<close>)
next
  case (subscribe buffer pos catchup now w)
  from subscribe(2) show ?thesis by (rule do_runE) (use assms(2) subscribe(1) subscribe_ok in blast)+
next
  case (receive i f)
  with assms(2) receive_ok show ?thesis by blast
next
  case (unsubscribe i)
  with assms(2) remove_sub_ok [OF assms(2)] show ?thesis by (simp add: subscription_close_def)
next
  case quit
  with assms(2) quit_ok show ?thesis by blast
qed

lemma run_reach_ok: "run_reach sp ch r0 r \<Longrightarrow> live_ok r0 \<Longrightarrow> live_ok r"
  by (induction rule: run_reach.induct) (auto intro: run_move_ok)

subsection \<open>A live run drives its simulation\<close>

lemma publish_reach: "sim_reach sp ch s (lr_sim r) \<Longrightarrow> sim_reach sp ch s (lr_sim (publish sp now r))"
  using publish_spec(1) [of sp ch r now] reach_trans unfolding same_live_def by blast

lemma reach_save: "save_sim sp ch s = Some (err, t) \<Longrightarrow> sim_reach sp ch u s \<Longrightarrow> sim_reach sp ch u t"
  by (rule sim_reach.move [OF _ sim_move.save])

lemma reach_state: "sim_reach sp ch u (set_state st u)"
  by (rule sim_reach.move [OF sim_reach.start sim_move.lifecycle])

lemma finish_sim:
  assumes "finish sp ch now r = Some r'"
  shows "sim_reach sp ch (lr_sim r) (lr_sim r')" "lr_failure r' = None \<Longrightarrow> lr_failure r = None" "lr_done r' = lr_done r"
    "lr_req r' = lr_req r"
proof -
  have "sim_reach sp ch (lr_sim r) (lr_sim r') \<and> (lr_failure r' = None \<longrightarrow> lr_failure r = None) \<and>
    lr_done r' = lr_done r \<and> lr_req r' = lr_req r"
  proof (cases "lr_state r = state_finished")
    case True
    with assms show ?thesis by (simp add: finish_def sim_reach.start)
  next
    case False
    obtain err s where f: "save_sim sp ch (set_state state_finished (lr_sim r)) = Some (err, s)"
      "sim_reach sp ch s (lr_sim r')" "lr_failure r' = (if lr_failure r = None then err else lr_failure r)"
      "lr_done r' = lr_done r" "lr_req r' = lr_req r" by (rule finish_spec [OF assms False], rule that)
    with reach_trans [OF reach_save [OF f(1) reach_state] f(2)] show ?thesis by auto
  qed
  then show "sim_reach sp ch (lr_sim r) (lr_sim r')" "lr_failure r' = None \<Longrightarrow> lr_failure r = None"
    "lr_done r' = lr_done r" "lr_req r' = lr_req r" by blast+
qed

text \<open>A tick of a running run that succeeds: one step of the simulation, a frame, and the end of the run when it is due.\<close>

lemma advance_running:
  assumes "lr_state r = state_running" "step_sim sp ch (lr_sim r) = Some (None, s)"
  obtains p where "advance sp ch now r
      = (if rq_MaxTicks (lr_req r) > 0 \<and> s_tick s \<ge> rq_MaxTicks (lr_req r) then finish sp ch now p else Some p)"
    "quiet s (lr_sim p)" "sim_reach sp ch s (lr_sim p)" "lr_failure p = lr_failure r" "lr_done p = lr_done r"
    "lr_req p = lr_req r" "lr_state p = state_running" "lr_ticker p = lr_ticker r" "lr_finishedAt p = lr_finishedAt r"
    "length (lr_subs p) = length (lr_subs r)"
proof -
  let ?q = "run_observe ObserveTick (r\<lparr>lr_updatedAt := now, lr_sim := s\<rparr>)"
  let ?m = "ObservePending (rq_RunID (lr_req ?q)) (pending_of sp (lr_sim ?q))"
  define p where "p = publish sp now (run_observe ?m ?q)"
  have sim: "lr_sim (run_observe ?m ?q) = observe_sim ?m (observe_sim ObserveTick s)" by simp
  have "quiet s (lr_sim (run_observe ?m ?q))" unfolding sim by (intro quiet_trans [OF quiet_observe quiet_observe])
  then have q: "quiet s (lr_sim p)"
    using publish_spec(1) [of sp ch "run_observe ?m ?q" now] quiet_trans unfolding p_def same_live_def by blast
  have "sim_reach sp ch s (lr_sim (run_observe ?m ?q))" unfolding sim by (intro reach_observe sim_reach.start)
  then have rc: "sim_reach sp ch s (lr_sim p)" unfolding p_def by (rule publish_reach)
  show ?thesis
    by (rule that [OF _ q rc]) (use assms in \<open>auto simp: advance_def Let_def p_def publish_spec(2)\<close>)
qed

lemma advance_failed:
  assumes "lr_state r = state_running" "step_sim sp ch (lr_sim r) = Some (Some e, s)" "advance sp ch now r = Some r'"
  shows "lr_failure r' \<noteq> None"
proof
  assume none: "lr_failure r' = None"
  have "finish sp ch now ((run_observe ObserveTick (r\<lparr>lr_updatedAt := now, lr_sim := s\<rparr>))\<lparr>lr_failure := Some e\<rparr>) = Some r'"
    using assms by (simp add: advance_def Let_def)
  from finish_sim(2) [OF this none] show False by simp
qed

lemma advance_sim:
  assumes "advance sp ch now r = Some r'" "room (lr_sim r)" "lr_failure r' = None"
  shows "sim_reach sp ch (lr_sim r) (lr_sim r') \<and> lr_failure r = None \<and> lr_done r' = lr_done r \<and> lr_req r' = lr_req r"
proof (cases "lr_state r = state_running")
  case False
  with assms show ?thesis by (auto simp: advance_def Let_def sim_reach.start)
next
  case True
  obtain err s where st: "step_sim sp ch (lr_sim r) = Some (err, s)"
    using assms(1) True by (auto simp: advance_def Let_def split: option.splits)
  have ok: "step_sim sp ch (lr_sim r) = Some (None, s)"
    using advance_failed [OF True _ assms(1)] st assms(3) by (cases err) auto
  obtain p where p: "advance sp ch now r
      = (if rq_MaxTicks (lr_req r) > 0 \<and> s_tick s \<ge> rq_MaxTicks (lr_req r) then finish sp ch now p else Some p)"
    "sim_reach sp ch s (lr_sim p)" "lr_failure p = lr_failure r" "lr_done p = lr_done r" "lr_req p = lr_req r"
    by (rule advance_running [OF True ok, of now], rule that)
  have rp: "sim_reach sp ch (lr_sim r) (lr_sim p)"
    by (rule reach_trans [OF sim_reach.move [OF sim_reach.start sim_move.tick [OF assms(2) ok]] p(2)])
  consider "finish sp ch now p = Some r'" | "p = r'"
    using assms(1) unfolding p(1) by (meson option.inject)
  then show ?thesis
  proof cases
    case 1
    note f = finish_sim [OF 1]
    have "lr_failure r = None" using f(2) [OF assms(3)] p(3) by simp
    with reach_trans [OF rp f(1)] f(3,4) p(4,5) show ?thesis by simp
  next
    case 2
    with rp p assms(3) show ?thesis by simp
  qed
qed

lemma set_paused_sim:
  assumes "set_paused_cmd sp ch paused now r = Some (x, r')" "lr_failure r' = None"
  shows "sim_reach sp ch (lr_sim r) (lr_sim r') \<and> lr_failure r = None \<and> lr_done r' = lr_done r \<and> lr_req r' = lr_req r"
proof (cases "lr_state r = state_finished")
  case True
  with assms show ?thesis by (auto simp: set_paused_cmd_def sim_reach.start)
next
  case False
  let ?st = "if paused then state_paused else state_running"
  let ?r = "r\<lparr>lr_state := ?st, lr_sim := set_state ?st (lr_sim r)\<rparr>"
  obtain err s where sv: "save_sim sp ch (set_state ?st (lr_sim r)) = Some (err, s)"
    using assms(1) False by (auto simp: set_paused_cmd_def Let_def split: option.splits)
  define q where "q = (keep_failure err (?r\<lparr>lr_sim := s\<rparr>))\<lparr>lr_updatedAt := now\<rparr>"
  have r': "r' = publish sp now q" using assms(1) False sv by (simp add: set_paused_cmd_def Let_def q_def)
  have "sim_reach sp ch (lr_sim r) (lr_sim q)" using reach_save [OF sv reach_state] by (simp add: q_def)
  from publish_reach [OF this, of now] assms(2) show ?thesis
    by (auto simp: r' q_def keep_failure_def split: if_splits)
qed

lemma run_move_sim:
  assumes "run_move sp ch r r'" "lr_failure r' = None" "\<not> lr_done r'"
  shows "sim_reach sp ch (lr_sim r) (lr_sim r') \<and> lr_failure r = None \<and> \<not> lr_done r \<and> lr_req r' = lr_req r"
  using assms(1)
proof cases
  case (tick now)
  with assms(2,3) advance_sim [of sp ch now r r'] show ?thesis
    by (auto simp: tick_run_def sim_reach.start split: if_splits)
next
  case (update c now x)
  from update(2) show ?thesis
  proof (cases rule: do_runE)
    case (2 y)
    obtain res s where sc: "set_controls c (lr_sim r) = (res, s)" by (cases "set_controls c (lr_sim r)")
    have "sim_reach sp ch (lr_sim r) s"
    proof (cases res)
      case (Inl e)
      with sc show ?thesis by (auto simp: set_controls_def Let_def sim_reach.start split: option.splits)
    next
      case (Inr n)
      show ?thesis
        by (rule sim_reach.move [OF sim_reach.start sim_move.control [OF update(1) sc [unfolded Inr]]])
    qed
    with 2 sc assms(2,3) show ?thesis
      by (auto simp: update_controls_cmd_def sim_reach.start split: if_splits sum.splits)
  qed (use assms in auto)
next
  case (pause paused now y)
  from pause show ?thesis
  proof (cases rule: do_runE)
    case (2 y)
    from set_paused_sim [OF 2(2) assms(2)] 2(1) show ?thesis by simp
  qed (use assms in auto)
next
  case (finish now z)
  from finish show ?thesis
  proof (cases rule: do_runE)
    case (2 y)
    then have "Engine.finish sp ch now r = Some r'" by (auto simp: finish_cmd_def split: option.splits)
    with finish_sim [OF this] assms(2,3) 2 show ?thesis by auto
  qed (use assms in auto)
next
  case (subscribe buffer pos catchup now w)
  from subscribe(2) show ?thesis
  proof (cases rule: do_runE)
    case (2 y)
    have ob: "sim_reach sp ch (lr_sim r) (observe_sim ObservePublish (lr_sim r))" by (rule reach_observe [OF sim_reach.start])
    from 2 assms(2,3) ob show ?thesis
      by (auto simp: subscribe_cmd_def Let_def sim_reach.start split: if_splits option.splits)
  qed (use assms in auto)
next
  case (receive i f)
  with assms(2,3) show ?thesis by (auto simp: receive_frame_def sim_reach.start split: option.splits list.splits)
next
  case (unsubscribe i)
  with assms(2,3) show ?thesis
    by (auto simp: subscription_close_def remove_sub_def sim_reach.start split: if_splits option.splits)
next
  case quit
  with assms(3) show ?thesis by (simp add: quit_run_def Let_def)
qed

lemma run_reach_sim:
  assumes "run_reach sp ch r0 r" "lr_failure r = None" "\<not> lr_done r"
  shows "sim_reach sp ch (lr_sim r0) (lr_sim r) \<and> lr_req r = lr_req r0"
  using assms
proof (induction rule: run_reach.induct)
  case start
  then show ?case by (simp add: sim_reach.start)
next
  case (move r r')
  from run_move_sim [OF move.hyps(2) move.prems] move.IH reach_trans show ?case by metis
qed

end
