(* ===== verification/Registry.thy ===== *)
theory Registry
  imports Engine
begin

text \<open>
  The registry of \<^verbatim>\<open>internal/engine/engine.go\<close>: it owns every live run, opens their logs, starts,
  recovers and shuts them down. A method that calls \<^verbatim>\<open>do\<close> on a run is a function of the registry
  that changes that run's entry; \<open>None\<close> is a panic or a call that does not return.
\<close>

record ('l, 'r, 'c) registry =
  g_interval :: int
  g_snapshot :: int
  g_corrupt :: corrupt_policy
  g_metrics :: bool
  g_runs :: "(string \<times> ('l, 'r, 'c) live_run) list"
  g_order :: "string list"
  g_nextID :: int
  g_closed :: bool

text \<open>The options; the clock, the opener and the tracer are not state here.\<close>

datatype registry_option =
    WithTickInterval int
  | WithSnapshotEvery int
  | WithCorruptPolicy corrupt_policy
  | WithMetrics bool

fun apply_option :: "registry_option \<Rightarrow> ('l, 'r, 'c) registry \<Rightarrow> ('l, 'r, 'c) registry" where
  "apply_option (WithTickInterval d) g = g\<lparr>g_interval := d\<rparr>"
| "apply_option (WithSnapshotEvery n) g = g\<lparr>g_snapshot := n\<rparr>"
| "apply_option (WithCorruptPolicy p) g = g\<lparr>g_corrupt := p\<rparr>"
| "apply_option (WithMetrics m) g = g\<lparr>g_metrics := m\<rparr>"

definition new_registry :: "registry_option list \<Rightarrow> ('l, 'r, 'c) registry" where
  "new_registry opts =
     fold apply_option opts
       \<lparr>g_interval = default_tick_interval, g_snapshot = default_snapshot_every, g_corrupt = RefuseCorrupt,
        g_metrics = False, g_runs = [], g_order = [], g_nextID = 0, g_closed = False\<rparr>"

subsection \<open>Opening logs\<close>

definition open_history ::
  "('fs, 'l, 'r) spine \<Rightarrow> ('l, 'r) log_opener \<Rightarrow> corrupt_policy \<Rightarrow> string \<Rightarrow>
   (go_error + ('l, 'r) evlog) \<times> recovery" where
  "open_history sp opn policy runID =
     (case opn runID of
        (Inl err, rc) \<Rightarrow> (Inl (Errorf [T ''open log for run '', T runID, T '': '', W err]), rc)
      | (Inr L, rc) \<Rightarrow>
          (case rc_Corrupt rc of
             None \<Rightarrow> (Inr L, rc)
           | Some e \<Rightarrow>
               if policy = RefuseCorrupt then
                 (Inl (Errorf [W (Sentinel ErrCorruptLog), T '': run '', T runID, T '' discarded '',
                               D (rc_Discarded rc), T '' bytes: '', W e]), rc)
               else case rewind sp rc L of
                 (Some err, _) \<Rightarrow>
                   (Inl (Errorf [W (Sentinel ErrCorruptLog), T '': run '', T runID, T '' cannot continue: '',
                                 W err]), rc)
               | (None, L) \<Rightarrow> (Inr L, rc)))"

definition open_run_log ::
  "('fs, 'l, 'r) spine \<Rightarrow> ('l, 'r) log_opener \<Rightarrow> corrupt_policy \<Rightarrow> string \<Rightarrow>
   (go_error + ('l, 'r) evlog) \<times> recovery" where
  "open_run_log sp opn policy runID =
     (case open_history sp opn policy runID of
        (Inl err, rc) \<Rightarrow> (Inl err, rc)
      | (Inr L, rc) \<Rightarrow>
          if log_next sp L > 0 then
            (Inl (Errorf [W (Sentinel ErrRunHasHistory), T '': '', T runID, T '' holds '', D (log_next sp L),
                          T '' records'']), rc)
          else (Inr L, rc))"

definition generated_id :: "int \<Rightarrow> string" where
  "generated_id n = ''run-'' @ fmt_0d 4 n"

text \<open>The search for an unused ID: the ID and the counter it leaves.\<close>

partial_function (option) generate_id ::
  "(string \<times> ('l, 'r, 'c) live_run) list \<Rightarrow> int \<Rightarrow> (string \<times> int) option" where
  "generate_id runs nextID =
     (let n = nextID + 1; ident = generated_id n
      in if map_of runs ident = None then Some (ident, n) else generate_id runs n)"

declare generate_id.simps [code]

fun claim_loop ::
  "nat \<Rightarrow> ('fs, 'l, 'r) spine \<Rightarrow> ('l, 'r) log_opener \<Rightarrow> corrupt_policy \<Rightarrow>
   (string \<times> ('l, 'r, 'c) live_run) list \<Rightarrow> go_error option \<Rightarrow> int \<Rightarrow>
   ((go_error + string \<times> ('l, 'r) evlog \<times> recovery) \<times> int) option" where
  "claim_loop 0 sp opn policy runs lastErr nextID =
     Some (Inl (Errorf [T ''no unused run id after '', D (int max_id_attempts), T '' attempts: '',
                        case lastErr of None \<Rightarrow> T ''%!w(<nil>)'' | Some e \<Rightarrow> W e]), nextID)"
| "claim_loop (Suc k) sp opn policy runs lastErr nextID =
     (case generate_id runs nextID of
        None \<Rightarrow> None
      | Some (ident, nextID) \<Rightarrow>
          (case open_run_log sp opn policy ident of
             (Inr L, rc) \<Rightarrow> Some (Inr (ident, L, rc), nextID)
           | (Inl err, rc) \<Rightarrow>
               if errors_is err (Sentinel ErrRunHasHistory)
               then claim_loop k sp opn policy runs (Some err) nextID
               else Some (Inl err, nextID)))"

definition claim_log ::
  "('fs, 'l, 'r) spine \<Rightarrow> ('l, 'r) log_opener \<Rightarrow> string \<Rightarrow> bool \<Rightarrow> ('l, 'r, 'c) registry \<Rightarrow>
   ((go_error + string \<times> ('l, 'r) evlog \<times> recovery) \<times> int) option" where
  "claim_log sp opn runID generated g =
     (if \<not> generated then
        (case open_run_log sp opn (g_corrupt g) runID of
           (Inl err, rc) \<Rightarrow> Some (Inl err, g_nextID g)
         | (Inr L, rc) \<Rightarrow> Some (Inr (runID, L, rc), g_nextID g))
      else claim_loop max_id_attempts sp opn (g_corrupt g) (g_runs g) None (g_nextID g))"

subsection \<open>Commands to a run\<close>

definition lookup_run :: "string \<Rightarrow> ('l, 'r, 'c) registry \<Rightarrow> go_error + ('l, 'r, 'c) live_run" where
  "lookup_run runID g =
     (if g_closed g then Inl (Sentinel ErrRegistryDown)
      else case map_of (g_runs g) runID of
        None \<Rightarrow> Inl (Errorf [W (Sentinel ErrRunNotFound), T '': '', T runID])
      | Some lr \<Rightarrow> Inr lr)"

definition put_run :: "string \<Rightarrow> ('l, 'r, 'c) live_run \<Rightarrow> ('l, 'r, 'c) registry \<Rightarrow> ('l, 'r, 'c) registry" where
  "put_run runID lr g = g\<lparr>g_runs := map (\<lambda>(k, x). if k = runID then (k, lr) else (k, x)) (g_runs g)\<rparr>"

definition on_run ::
  "(('l, 'r, 'c) live_run \<Rightarrow> ((go_error + 'a) \<times> ('l, 'r, 'c) live_run) option) \<Rightarrow> string \<Rightarrow>
   ('l, 'r, 'c) registry \<Rightarrow> ((go_error + 'a) \<times> ('l, 'r, 'c) registry) option" where
  "on_run fn runID g =
     (case lookup_run runID g of
        Inl err \<Rightarrow> Some (Inl err, g)
      | Inr lr \<Rightarrow>
          (case do_run fn lr of
             None \<Rightarrow> None
           | Some (Inl err, lr) \<Rightarrow> Some (Inl err, put_run runID lr g)
           | Some (Inr out, lr) \<Rightarrow> Some (out, put_run runID lr g)))"

definition query_run ::
  "(('l, 'r, 'c) live_run \<Rightarrow> 'a) \<Rightarrow> string \<Rightarrow> ('l, 'r, 'c) registry \<Rightarrow> go_error + 'a" where
  "query_run read runID g =
     (case lookup_run runID g of
        Inl err \<Rightarrow> Inl err
      | Inr lr \<Rightarrow> if lr_done lr then Inl (Sentinel ErrRunClosed) else Inr (read lr))"

definition get_run :: "string \<Rightarrow> ('l, 'r, 'c) registry \<Rightarrow> go_error + run_view" where
  "get_run runID g = query_run view_of runID g"

definition get_snapshot ::
  "('fs, 'l, 'r) spine \<Rightarrow> int \<Rightarrow> string \<Rightarrow> ('l, 'r, 'c) registry \<Rightarrow> go_error + garden_snapshot" where
  "get_snapshot sp now runID g = query_run (frame_of sp now) runID g"

definition get_telemetry ::
  "('fs, 'l, 'r) spine \<Rightarrow> int \<Rightarrow> string \<Rightarrow> ('l, 'r, 'c) registry \<Rightarrow> go_error + telemetry_snapshot" where
  "get_telemetry sp now runID g = query_run (telemetry_of sp now) runID g"

definition update_controls ::
  "int \<Rightarrow> string \<Rightarrow> controls \<Rightarrow> ('l, 'r, 'c) registry \<Rightarrow>
   ((go_error + control_revision) \<times> ('l, 'r, 'c) registry) option" where
  "update_controls now runID c g = on_run (update_controls_cmd c now) runID g"

definition set_paused ::
  "('fs, 'l, 'r) spine \<Rightarrow> 'c chain_ops \<Rightarrow> int \<Rightarrow> string \<Rightarrow> bool \<Rightarrow> ('l, 'r, 'c) registry \<Rightarrow>
   ((go_error + run_view) \<times> ('l, 'r, 'c) registry) option" where
  "set_paused sp ch now runID paused g = on_run (set_paused_cmd sp ch paused now) runID g"

definition pause_run where "pause_run sp ch now runID g = set_paused sp ch now runID True g"

definition resume_run where "resume_run sp ch now runID g = set_paused sp ch now runID False g"

definition finish_run ::
  "('fs, 'l, 'r) spine \<Rightarrow> 'c chain_ops \<Rightarrow> int \<Rightarrow> string \<Rightarrow> ('l, 'r, 'c) registry \<Rightarrow>
   ((go_error + run_summary) \<times> ('l, 'r, 'c) registry) option" where
  "finish_run sp ch now runID g =
     on_run (\<lambda>r. map_option (\<lambda>(x, r). (Inr x, r)) (finish_cmd sp ch now r)) runID g"

definition subscribe_run ::
  "('fs, 'l, 'r) spine \<Rightarrow> int \<Rightarrow> string \<Rightarrow> int \<Rightarrow> int \<Rightarrow> bool \<Rightarrow> ('l, 'r, 'c) registry \<Rightarrow>
   ((go_error + subscription \<times> event list) \<times> ('l, 'r, 'c) registry) option" where
  "subscribe_run sp now runID buffer from catchup g =
     on_run (subscribe_cmd sp (if buffer \<le> 0 then default_subscriber_buffer else buffer) from catchup now) runID g"

definition subscribe where
  "subscribe sp now runID buffer g =
     map_option (\<lambda>(x, g). (map_sum id fst x, g)) (subscribe_run sp now runID buffer 0 False g)"

definition resume_stream where
  "resume_stream sp now runID buffer from g = subscribe_run sp now runID buffer from True g"

definition list_runs :: "('l, 'r, 'c) registry \<Rightarrow> run_view list" where
  "list_runs g =
     map view_of (filter (\<lambda>lr. \<not> lr_done lr) (List.map_filter (map_of (g_runs g)) (g_order g)))"

definition close_registry ::
  "('fs, 'l, 'r) spine \<Rightarrow> ('l, 'r, 'c) registry \<Rightarrow> ('l, 'r, 'c) live_run list \<times> ('l, 'r, 'c) registry" where
  "close_registry sp g =
     (if g_closed g then ([], g)
      else (map (\<lambda>(k, lr). quit_run sp lr) (g_runs g), g\<lparr>g_closed := True, g_runs := [], g_order := []\<rparr>))"

subsection \<open>Starting and recovering\<close>

definition new_live_run ::
  "start_request \<Rightarrow> ('l, 'r, 'c) sim \<Rightarrow> run_state \<Rightarrow> int \<Rightarrow> recovery \<Rightarrow> bool \<Rightarrow> ('l, 'r, 'c) live_run" where
  "new_live_run req s st now rc resumed =
     \<lparr>lr_req = req, lr_sim = s, lr_state = st, lr_startedAt = now, lr_updatedAt = now, lr_finishedAt = None,
      lr_failure = None, lr_recovered = rc, lr_resumed = resumed, lr_ticker = True, lr_subs = [], lr_nextSub = 0,
      lr_snapSeq = 0, lr_snapshotsSent = 0, lr_snapshotsDropped = 0, lr_detached = [], lr_done = False\<rparr>"

definition add_run :: "string \<Rightarrow> ('l, 'r, 'c) live_run \<Rightarrow> ('l, 'r, 'c) registry \<Rightarrow> ('l, 'r, 'c) registry" where
  "add_run runID lr g =
     g\<lparr>g_runs := filter (\<lambda>p. fst p \<noteq> runID) (g_runs g) @ [(runID, lr)], g_order := g_order g @ [runID]\<rparr>"

definition fill_defaults :: "('l, 'r, 'c) registry \<Rightarrow> start_request \<Rightarrow> start_request" where
  "fill_defaults g req =
     (let req = (if rq_TickInterval req = 0 then req\<lparr>rq_TickInterval := g_interval g\<rparr> else req)
      in if rq_SnapshotEvery req = 0 then req\<lparr>rq_SnapshotEvery := g_snapshot g\<rparr> else req)"

definition request_config :: "start_request \<Rightarrow> bool \<Rightarrow> sim_config" where
  "request_config req m =
     \<lparr>c_RunID = rq_RunID req, c_Seed = rq_Seed req, c_Organisms = rq_Organisms req,
      c_Controls = rq_Controls req, c_DuplicateEvery = rq_DuplicateEvery req,
      c_SnapshotEvery = rq_SnapshotEvery req, c_MaxTicks = rq_MaxTicks req,
      c_TickInterval = rq_TickInterval req, c_Metrics = m\<rparr>"

definition start_run ::
  "('fs, 'l, 'r) spine \<Rightarrow> 'c chain_ops \<Rightarrow> ('l, 'r) log_opener \<Rightarrow> int \<Rightarrow> start_request \<Rightarrow>
   ('l, 'r, 'c) registry \<Rightarrow> ((go_error + run_view) \<times> ('l, 'r, 'c) registry) option" where
  "start_run sp ch opn now req0 g =
     (case validate_request req0 of
        Some err \<Rightarrow> Some (Inl (Errorf [T ''invalid start run request: '', W err]), g)
      | None \<Rightarrow>
        let req = fill_defaults g req0; generated = (rq_RunID req = '''')
        in if g_closed g then Some (Inl (Sentinel ErrRegistryDown), g)
           else if \<not> generated \<and> map_of (g_runs g) (rq_RunID req) \<noteq> None
           then Some (Inl (Errorf [W (Sentinel ErrRunExists), T '': '', T (rq_RunID req)]), g)
           else case claim_log sp opn (rq_RunID req) generated g of
             None \<Rightarrow> None
           | Some (Inl err, n) \<Rightarrow> Some (Inl err, g\<lparr>g_nextID := n\<rparr>)
           | Some (Inr (runID, L, rc), n) \<Rightarrow>
             (let g = g\<lparr>g_nextID := n\<rparr>; req = req\<lparr>rq_RunID := runID\<rparr>
              in case new_sim sp ch (request_config req (g_metrics g)) (Some L) of
                   Inl err \<Rightarrow> Some (Inl err, g)
                 | Inr s \<Rightarrow>
                   (case save_sim sp ch (set_state state_running s) of
                      None \<Rightarrow> None
                    | Some (Some err, s) \<Rightarrow>
                        Some (Inl (Errorf [T ''record run '', T runID, T '': '', W err]), g)
                    | Some (None, s) \<Rightarrow>
                        (let g = add_run runID (new_live_run req s state_running now rc False) g
                         in Some (get_run runID g, g)))))"

definition recover_one ::
  "('fs, 'l, 'r) spine \<Rightarrow> 'c chain_ops \<Rightarrow> ('l, 'r) log_opener \<Rightarrow> int \<Rightarrow> string \<Rightarrow>
   ('l, 'r, 'c) registry \<Rightarrow> ((go_error + run_view option) \<times> ('l, 'r, 'c) registry) option" where
  "recover_one sp ch opn now runID g =
     (if g_closed g then Some (Inl (Sentinel ErrRegistryDown), g)
      else if map_of (g_runs g) runID \<noteq> None
      then Some (Inl (Errorf [T ''recover '', T runID, T '': '', W (Sentinel ErrRunExists)]), g)
      else case open_history sp opn (g_corrupt g) runID of
        (Inl err, rc) \<Rightarrow> Some (Inl (Errorf [T ''recover '', T runID, T '': '', W err]), g)
      | (Inr L, rc) \<Rightarrow>
          (case resume_sim sp ch runID (Some L) (g_metrics g) of
             None \<Rightarrow> None
           | Some (Inl err) \<Rightarrow> Some (Inl err, g)
           | Some (Inr (s, sn)) \<Rightarrow>
               if sn_State sn = state_finished then Some (Inr None, g)
               else
                 (let req = \<lparr>rq_RunID = runID, rq_Seed = sn_Seed sn, rq_Organisms = int (length (sn_Organisms sn)),
                             rq_Controls = sn_Controls sn, rq_TickInterval = sn_TickInterval sn,
                             rq_MaxTicks = sn_MaxTicks sn, rq_DuplicateEvery = sn_DuplicateEvery sn,
                             rq_SnapshotEvery = g_snapshot g\<rparr>;
                      req = (if rq_TickInterval req \<le> 0 then req\<lparr>rq_TickInterval := g_interval g\<rparr> else req);
                      st = (if sn_State sn \<noteq> state_paused then state_running else sn_State sn);
                      g = add_run runID (new_live_run req (set_state st s) st now rc True) g
                  in Some (map_sum id Some (get_run runID g), g))))"

fun recover_runs ::
  "('fs, 'l, 'r) spine \<Rightarrow> 'c chain_ops \<Rightarrow> ('l, 'r) log_opener \<Rightarrow> int \<Rightarrow> string list \<Rightarrow> run_view list \<Rightarrow>
   go_error list \<Rightarrow> ('l, 'r, 'c) registry \<Rightarrow>
   (run_view list \<times> go_error option \<times> ('l, 'r, 'c) registry) option" where
  "recover_runs sp ch opn now [] revived errs g = Some (revived, errors_join errs, g)"
| "recover_runs sp ch opn now (ident # ids) revived errs g =
     (case recover_one sp ch opn now ident g of
        None \<Rightarrow> None
      | Some (Inl err, g) \<Rightarrow> recover_runs sp ch opn now ids revived (errs @ [err]) g
      | Some (Inr None, g) \<Rightarrow> recover_runs sp ch opn now ids revived errs g
      | Some (Inr (Some run), g) \<Rightarrow> recover_runs sp ch opn now ids (revived @ [run]) errs g)"

definition recover where
  "recover sp ch opn now runIDs g = recover_runs sp ch opn now runIDs [] [] g"

text \<open>A tick of the clock, delivered to one run.\<close>

definition tick_registry ::
  "('fs, 'l, 'r) spine \<Rightarrow> 'c chain_ops \<Rightarrow> int \<Rightarrow> string \<Rightarrow> ('l, 'r, 'c) registry \<Rightarrow> ('l, 'r, 'c) registry option" where
  "tick_registry sp ch now runID g =
     (case map_of (g_runs g) runID of
        None \<Rightarrow> Some g
      | Some lr \<Rightarrow> map_option (\<lambda>lr. put_run runID lr g) (tick_run sp ch now lr))"

end
