(* ===== verification/Engine_Runs.thy ===== *)
theory Engine_Runs
  imports Live_Run Registry
begin

text \<open>
  Runs of the engine from their start: what \<^verbatim>\<open>StartRun\<close> builds, what every run it starts keeps,
  how a frame relates to the log, and that a bounded run ends.
\<close>

subsection \<open>Starting\<close>

lemma fill_defaults_sels [simp]:
  "rq_RunID (fill_defaults g req) = rq_RunID req" "rq_Organisms (fill_defaults g req) = rq_Organisms req"
  "rq_Controls (fill_defaults g req) = rq_Controls req" "rq_Seed (fill_defaults g req) = rq_Seed req"
  "rq_MaxTicks (fill_defaults g req) = rq_MaxTicks req" "rq_DuplicateEvery (fill_defaults g req) = rq_DuplicateEvery req"
  by (simp_all add: fill_defaults_def Let_def)

lemma map_of_add_run [simp]: "map_of (g_runs (add_run runID lr g)) runID = Some lr"
proof -
  have "map_of (filter (\<lambda>p. fst p \<noteq> runID) (g_runs g)) runID = None"
    by (auto simp: map_of_eq_None_iff)
  then show ?thesis by (simp add: add_run_def map_add_def)
qed

lemma get_run_add [simp]:
  "\<not> g_closed g \<Longrightarrow> \<not> lr_done lr \<Longrightarrow> get_run runID (add_run runID lr g) = Inr (view_of lr)"
  using map_of_add_run [of runID lr g]
  by (simp add: get_run_def query_run_def lookup_run_def) (simp add: add_run_def)

lemma start_run_ok:
  assumes "start_run sp ch opn now req g = Some (Inr v, g')"
  obtains runID L rc n s0 s where "validate_request req = None" "\<not> g_closed g"
    "claim_log sp opn (rq_RunID req) (rq_RunID req = '''') g = Some (Inr (runID, L, rc), n)"
    "new_sim sp ch (request_config ((fill_defaults g req)\<lparr>rq_RunID := runID\<rparr>) (g_metrics g)) (Some L) = Inr s0"
    "save_sim sp ch (set_state state_running s0) = Some (None, s)"
    "g' = add_run runID (new_live_run ((fill_defaults g req)\<lparr>rq_RunID := runID\<rparr>) s state_running now rc False)
            (g\<lparr>g_nextID := n\<rparr>)"
    "v = view_of (new_live_run ((fill_defaults g req)\<lparr>rq_RunID := runID\<rparr>) s state_running now rc False)"
proof -
  have val: "validate_request req = None" and open': "\<not> g_closed g"
    using assms by (auto simp: start_run_def Let_def split: option.splits if_splits)
  then obtain runID L rc n where cl: "claim_log sp opn (rq_RunID req) (rq_RunID req = '''') g = Some (Inr (runID, L, rc), n)"
    using assms by (auto simp: start_run_def Let_def split: option.splits sum.splits prod.splits if_splits)
  let ?q = "(fill_defaults g req)\<lparr>rq_RunID := runID\<rparr>"
  obtain s0 where s0: "new_sim sp ch (request_config ?q (g_metrics g)) (Some L) = Inr s0"
    using assms val open' cl by (auto simp: start_run_def Let_def split: sum.splits if_splits)
  obtain s where s: "save_sim sp ch (set_state state_running s0) = Some (None, s)"
    using assms val open' cl s0 by (auto simp: start_run_def Let_def split: option.splits if_splits)
  show ?thesis
    by (rule that [OF val open' cl s0 s])
       (use assms val open' cl s0 s in \<open>auto simp: start_run_def Let_def new_live_run_def split: if_splits\<close>)
qed

lemma new_live_run_ok:
  assumes "s_state s = st" "st \<in> {state_running, state_paused}" "s_log s \<noteq> None"
  shows "live_ok (new_live_run req s st now rc resumed)"
  using assms by (auto simp: live_ok_def new_live_run_def state_defs)

lemma started_live_ok:
  assumes "start_run sp ch opn now req g = Some (Inr v, g')" "map_of (g_runs g') (vw_RunID v) = Some r0"
  shows "live_ok r0" "lr_failure r0 = None" "\<not> lr_done r0" "lr_state r0 = state_running" "lr_ticker r0"
    "v = view_of r0"
proof -
  obtain runID L rc n s0 s where st: "new_sim sp ch (request_config ((fill_defaults g req)\<lparr>rq_RunID := runID\<rparr>) (g_metrics g)) (Some L) = Inr s0"
    "save_sim sp ch (set_state state_running s0) = Some (None, s)"
    "g' = add_run runID (new_live_run ((fill_defaults g req)\<lparr>rq_RunID := runID\<rparr>) s state_running now rc False)
            (g\<lparr>g_nextID := n\<rparr>)"
    "v = view_of (new_live_run ((fill_defaults g req)\<lparr>rq_RunID := runID\<rparr>) s state_running now rc False)"
    by (rule start_run_ok [OF assms(1)], rule that)
  have "vw_RunID v = runID" by (simp add: st(4) view_of_def new_live_run_def)
  then have r0: "r0 = new_live_run ((fill_defaults g req)\<lparr>rq_RunID := runID\<rparr>) s state_running now rc False"
    using assms(2) st(3) by simp
  have "s_log (set_state state_running s0) \<noteq> None"
    using st(2) by (auto simp: save_sim_def Let_def split: option.splits)
  then have "s_state s = state_running" "s_log s \<noteq> None"
    using save_sim_keeps [OF st(2)] by (simp_all add: keeps_def set_state_def)
  then show "live_ok r0" unfolding r0 by (intro new_live_run_ok) simp_all
  show "lr_failure r0 = None" "\<not> lr_done r0" "lr_state r0 = state_running" "lr_ticker r0" "v = view_of r0"
    using st(4) r0 by (simp_all add: new_live_run_def)
qed

text \<open>
  C20. What every live run keeps, through any ticks, commands, subscriptions and shutdown: its
  state is one of the three, the simulation's recorded state agrees with it, a finished or
  stopped run has no ticker and no subscriber, every subscriber's channel holds at most its
  buffer, in strictly increasing frame order, and every detached subscription is closed.
\<close>

theorem live_run_invariant:
  assumes "start_run sp ch opn now req g = Some (Inr v, g')" "map_of (g_runs g') (vw_RunID v) = Some r0"
    "run_reach sp ch r0 r"
  shows "live_ok r"
  using run_reach_ok [OF assms(3) started_live_ok(1) [OF assms(1,2)]] .

text \<open>
  Two states of a simulation that differ in nothing the run did: the second is the first, or the
  first with its log closed.
\<close>

definition settled :: "('l, 'r, 'c) sim \<Rightarrow> ('l, 'r, 'c) sim \<Rightarrow> bool" where
  "settled s t \<longleftrightarrow> s_garden t = s_garden s \<and> s_tick t = s_tick s \<and> p_stats (s_proc t) = p_stats (s_proc s) \<and>
     s_controls t = s_controls s \<and> s_pending t = s_pending s \<and> s_revision t = s_revision s \<and>
     s_published t = s_published s \<and> s_committed t = s_committed s \<and> s_state t = s_state s"

lemma settled_trans: "settled s t \<Longrightarrow> settled t u \<Longrightarrow> settled s u"
  by (simp add: settled_def)

lemma finished_move:
  assumes "run_move sp ch r r'" "live_ok r" "lr_state r = state_finished"
  shows "lr_state r' = state_finished" "settled (lr_sim r) (lr_sim r')" "lr_finishedAt r' = lr_finishedAt r"
    "lr_done r \<Longrightarrow> lr_done r'"
    "s_log (lr_sim r') = s_log (lr_sim r) \<or> lr_done r' \<and> s_log (lr_sim r') = None"
proof -
  let ?P = "lr_state r' = state_finished \<and>
    (quiet (lr_sim r) (lr_sim r') \<or> lr_sim r' = snd (close_sim sp (lr_sim r)) \<and> lr_done r') \<and>
    lr_finishedAt r' = lr_finishedAt r \<and> (lr_done r \<longrightarrow> lr_done r')"
  have "?P"
    using assms(1)
  proof cases
    case (tick now)
    with assms(2,3) show ?thesis by (auto simp: tick_run_def live_ok_def)
  next
    case (update c now x)
    from update(2) show ?thesis
      by (cases rule: do_runE) (use assms(3) in \<open>auto simp: update_controls_cmd_def\<close>)
  next
    case (pause paused now y)
    from pause show ?thesis by (cases rule: do_runE) (use assms(3) in \<open>auto simp: set_paused_cmd_def\<close>)
  next
    case (finish now z)
    from finish show ?thesis by (cases rule: do_runE) (use assms(3) in \<open>auto simp: finish_cmd_def finish_def\<close>)
  next
    case (subscribe buffer pos catchup now w)
    from subscribe(2) show ?thesis
      by (cases rule: do_runE)
         (use assms(3) in \<open>auto simp: subscribe_cmd_def Let_def quiet_observe split: option.splits if_splits\<close>)
  next
    case (receive i f)
    with assms(3) show ?thesis by (auto simp: receive_frame_def split: option.splits list.splits)
  next
    case (unsubscribe i)
    with assms(3) show ?thesis
      by (auto simp: subscription_close_def remove_sub_def split: if_splits option.splits)
  next
    case quit
    with assms(3) show ?thesis by (simp add: quit_run_def Let_def close_subs_def stop_ticker_def)
  qed
  then show "lr_state r' = state_finished" "settled (lr_sim r) (lr_sim r')" "lr_finishedAt r' = lr_finishedAt r"
    "lr_done r \<Longrightarrow> lr_done r'"
    "s_log (lr_sim r') = s_log (lr_sim r) \<or> lr_done r' \<and> s_log (lr_sim r') = None"
    by (auto simp: quiet_def close_sim_def s_garden_def settled_def split: option.splits)
qed

text \<open>
  C21. A finished run is final: no later tick, command or subscription changes its state, its
  garden, its tick, its counters, its controls or its finish time, none publishes an event, stages
  or accepts a control change, and none touches its log: the log is the one the run finished with,
  record for record, until the registry shuts down and closes it.
\<close>

theorem finished_is_final:
  assumes "live_ok r" "lr_state r = state_finished" "run_reach sp ch r r'"
  shows "lr_state r' = state_finished \<and> lr_finishedAt r' = lr_finishedAt r \<and>
    s_garden (lr_sim r') = s_garden (lr_sim r) \<and> s_tick (lr_sim r') = s_tick (lr_sim r) \<and>
    p_stats (s_proc (lr_sim r')) = p_stats (s_proc (lr_sim r)) \<and> s_controls (lr_sim r') = s_controls (lr_sim r) \<and>
    s_pending (lr_sim r') = s_pending (lr_sim r) \<and> s_revision (lr_sim r') = s_revision (lr_sim r) \<and>
    s_published (lr_sim r') = s_published (lr_sim r) \<and>
    (s_log (lr_sim r') = s_log (lr_sim r) \<or> lr_done r' \<and> s_log (lr_sim r') = None)"
proof -
  have "lr_state r' = state_finished \<and> lr_finishedAt r' = lr_finishedAt r \<and> settled (lr_sim r) (lr_sim r') \<and>
    (s_log (lr_sim r') = s_log (lr_sim r) \<or> lr_done r' \<and> s_log (lr_sim r') = None)"
    using assms(3)
  proof (induction rule: run_reach.induct)
    case start
    then show ?case using assms(2) by (simp add: settled_def)
  next
    case (move t u)
    have "live_ok t" by (rule run_reach_ok [OF move.hyps(1) assms(1)])
    note fm = finished_move [OF move.hyps(2) this conjunct1 [OF move.IH]]
    show ?case using move.IH fm(1,3,4,5) settled_trans [OF _ fm(2)] by auto
  qed
  then show ?thesis by (simp add: settled_def)
qed

subsection \<open>A started run\<close>

context reliable_spine
begin

lemma start_run_total:
  assumes "validate_request req = None" "\<not> g_closed g" "rq_RunID req \<noteq> ''''" "map_of (g_runs g) (rq_RunID req) = None"
    "opn (rq_RunID req) = (Inr L, rc)" "rc_Corrupt rc = None" "fresh_log sp disk L" "ab_first (disk (el_log L)) = 0"
    "0 \<le> g_snapshot g"
  obtains v g' where "start_run sp ch opn now req g = Some (Inr v, g')" "vw_RunID v = rq_RunID req"
proof -
  let ?id = "rq_RunID req"
  let ?q = "(fill_defaults g req)\<lparr>rq_RunID := ?id\<rparr>"
  have nx: "\<not> log_next sp L > 0" using assms(7,8) by (simp add: log_next_def fresh_log_def ab_next_def)
  then have cl: "claim_log sp opn ?id (?id = '''') g = Some (Inr (?id, L, rc), g_nextID g)"
    using assms(3,5,6) by (simp add: claim_log_def open_run_log_def open_history_def)
  have cfg: "validate_config (request_config ?q (g_metrics g)) = None"
    using assms(1,3,9)
    by (auto simp: validate_request_def validate_config_def request_config_def fill_defaults_def Let_def
        split: if_splits)
  obtain err p where "gr_committed sp group_name (el_log L) = (err, p)" "err \<noteq> None \<longrightarrow> errors_is (the err) (Spine ErrNoGroup)"
    using committed_total by blast
  then obtain c where "log_committed sp L = (None, c)" by (cases err) (auto simp: log_committed_def committed_of_def)
  then obtain s0 where s0: "new_sim sp ch (request_config ?q (g_metrics g)) (Some L) = Inr s0" "s_log s0 = Some L"
    using cfg validate_config_None [OF cfg]
    by (auto simp: new_sim_def new_garden_def new_producer_def)
  obtain s where s: "save_sim sp ch (set_state state_running s0) = Some (None, s)"
    using save_total [of "set_state state_running s0" L] s0(2) by (auto simp: set_state_def)
  let ?r = "new_live_run ?q s state_running now rc False"
  have "start_run sp ch opn now req g = Some (Inr (view_of ?r), add_run ?id ?r (g\<lparr>g_nextID := g_nextID g\<rparr>))"
    using assms(1-4) cl s0(1) s by (simp add: start_run_def Let_def new_live_run_def)
  then show ?thesis by (rule that) (simp add: view_of_def new_live_run_def)
qed

end

text \<open>Delivering \<open>n\<close> ticks of the clock to a run.\<close>

fun tick_times ::
  "('fs, 'l, 'r) spine \<Rightarrow> 'c chain_ops \<Rightarrow> int \<Rightarrow> nat \<Rightarrow> ('l, 'r, 'c) live_run \<Rightarrow> ('l, 'r, 'c) live_run option" where
  "tick_times sp ch now 0 r = Some r"
| "tick_times sp ch now (Suc n) r =
     (case tick_run sp ch now r of None \<Rightarrow> None | Some r \<Rightarrow> tick_times sp ch now n r)"

lemma run_inv_quiet: "sim_reach sp ch s t \<Longrightarrow> spine_laws sp disk \<Longrightarrow> run_inv sp disk cfg b s \<Longrightarrow> run_inv sp disk cfg b t"
  by (rule spine_laws.reach_inv)

lemma finish_state: "finish sp ch now r = Some r' \<Longrightarrow> lr_state r' = state_finished"
  by (cases "lr_state r = state_finished") (simp add: finish_def, rule finish_spec)

lemma finish_total:
  assumes "reliable_spine sp disk" "s_log (lr_sim r) \<noteq> None" "lr_failure r = None"
  obtains r' where "finish sp ch now r = Some r'" "lr_failure r' = None"
    "s_tick (lr_sim r') = s_tick (lr_sim r)" "s_garden (lr_sim r') = s_garden (lr_sim r)"
proof (cases "lr_state r = state_finished")
  case True
  with assms that show ?thesis by (auto simp: finish_def)
next
  case False
  obtain L where L: "s_log (set_state state_finished (lr_sim r)) = Some L" using assms(2) by (auto simp: set_state_def)
  obtain s where s: "save_sim sp ch (set_state state_finished (lr_sim r)) = Some (None, s)"
    by (rule reliable_spine.save_total [OF assms(1) L])
  obtain r' where r': "finish sp ch now r = Some r'" using False s by (auto simp: finish_def Let_def)
  obtain err t where f: "save_sim sp ch (set_state state_finished (lr_sim r)) = Some (err, t)"
    "quiet t (lr_sim r')" "lr_failure r' = (if lr_failure r = None then err else lr_failure r)"
    by (rule finish_spec [OF r' False], rule that)
  have t: "err = None" "t = s" using f(1) s by simp_all
  have "spine_laws sp disk" using assms(1) by (simp add: reliable_spine_def)
  then have "same_run (set_state state_finished (lr_sim r)) s"
    using spine_laws.save_sim_frame [OF _ s] by metis
  then show ?thesis
    using f(3) t assms(3) quiet_sels(2,9) [OF f(2)]
    by (intro that [OF r']) (simp_all add: same_run_def set_state_def s_garden_def projection_def)
qed

lemma tick_running:
  assumes "reliable_spine sp disk" "validates_loggable (sp_validate sp)" "run_inv sp disk cfg b (lr_sim r)" "room (lr_sim r)"
    "lr_state r = state_running" "lr_ticker r" "\<not> lr_done r" "lr_failure r = None"
  obtains p where "tick_run sp ch now r
      = (if rq_MaxTicks (lr_req r) > 0 \<and> s_tick (lr_sim p) \<ge> rq_MaxTicks (lr_req r) then finish sp ch now p else Some p)"
    "run_inv sp disk cfg b (lr_sim p)" "s_tick (lr_sim p) = s_tick (lr_sim r) + 1" "lr_req p = lr_req r"
    "lr_state p = state_running" "lr_ticker p" "\<not> lr_done p" "lr_failure p = None"
    "s_pending (lr_sim p) = []" "s_revision (lr_sim p) = s_revision (lr_sim r)"
    "pd_seq (s_prod (lr_sim p)) \<le> pd_seq (s_prod (lr_sim r)) + int (length (s_pending (lr_sim r))) + max_events_per_tick"
proof -
  have laws: "spine_laws sp disk" using assms(1) by (simp add: reliable_spine_def)
  obtain L where L: "run_ok (lr_sim r)" "follows sp disk b 0 (lr_sim r) L" using assms(3) by (auto simp: run_inv_def)
  obtain s where s: "step_sim sp ch (lr_sim r) = Some (None, s)"
    using reliable_spine.inv_step_total [OF assms(1) assms(3,4,2)] .
  from spine_laws.step_ok [OF laws L(1) assms(4) L(2) s] have after: "s_tick s = s_tick (lr_sim r) + 1" "s_pending s = []"
    "s_revision s = s_revision (lr_sim r)" "s_controls s = next_controls (lr_sim r)" "run_ok s"
    "pd_seq (s_prod s) = pd_seq (s_prod (lr_sim r)) + int (length (s_pending (lr_sim r))) + EventsPerTick (next_controls (lr_sim r))"
    by metis+
  obtain p where p: "advance sp ch now r
      = (if rq_MaxTicks (lr_req r) > 0 \<and> s_tick s \<ge> rq_MaxTicks (lr_req r) then finish sp ch now p else Some p)"
    "quiet s (lr_sim p)" "sim_reach sp ch s (lr_sim p)" "lr_failure p = lr_failure r" "lr_done p = lr_done r"
    "lr_req p = lr_req r" "lr_state p = state_running" "lr_ticker p = lr_ticker r"
    by (rule advance_running [OF assms(5) s, of now], rule that)
  have "sim_reach sp ch (lr_sim r) (lr_sim p)"
    by (rule reach_trans [OF sim_reach.move [OF sim_reach.start sim_move.tick [OF assms(4) s]] p(3)])
  then have inv: "run_inv sp disk cfg b (lr_sim p)" by (rule spine_laws.reach_inv [OF laws _ assms(3)])
  have "EventsPerTick (next_controls (lr_sim r)) \<le> max_events_per_tick"
    using after(4,5) by (auto simp: run_ok_def controls_ok_def)
  then show ?thesis
    using p after assms(6,7,8) inv
    by (intro that [of p]) (simp_all add: tick_run_def quiet_sels)
qed

lemma tick_times_finishes:
  assumes "reliable_spine sp disk" "validates_loggable (sp_validate sp)" "rq_MaxTicks (lr_req r) = m" "0 < n"
    "s_tick (lr_sim r) + int n = m" "0 < m"
    "run_inv sp disk cfg b (lr_sim r)" "lr_state r = state_running" "lr_ticker r" "\<not> lr_done r" "lr_failure r = None"
    "s_pending (lr_sim r) = []" "s_revision (lr_sim r) < 2 ^ 63"
    "pd_seq (s_prod (lr_sim r)) + max_events_per_tick * int n < 2 ^ 63"
  shows "\<exists>r'. tick_times sp ch now n r = Some r' \<and> lr_state r' = state_finished \<and> lr_failure r' = None \<and>
    s_tick (lr_sim r') = m"
  using assms(3-)
proof (induction n arbitrary: r)
  case (Suc n)
  have room: "room (lr_sim r)" using Suc.prems by (simp add: room_def max_events_per_tick_def)
  obtain p where p: "tick_run sp ch now r
      = (if rq_MaxTicks (lr_req r) > 0 \<and> s_tick (lr_sim p) \<ge> rq_MaxTicks (lr_req r) then finish sp ch now p else Some p)"
    "run_inv sp disk cfg b (lr_sim p)" "s_tick (lr_sim p) = s_tick (lr_sim r) + 1" "lr_req p = lr_req r"
    "lr_state p = state_running" "lr_ticker p" "\<not> lr_done p" "lr_failure p = None"
    "s_pending (lr_sim p) = []" "s_revision (lr_sim p) = s_revision (lr_sim r)"
    "pd_seq (s_prod (lr_sim p)) \<le> pd_seq (s_prod (lr_sim r)) + int (length (s_pending (lr_sim r))) + max_events_per_tick"
    by (rule tick_running [OF assms(1,2) Suc.prems(5) room Suc.prems(6-9), where now = now], rule that)
  show ?case
  proof (cases n)
    case 0
    have "s_log (lr_sim p) \<noteq> None" using p(2) by (auto simp: run_inv_def follows_def)
    then obtain r' where r': "finish sp ch now p = Some r'" "lr_failure r' = None" "s_tick (lr_sim r') = s_tick (lr_sim p)"
      using finish_total [OF assms(1) _ p(8)] by metis
    have "lr_state r' = state_finished" by (rule finish_state [OF r'(1)])
    with r' p(1,3) Suc.prems(1,3,4) 0 show ?thesis by simp
  next
    case (Suc k)
    have "tick_run sp ch now r = Some p" using p(1,3) Suc.prems(1,3) Suc by simp
    moreover have "\<exists>r'. tick_times sp ch now n p = Some r' \<and> lr_state r' = state_finished \<and> lr_failure r' = None \<and>
       s_tick (lr_sim r') = m"
      by (rule Suc.IH) (use p Suc Suc.prems in \<open>auto simp: max_events_per_tick_def algebra_simps\<close>)
    ultimately show ?thesis by simp
  qed
qed simp

text \<open>An opener whose logs are new: what \<^verbatim>\<open>EphemeralLogs\<close> gives, and a directory never used before.\<close>

definition opens_fresh :: "('fs, 'l, 'r) spine \<Rightarrow> ('l \<Rightarrow> contents) \<Rightarrow> ('l, 'r) log_opener \<Rightarrow> bool" where
  "opens_fresh sp disk opn \<longleftrightarrow> (\<forall>i L rc. opn i = (Inr L, rc) \<longrightarrow> fresh_log sp disk L \<and> rc_Corrupt rc = None)"

lemma open_run_log_opened:
  assumes "open_run_log sp opn policy runID = (Inr L, rc)"
  obtains L1 where "opn runID = (Inr L1, rc)" "rc_Corrupt rc = None \<Longrightarrow> L = L1" "log_next sp L \<le> 0"
proof -
  obtain x rc' where o: "opn runID = (x, rc')" by (cases "opn runID")
  obtain L1 where "x = Inr L1" "rc' = rc"
    using assms o by (cases x) (auto simp: open_run_log_def open_history_def split: option.splits if_splits prod.splits)
  with o assms show ?thesis
    by (intro that [of L1])
       (auto simp: open_run_log_def open_history_def split: option.splits if_splits prod.splits)
qed

lemma claim_loop_opened:
  "claim_loop k sp opn policy runs e n = Some (Inr (runID, L, rc), n') \<Longrightarrow> open_run_log sp opn policy runID = (Inr L, rc)"
  by (induction k arbitrary: e n) (auto split: option.splits sum.splits prod.splits if_splits)

lemma claim_log_opened:
  assumes "claim_log sp opn runID0 generated g = Some (Inr (runID, L, rc), n)"
  shows "open_run_log sp opn (g_corrupt g) runID = (Inr L, rc)" "\<not> generated \<Longrightarrow> runID = runID0"
  using assms claim_loop_opened
  by (auto simp: claim_log_def split: if_splits prod.splits sum.splits)

definition request_fits :: "start_request \<Rightarrow> bool" where
  "request_fits req \<longleftrightarrow> rq_Organisms req < 2 ^ 63 \<and> weights_fit (rq_Controls req)"

lemma started_sim:
  assumes "start_run sp ch opn now req g = Some (Inr v, g')" "map_of (g_runs g') (vw_RunID v) = Some r0"
    "opens_fresh sp disk opn" "request_fits req" "utf8_ok (vw_RunID v)"
  obtains cfg s0 L0 where "new_sim sp ch cfg (Some L0) = Inr s0" "config_fits cfg" "fresh_log sp disk L0"
    "sim_reach sp ch s0 (lr_sim r0)" "c_Organisms cfg = rq_Organisms req" "rq_MaxTicks (lr_req r0) = rq_MaxTicks req"
    "save_sim sp ch (set_state state_running s0) = Some (None, lr_sim r0)" "rq_RunID (lr_req r0) = vw_RunID v"
    "c_RunID cfg = vw_RunID v" "c_Seed cfg = rq_Seed req" "c_Controls cfg = rq_Controls req"
    "c_DuplicateEvery cfg = rq_DuplicateEvery req"
proof -
  obtain runID L rc n s0 s where st: "claim_log sp opn (rq_RunID req) (rq_RunID req = '''') g = Some (Inr (runID, L, rc), n)"
    "new_sim sp ch (request_config ((fill_defaults g req)\<lparr>rq_RunID := runID\<rparr>) (g_metrics g)) (Some L) = Inr s0"
    "save_sim sp ch (set_state state_running s0) = Some (None, s)"
    "g' = add_run runID (new_live_run ((fill_defaults g req)\<lparr>rq_RunID := runID\<rparr>) s state_running now rc False)
            (g\<lparr>g_nextID := n\<rparr>)"
    "v = view_of (new_live_run ((fill_defaults g req)\<lparr>rq_RunID := runID\<rparr>) s state_running now rc False)"
    by (rule start_run_ok [OF assms(1)], rule that)
  have id: "vw_RunID v = runID" by (simp add: st(5) view_of_def new_live_run_def)
  then have r0: "r0 = new_live_run ((fill_defaults g req)\<lparr>rq_RunID := runID\<rparr>) s state_running now rc False"
    using assms(2) st(4) by simp
  have "fresh_log sp disk L"
    using open_run_log_opened [OF claim_log_opened(1) [OF st(1)]] assms(3) unfolding opens_fresh_def by metis
  moreover have "config_fits (request_config ((fill_defaults g req)\<lparr>rq_RunID := runID\<rparr>) (g_metrics g))"
    using assms(4,5) id by (simp add: config_fits_def request_config_def request_fits_def)
  moreover have "sim_reach sp ch s0 s" by (rule reach_save [OF st(3) reach_state])
  ultimately show ?thesis
    using st(2,3) id
    by (intro that [of "request_config ((fill_defaults g req)\<lparr>rq_RunID := runID\<rparr>) (g_metrics g)" L s0])
       (simp_all add: r0 new_live_run_def request_config_def)
qed

text \<open>
  C22. Every frame is a fold of the log: in a run that has not failed, the garden a frame shows
  is what folding the first \<^verbatim>\<open>folded_offset\<close> records gives, organism for organism and hash for
  hash, and so are the counters of the telemetry.
\<close>

theorem frame_is_fold_of_log:
  assumes "spine_laws sp disk" "start_run sp ch opn now0 req g = Some (Inr v, g')"
    "map_of (g_runs g') (vw_RunID v) = Some r0" "opens_fresh sp disk opn" "request_fits req" "utf8_ok (vw_RunID v)"
    "run_reach sp ch r0 r" "lr_failure r = None" "\<not> lr_done r" "s_log (lr_sim r) = Some L" "replay sp L = Some (None, es)"
  shows "\<exists>gd. fold_history (rq_Organisms req) (take (nat (fr_FoldedOffset (frame_of sp now r) - ab_first (disk (el_log L)))) es)
      = Inr (gd, tm_Processor (telemetry_of sp now r)) \<and>
    fr_Organisms (frame_of sp now r) = organisms gd \<and> fr_Hash (frame_of sp now r) = hash gd"
proof -
  obtain cfg s0 L0 where st: "new_sim sp ch cfg (Some L0) = Inr s0" "config_fits cfg" "fresh_log sp disk L0"
    "sim_reach sp ch s0 (lr_sim r0)" "c_Organisms cfg = rq_Organisms req"
    by (rule started_sim [OF assms(2-6)], rule that)
  have "sim_reach sp ch s0 (lr_sim r)"
    using reach_trans [OF st(4)] run_reach_sim [OF assms(7-9)] by blast
  from spine_laws.reach_replay [OF assms(1) st(1-3) this assms(10,11)] st(5) assms(10)
  show ?thesis by (simp add: frame_of_def telemetry_of_def folded_of_def log_read_def cur_of_def)
qed

text \<open>
  C23. A run started with \<^verbatim>\<open>max_ticks\<close> ends by itself: on a log that does not fail, that many
  ticks of the clock finish it, at that tick and without a failure.
\<close>

theorem run_finishes_at_max_ticks:
  assumes "reliable_spine sp disk" "validates_loggable (sp_validate sp)" "start_run sp ch opn now0 req g = Some (Inr v, g')"
    "map_of (g_runs g') (vw_RunID v) = Some r0" "opens_fresh sp disk opn" "request_fits req" "utf8_ok (vw_RunID v)"
    "0 < rq_MaxTicks req" "rq_MaxTicks req < 2 ^ 50"
  shows "\<exists>r. tick_times sp ch now (nat (rq_MaxTicks req)) r0 = Some r \<and> lr_state r = state_finished \<and>
    lr_failure r = None \<and> s_tick (lr_sim r) = rq_MaxTicks req"
proof -
  have laws: "spine_laws sp disk" using assms(1) by (simp add: reliable_spine_def)
  obtain cfg s0 L0 where st: "new_sim sp ch cfg (Some L0) = Inr s0" "config_fits cfg" "fresh_log sp disk L0"
    "sim_reach sp ch s0 (lr_sim r0)" "rq_MaxTicks (lr_req r0) = rq_MaxTicks req"
    "save_sim sp ch (set_state state_running s0) = Some (None, lr_sim r0)"
    by (rule started_sim [OF assms(3-7)], rule that)
  have inv: "run_inv sp disk cfg (s_proc s0) (lr_sim r0)"
    by (rule spine_laws.reach_inv [OF laws st(4) spine_laws.start_inv [OF laws st(1-3)]])
  note new = new_sim_run_ok [OF st(1,2)]
  have "same_run (set_state state_running s0) (lr_sim r0)" using spine_laws.save_sim_frame [OF laws st(6)] by metis
  then have z: "s_tick (lr_sim r0) = 0" "s_pending (lr_sim r0) = []" "s_revision (lr_sim r0) = 0" "pd_seq (s_prod (lr_sim r0)) = 0"
    using new by (simp_all add: same_run_def set_state_def)
  note s = started_live_ok [OF assms(3,4)]
  show ?thesis
    by (rule tick_times_finishes [OF assms(1,2) st(5) _ _ assms(8) inv s(4,5,3,2) z(2)])
       (use assms(8,9) z in \<open>auto simp: max_events_per_tick_def\<close>)
qed

subsection \<open>A registry to instantiate the properties with\<close>

type_synonym mem_run = "(contents, int, (core_event \<times> int list) list) live_run"
type_synonym mem_registry = "(contents, int, (core_event \<times> int list) list) registry"

definition demo_registry :: mem_registry where
  "demo_registry = new_registry [WithSnapshotEvery 5]"

definition demo_request :: start_request where
  "demo_request = \<lparr>rq_RunID = ''run-0001'', rq_Seed = 7, rq_Organisms = 3, rq_Controls = default_controls,
     rq_TickInterval = 0, rq_MaxTicks = 3, rq_DuplicateEvery = 2, rq_SnapshotEvery = 0\<rparr>"

lemma mem_ephemeral:
  "ephemeral_logs mem_spine i = (Inr mem_log, \<lparr>rc_Discarded = 0, rc_Next = 0, rc_Corrupt = None\<rparr>)"
  by (simp add: ephemeral_logs_def open_log_def open_with_def reposition_def committed_of_def mem_spine_def
      mem_empty_def mem_log_def ab_next_def ab_resume_def)

lemma mem_opens_fresh: "opens_fresh mem_spine (\<lambda>l. l) (ephemeral_logs mem_spine)"
  using mem_log_fresh by (auto simp: opens_fresh_def mem_ephemeral)

lemma demo_request_fits: "request_fits demo_request" "utf8_ok ''run-0001''" "validate_request demo_request = None"
proof -
  have "validate_controls default_controls = None"
    using default_controls_ok by (simp add: validate_controls_None_iff)
  then show "validate_request demo_request = None" by (simp add: demo_request_def validate_request_def)
  show "request_fits demo_request" "utf8_ok ''run-0001''"
    using default_controls_ok by (simp_all add: request_fits_def demo_request_def ascii_utf8 ascii_def byte_def)
qed

lemma demo_start:
  obtains v g' r0 where
    "start_run mem_spine list_chain (ephemeral_logs mem_spine) 0 demo_request demo_registry = Some (Inr v, g')"
    "map_of (g_runs g') (vw_RunID v) = Some r0" "vw_RunID v = ''run-0001''"
proof -
  have reg: "\<not> g_closed demo_registry" "g_runs demo_registry = []" "0 \<le> g_snapshot demo_registry"
    by (simp_all add: demo_registry_def new_registry_def)
  have id: "rq_RunID demo_request = ''run-0001''" by (simp add: demo_request_def)
  obtain v g' where v: "start_run mem_spine list_chain (ephemeral_logs mem_spine) 0 demo_request demo_registry = Some (Inr v, g')"
    "vw_RunID v = rq_RunID demo_request"
  proof (rule mem.start_run_total [OF demo_request_fits(3) reg(1) _ _ mem_ephemeral _ mem_log_fresh _ reg(3)])
  qed (simp_all add: reg id mem_log_def mem_empty_def)
  obtain runID L rc n s where g: "g' = add_run runID (new_live_run ((fill_defaults demo_registry demo_request)\<lparr>rq_RunID := runID\<rparr>)
      s state_running 0 rc False) (demo_registry\<lparr>g_nextID := n\<rparr>)"
    "v = view_of (new_live_run ((fill_defaults demo_registry demo_request)\<lparr>rq_RunID := runID\<rparr>) s state_running 0 rc False)"
    by (rule start_run_ok [OF v(1)], rule that)
  have "vw_RunID v = runID" by (simp add: g(2) view_of_def new_live_run_def)
  with g(1) v that id show ?thesis by auto
qed

theorem live_run_invariant_witness:
  "\<exists>(r :: mem_run). lr_state r = state_finished \<and> live_ok r"
proof -
  obtain v g' r0 where st:
    "start_run mem_spine list_chain (ephemeral_logs mem_spine) 0 demo_request demo_registry = Some (Inr v, g')"
    "map_of (g_runs g') (vw_RunID v) = Some r0" by (rule demo_start)
  note s = started_live_ok [OF st]
  have "s_log (lr_sim r0) \<noteq> None" using s(1,3) by (simp add: live_ok_def)
  then obtain r where r: "finish mem_spine list_chain 1 r0 = Some r"
    using finish_total [OF mem_laws(2) _ s(2)] by metis
  then have "do_run (finish_cmd mem_spine list_chain 1) r0
      = Some (Inr \<lparr>su_Run = view_of r, su_Snapshot = frame_of mem_spine 1 r, su_Telemetry = telemetry_of mem_spine 1 r\<rparr>, r)"
    using s(3) by (simp add: do_run_def finish_cmd_def)
  then have "run_reach mem_spine list_chain r0 r" by (intro run_reach.move [OF run_reach.start run_move.finish])
  from live_run_invariant [OF st this] finish_state [OF r] show ?thesis by blast
qed

theorem finished_is_final_witness:
  "\<exists>(r :: mem_run) r' L. run_reach mem_spine list_chain r r' \<and> lr_state r' = state_finished \<and> s_tick (lr_sim r') = 0 \<and>
     s_log (lr_sim r) = Some L \<and> s_log (lr_sim r') = Some L"
proof -
  obtain v g' r0 where st:
    "start_run mem_spine list_chain (ephemeral_logs mem_spine) 0 demo_request demo_registry = Some (Inr v, g')"
    "map_of (g_runs g') (vw_RunID v) = Some r0" "vw_RunID v = ''run-0001''" by (rule demo_start)
  note s = started_live_ok [OF st(1,2)]
  have log: "s_log (lr_sim r0) \<noteq> None" using s(1,3) by (simp add: live_ok_def)
  obtain cfg s0 L0 where z: "new_sim mem_spine list_chain cfg (Some L0) = Inr s0" "config_fits cfg"
    "save_sim mem_spine list_chain (set_state state_running s0) = Some (None, lr_sim r0)"
    by (rule started_sim [OF st(1,2) mem_opens_fresh demo_request_fits(1)], use st(3) demo_request_fits(2) in simp, rule that)
  have "same_run (set_state state_running s0) (lr_sim r0)" using mem.save_sim_frame [OF z(3)] by metis
  then have t0: "s_tick (lr_sim r0) = 0" using new_sim_run_ok(3) [OF z(1,2)] by (simp add: same_run_def set_state_def)
  obtain r where r: "finish mem_spine list_chain 1 r0 = Some r" "s_tick (lr_sim r) = s_tick (lr_sim r0)"
    using finish_total [OF mem_laws(2) log s(2)] by metis
  have d: "\<not> lr_done r" using finish_sim(3) [OF r(1)] s(3) by simp
  then obtain L where L: "s_log (lr_sim r) = Some L" using finish_ok(1) [OF r(1) s(1)] by (auto simp: live_ok_def)
  let ?x = "update_controls_cmd default_controls 2 r"
  have x: "do_run (update_controls_cmd default_controls 2) r = Some (Inr (fst (the ?x)), snd (the ?x))" "\<not> lr_done (snd (the ?x))"
    using d finish_state [OF r(1)] by (simp_all add: do_run_def update_controls_cmd_def)
  have m: "run_reach mem_spine list_chain r (snd (the ?x))"
    by (rule run_reach.move [OF run_reach.start run_move.update [OF default_controls_ok(2) x(1)]])
  from finished_is_final [OF finish_ok(1) [OF r(1) s(1)] finish_state [OF r(1)] m] r(2) t0 x(2) L m
  show ?thesis by (intro exI [of _ r] exI [of _ "snd (the ?x)"] exI [of _ L]) simp
qed

theorem frame_is_fold_of_log_witness:
  "\<exists>(r :: mem_run) L gd. s_log (lr_sim r) = Some L \<and>
     fold_history 3 (take (nat (fr_FoldedOffset (frame_of mem_spine 9 r) - ab_first (el_log L))) (hist_of (\<lambda>l. l) L))
       = Inr (gd, tm_Processor (telemetry_of mem_spine 9 r)) \<and> fr_Hash (frame_of mem_spine 9 r) = hash gd"
proof -
  obtain v g' r0 where st:
    "start_run mem_spine list_chain (ephemeral_logs mem_spine) 0 demo_request demo_registry = Some (Inr v, g')"
    "map_of (g_runs g') (vw_RunID v) = Some r0" "vw_RunID v = ''run-0001''" by (rule demo_start)
  note s = started_live_ok [OF st(1,2)]
  have u: "utf8_ok (vw_RunID v)" using st(3) demo_request_fits(2) by simp
  obtain cfg s0 L0 where z: "new_sim mem_spine list_chain cfg (Some L0) = Inr s0" "config_fits cfg"
    "fresh_log mem_spine (\<lambda>l. l) L0" "sim_reach mem_spine list_chain s0 (lr_sim r0)"
    by (rule started_sim [OF st(1,2) mem_opens_fresh demo_request_fits(1) u], rule that)
  have inv: "run_inv mem_spine (\<lambda>l. l) cfg (s_proc s0) (lr_sim r0)"
    by (rule mem.reach_inv [OF z(4) mem.start_inv [OF z(1-3)]])
  then obtain L where L: "s_log (lr_sim r0) = Some L" "wf_of mem_spine (\<lambda>l. l) L" by (auto simp: run_inv_def follows_def)
  from frame_is_fold_of_log [OF mem_laws(1) st(1,2) mem_opens_fresh demo_request_fits(1) u run_reach.start s(2,3) L(1)
      mem.replay_total [OF L(2)], of 9] L(1)
  show ?thesis by (auto simp: demo_request_def)
qed

theorem run_finishes_at_max_ticks_witness:
  "\<exists>(r0 :: mem_run) r. tick_times mem_spine list_chain 1 3 r0 = Some r \<and> lr_state r = state_finished \<and> s_tick (lr_sim r) = 3"
proof -
  obtain v g' r0 where st:
    "start_run mem_spine list_chain (ephemeral_logs mem_spine) 0 demo_request demo_registry = Some (Inr v, g')"
    "map_of (g_runs g') (vw_RunID v) = Some r0" "vw_RunID v = ''run-0001''" by (rule demo_start)
  have u: "utf8_ok (vw_RunID v)" using st(3) demo_request_fits(2) by simp
  have m: "0 < rq_MaxTicks demo_request" "rq_MaxTicks demo_request < 2 ^ 50" "nat (rq_MaxTicks demo_request) = 3"
    "rq_MaxTicks demo_request = 3" by (simp_all add: demo_request_def)
  from run_finishes_at_max_ticks [OF mem_laws(2) mem_validates st(1,2) mem_opens_fresh demo_request_fits(1) u m(1,2), of 1]
  show ?thesis unfolding m(4) by simp blast
qed

end
