(* ===== verification/Registry_Runs.thy ===== *)
theory Registry_Runs
  imports Engine_Runs
begin

text \<open>
  The registry over time: generated identifiers, the invariant every sequence of calls keeps,
  refusals, recovery of many runs, shutdown, and the handover to a reconnecting client.
\<close>

subsection \<open>Generated identifiers\<close>

lemma generated_id_inj: "0 \<le> i \<Longrightarrow> 0 \<le> j \<Longrightarrow> generated_id i = generated_id j \<Longrightarrow> i = j"
  by (auto simp: generated_id_def dest: fmt_0d_inj)

definition taken_above :: "(string \<times> ('l, 'r, 'c) live_run) list \<Rightarrow> int \<Rightarrow> int set" where
  "taken_above runs n = {k. n < k \<and> map_of runs (generated_id k) \<noteq> None}"

lemma taken_above_finite:
  assumes "0 \<le> n"
  shows "finite (taken_above runs n)" "card (taken_above runs n) \<le> length runs"
proof -
  have inj: "inj_on generated_id (taken_above runs n)"
    using assms by (auto simp: inj_on_def taken_above_def intro: generated_id_inj)
  have sub: "generated_id ` taken_above runs n \<subseteq> set (map fst runs)"
    by (auto simp: taken_above_def map_of_eq_None_iff)
  show "finite (taken_above runs n)" by (rule finite_imageD [OF finite_subset [OF sub] inj]) simp
  have "card (taken_above runs n) = card (generated_id ` taken_above runs n)" by (simp add: card_image inj)
  also have "\<dots> \<le> card (set (map fst runs))" by (rule card_mono [OF _ sub]) simp
  also have "\<dots> \<le> length runs" using card_length [of "map fst runs"] by simp
  finally show "card (taken_above runs n) \<le> length runs" .
qed

lemma generate_id_step:
  assumes "0 \<le> n" "card (taken_above runs n) = c"
  shows "\<exists>k. generate_id runs n = Some (generated_id k, k) \<and> n < k \<and> k \<le> n + 1 + int c \<and>
    map_of runs (generated_id k) = None \<and> (\<forall>j. n < j \<and> j < k \<longrightarrow> map_of runs (generated_id j) \<noteq> None)"
  using assms
proof (induction c arbitrary: n rule: less_induct)
  case (less c)
  show ?case
  proof (cases "map_of runs (generated_id (n + 1)) = None")
    case True
    then have "generate_id runs n = Some (generated_id (n + 1), n + 1)"
      by (subst generate_id.simps) (simp add: Let_def)
    with True show ?thesis by (intro exI [of _ "n + 1"]) auto
  next
    case False
    have step: "generate_id runs n = generate_id runs (n + 1)"
      using False by (subst generate_id.simps) (auto simp: Let_def)
    have split: "taken_above runs n = insert (n + 1) (taken_above runs (n + 1))" "n + 1 \<notin> taken_above runs (n + 1)"
      using False by (auto simp: taken_above_def)
    then have card: "c = Suc (card (taken_above runs (n + 1)))"
      using taken_above_finite(1) [of "n + 1" runs] less.prems by simp
    then have "\<exists>k. generate_id runs (n + 1) = Some (generated_id k, k) \<and> n + 1 < k \<and>
        k \<le> n + 1 + 1 + int (card (taken_above runs (n + 1))) \<and> map_of runs (generated_id k) = None \<and>
        (\<forall>j. n + 1 < j \<and> j < k \<longrightarrow> map_of runs (generated_id j) \<noteq> None)"
      using less.prems(1) by (intro less.IH) simp_all
    then obtain k where k: "generate_id runs (n + 1) = Some (generated_id k, k)" "n + 1 < k" "k \<le> n + 1 + int c"
      "map_of runs (generated_id k) = None" "\<forall>j. n + 1 < j \<and> j < k \<longrightarrow> map_of runs (generated_id j) \<noteq> None"
      using card by auto
    have "map_of runs (generated_id j) \<noteq> None" if "n < j" "j < k" for j
      using that False k(5) by (cases "j = n + 1") auto
    with k step show ?thesis by (intro exI [of _ k]) auto
  qed
qed

text \<open>
  C24. The search for a run ID ends: it returns the first sequential ID no live run has, after
  at most one step more than there are live runs.
\<close>

theorem generate_id_returns:
  assumes "0 \<le> nextID"
  shows "\<exists>k. generate_id runs nextID = Some (generated_id k, k) \<and> nextID < k \<and> k \<le> nextID + 1 + int (length runs) \<and>
    map_of runs (generated_id k) = None \<and> (\<forall>j. nextID < j \<and> j < k \<longrightarrow> map_of runs (generated_id j) \<noteq> None)"
  using generate_id_step [OF assms refl, of runs] taken_above_finite(2) [OF assms, of runs] by fastforce

theorem generate_id_returns_witness:
  "\<exists>k. generate_id (g_runs demo_registry) 0 = Some (generated_id k, k) \<and> 0 < k"
  using generate_id_returns [of 0 "g_runs demo_registry"] by auto

subsection \<open>The registry's invariant\<close>

definition reg_ok :: "('l, 'r, 'c) registry \<Rightarrow> bool" where
  "reg_ok g \<longleftrightarrow> distinct (map fst (g_runs g)) \<and> g_order g = map fst (g_runs g) \<and>
     list_all (\<lambda>(k, r). live_ok r \<and> \<not> lr_done r \<and> rq_RunID (lr_req r) = k) (g_runs g) \<and>
     (g_closed g \<longrightarrow> g_runs g = [])"

definition keeps_live :: "(('l, 'r, 'c) live_run \<Rightarrow> ('a \<times> ('l, 'r, 'c) live_run) option) \<Rightarrow> bool" where
  "keeps_live fn \<longleftrightarrow> (\<forall>r x r'. live_ok r \<longrightarrow> \<not> lr_done r \<longrightarrow> fn r = Some (x, r') \<longrightarrow>
     live_ok r' \<and> \<not> lr_done r' \<and> lr_req r' = lr_req r)"

lemma put_run_ok:
  assumes "reg_ok g" "map_of (g_runs g) runID = Some r" "live_ok r'" "\<not> lr_done r'" "lr_req r' = lr_req r"
  shows "reg_ok (put_run runID r' g)"
proof -
  have ks: "map fst (map (\<lambda>(k, x). if k = runID then (k, r') else (k, x)) xs) = map fst xs" for xs
    by (induction xs) auto
  have "rq_RunID (lr_req r) = runID" using assms(1,2) by (auto simp: reg_ok_def list_all_iff dest!: map_of_SomeD)
  then have "list_all (\<lambda>(k, r). live_ok r \<and> \<not> lr_done r \<and> rq_RunID (lr_req r) = k)
      (map (\<lambda>(k, x). if k = runID then (k, r') else (k, x)) (g_runs g))"
    using assms(1,3-5) by (auto simp: reg_ok_def list_all_iff split: if_splits)
  with assms(1) ks show ?thesis by (simp add: reg_ok_def put_run_def del: map_map)
qed

lemma on_run_ok:
  assumes "on_run fn runID g = Some (x, g')" "reg_ok g" "keeps_live fn"
  shows "reg_ok g'"
proof (cases "lookup_run runID g")
  case (Inl e)
  with assms show ?thesis by (simp add: on_run_def)
next
  case (Inr r)
  then have m: "map_of (g_runs g) runID = Some r" by (auto simp: lookup_run_def split: if_splits option.splits)
  have r: "live_ok r" "\<not> lr_done r" using assms(2) m by (auto simp: reg_ok_def list_all_iff dest!: map_of_SomeD)
  obtain y r' where fn: "fn r = Some (y, r')" "g' = put_run runID r' g"
    using assms(1) Inr r(2) by (auto simp: on_run_def do_run_def split: option.splits)
  with assms(3) r put_run_ok [OF assms(2) m] show ?thesis unfolding keeps_live_def by blast
qed

lemma advance_frame:
  assumes "advance sp ch now r = Some r'"
  shows "lr_done r' = lr_done r \<and> lr_req r' = lr_req r"
proof (cases "lr_state r = state_running")
  case False
  with assms show ?thesis by (auto simp: advance_def Let_def)
next
  case True
  obtain err s where st: "step_sim sp ch (lr_sim r) = Some (err, s)"
    using assms True by (auto simp: advance_def Let_def split: option.splits)
  show ?thesis
  proof (cases err)
    case (Some e)
    then have "finish sp ch now ((run_observe ObserveTick (r\<lparr>lr_updatedAt := now, lr_sim := s\<rparr>))\<lparr>lr_failure := Some e\<rparr>) = Some r'"
      using assms True st by (simp add: advance_def Let_def)
    from finish_sim(3,4) [OF this] show ?thesis by simp
  next
    case None
    with st have ok: "step_sim sp ch (lr_sim r) = Some (None, s)" by simp
    obtain p where p: "advance sp ch now r
        = (if rq_MaxTicks (lr_req r) > 0 \<and> s_tick s \<ge> rq_MaxTicks (lr_req r) then finish sp ch now p else Some p)"
      "lr_done p = lr_done r" "lr_req p = lr_req r"
      by (rule advance_running [OF True ok, of now], rule that)
    consider "finish sp ch now p = Some r'" | "p = r'" using assms unfolding p(1) by (meson option.inject)
    then show ?thesis
    proof cases
      case 1
      from finish_sim(3,4) [OF 1] p(2,3) show ?thesis by simp
    qed (use p in simp)
  qed
qed

lemma commands_keep_live:
  fixes sp :: "('fs, 'l, 'r) spine" and ch :: "'c chain_ops"
  shows "keeps_live (update_controls_cmd c now :: ('l, 'r, 'c) live_run \<Rightarrow> _)"
    "keeps_live (set_paused_cmd sp ch paused now)"
    "keeps_live (\<lambda>r. map_option (\<lambda>(x, r). (Inr x, r)) (finish_cmd sp ch now r))"
    "1 \<le> buffer \<Longrightarrow> keeps_live (subscribe_cmd sp buffer from catchup now :: ('l, 'r, 'c) live_run \<Rightarrow> _)"
proof -
  have "lr_done r' = lr_done r \<and> lr_req r' = lr_req r" if "update_controls_cmd c now r = Some (x, r')"
    for x and r r' :: "('l, 'r, 'c) live_run"
    using that by (auto simp: update_controls_cmd_def split: if_splits prod.splits sum.splits)
  then show "keeps_live (update_controls_cmd c now :: ('l, 'r, 'c) live_run \<Rightarrow> _)"
    unfolding keeps_live_def using update_controls_ok by metis
  have "lr_done r' = lr_done r \<and> lr_req r' = lr_req r" if "set_paused_cmd sp ch paused now r = Some (x, r')"
    for x and r r' :: "('l, 'r, 'c) live_run"
    using that by (auto simp: set_paused_cmd_def Let_def split: if_splits option.splits)
  then show "keeps_live (set_paused_cmd sp ch paused now)"
    unfolding keeps_live_def using set_paused_ok by metis
  show "keeps_live (\<lambda>r. map_option (\<lambda>(x, r). (Inr x, r)) (finish_cmd sp ch now r))"
    unfolding keeps_live_def
    by (auto simp: finish_cmd_def finish_ok(1) finish_sim(3,4) split: option.splits)
  have "lr_done r' = lr_done r \<and> lr_req r' = lr_req r" if "subscribe_cmd sp buffer from catchup now r = Some (x, r')"
    for x and r r' :: "('l, 'r, 'c) live_run"
    using that by (auto simp: subscribe_cmd_def Let_def split: if_splits option.splits)
  then show "keeps_live (subscribe_cmd sp buffer from catchup now :: ('l, 'r, 'c) live_run \<Rightarrow> _)" if "1 \<le> buffer"
    unfolding keeps_live_def using subscribe_ok [OF _ _ that] by metis
qed

lemma add_run_ok:
  assumes "reg_ok g" "\<not> g_closed g" "map_of (g_runs g) runID = None" "live_ok r" "\<not> lr_done r" "rq_RunID (lr_req r) = runID"
  shows "reg_ok (add_run runID r g)"
proof -
  have "filter (\<lambda>p. fst p \<noteq> runID) (g_runs g) = g_runs g"
    using assms(3) by (auto simp: filter_id_conv map_of_eq_None_iff image_iff)
  with assms show ?thesis by (auto simp: reg_ok_def add_run_def map_of_eq_None_iff)
qed

lemma claim_loop_unused:
  assumes "0 \<le> n" "claim_loop k sp opn policy runs e n = Some (res, n')"
  shows "0 \<le> n' \<and> (\<forall>runID L rc. res = Inr (runID, L, rc) \<longrightarrow> map_of runs runID = None)"
  using assms
proof (induction k arbitrary: e n)
  case (Suc k)
  obtain m where m: "generate_id runs n = Some (generated_id m, m)" "n < m" "map_of runs (generated_id m) = None"
    using generate_id_step [OF Suc.prems(1) refl, of runs] by blast
  obtain x rc where o: "open_run_log sp opn policy (generated_id m) = (x, rc)"
    by (cases "open_run_log sp opn policy (generated_id m)")
  show ?case
  proof (cases x)
    case (Inl err)
    with Suc.prems m o Suc.IH [of m "Some err"] show ?thesis by (auto split: if_splits)
  next
    case (Inr L)
    with Suc.prems m o show ?thesis by auto
  qed
qed auto

lemma claim_log_unused:
  assumes "claim_log sp opn runID0 generated g = Some (res, n)" "0 \<le> g_nextID g"
    "\<not> generated \<Longrightarrow> map_of (g_runs g) runID0 = None"
  shows "0 \<le> n \<and> (\<forall>runID L rc. res = Inr (runID, L, rc) \<longrightarrow> map_of (g_runs g) runID = None)"
proof (cases generated)
  case True
  with assms(1) have "claim_loop max_id_attempts sp opn (g_corrupt g) (g_runs g) None (g_nextID g) = Some (res, n)"
    by (simp add: claim_log_def)
  from claim_loop_unused [OF assms(2) this] show ?thesis .
next
  case False
  with assms show ?thesis by (auto simp: claim_log_def split: prod.splits sum.splits)
qed

lemma start_run_cases:
  assumes "start_run sp ch opn now req g = Some (x, g')"
  shows "g_runs g' = g_runs g \<and> g_order g' = g_order g \<and> g_closed g' = g_closed g \<and> (\<forall>v. x \<noteq> Inr v) \<and>
      (g_nextID g' = g_nextID g \<or> (\<exists>res. claim_log sp opn (rq_RunID req) (rq_RunID req = []) g = Some (res, g_nextID g')))
    \<or> (\<exists>v. x = Inr v)"
proof -
  have cl: "claim_log sp opn (rq_RunID req) (rq_RunID req = []) g = Some (res, n) \<Longrightarrow>
     \<exists>res. claim_log sp opn (rq_RunID req) (rq_RunID req = []) g = Some (res, n)" for res n by blast
  show ?thesis
    using assms
    by (auto simp: start_run_def Let_def new_live_run_def split: option.splits sum.splits prod.splits if_splits)
qed

lemma reg_ok_nextID [simp]: "reg_ok (g\<lparr>g_nextID := n\<rparr>) = reg_ok g"
  by (simp add: reg_ok_def)

lemma start_run_reg_ok:
  assumes "start_run sp ch opn now req g = Some (x, g')" "reg_ok g" "0 \<le> g_nextID g"
  shows "reg_ok g' \<and> 0 \<le> g_nextID g'"
proof (cases "\<exists>v. x = Inr v")
  case False
  note c = start_run_cases [OF assms(1)]
  have unused: "rq_RunID req \<noteq> [] \<Longrightarrow> map_of (g_runs g) (rq_RunID req) = None"
    if "claim_log sp opn (rq_RunID req) (rq_RunID req = []) g = Some (res, g_nextID g')" "g_nextID g' \<noteq> g_nextID g" for res
    using that by (auto simp: claim_log_def split: if_splits prod.splits sum.splits)
  have "0 \<le> g_nextID g'"
  proof (cases "g_nextID g' = g_nextID g")
    case ne: False
    then obtain res where res: "claim_log sp opn (rq_RunID req) (rq_RunID req = []) g = Some (res, g_nextID g')"
      using c False by blast
    from claim_log_unused [OF res assms(3)] unused [OF res ne] show ?thesis by blast
  qed (use assms(3) in simp)
  moreover have "reg_ok g'" using c False assms(2) by (auto simp: reg_ok_def)
  ultimately show ?thesis by simp
next
  case True
  then obtain v where st: "start_run sp ch opn now req g = Some (Inr v, g')" using assms(1) by blast
  obtain runID L rc n s where p: "\<not> g_closed g"
    "claim_log sp opn (rq_RunID req) (rq_RunID req = []) g = Some (Inr (runID, L, rc), n)"
    "g' = add_run runID (new_live_run ((fill_defaults g req)\<lparr>rq_RunID := runID\<rparr>) s state_running now rc False)
            (g\<lparr>g_nextID := n\<rparr>)"
    "v = view_of (new_live_run ((fill_defaults g req)\<lparr>rq_RunID := runID\<rparr>) s state_running now rc False)"
    by (rule start_run_ok [OF st], rule that)
  have id: "vw_RunID v = runID" by (simp add: p(4) view_of_def new_live_run_def)
  let ?r = "new_live_run ((fill_defaults g req)\<lparr>rq_RunID := runID\<rparr>) s state_running now rc False"
  have m: "map_of (g_runs g') (vw_RunID v) = Some ?r" using p(3) id by simp
  have "rq_RunID req \<noteq> [] \<Longrightarrow> map_of (g_runs g) (rq_RunID req) = None"
    using st p(1) by (auto simp: start_run_def Let_def split: option.splits if_splits)
  with claim_log_unused [OF p(2) assms(3)] have u: "0 \<le> n" "map_of (g_runs g) runID = None" by auto
  have "reg_ok g'" unfolding p(3)
    using started_live_ok(1,3) [OF st m] assms(2) p(1) u(2)
    by (intro add_run_ok) (simp_all add: new_live_run_def)
  moreover have "0 \<le> g_nextID g'" using u(1) by (simp add: p(3) add_run_def)
  ultimately show ?thesis by simp
qed

lemma resume_sim_log: "resume_sim sp ch runID (Some L) m = Some (Inr (s, sn)) \<Longrightarrow> s_log s \<noteq> None"
  by (auto simp: resume_sim_def Let_def split: option.splits sum.splits prod.splits if_splits)

lemma recover_one_ok:
  assumes "recover_one sp ch opn now runID g = Some (x, g')" "reg_ok g"
  shows "reg_ok g' \<and> g_nextID g' = g_nextID g"
proof (cases "\<exists>v. x = Inr (Some v)")
  case False
  with assms have "g' = g"
    by (auto simp: recover_one_def Let_def new_live_run_def split: if_splits prod.splits sum.splits option.splits)
  with assms(2) show ?thesis by simp
next
  case True
  then obtain L rc s sn where p: "\<not> g_closed g" "map_of (g_runs g) runID = None"
    "open_history sp opn (g_corrupt g) runID = (Inr L, rc)" "resume_sim sp ch runID (Some L) (g_metrics g) = Some (Inr (s, sn))"
    "sn_State sn \<noteq> state_finished"
    using assms(1) by (auto simp: recover_one_def Let_def split: if_splits prod.splits sum.splits option.splits)
  let ?st = "if sn_State sn \<noteq> state_paused then state_running else sn_State sn"
  obtain req where g': "g' = add_run runID (new_live_run req (set_state ?st s) ?st now rc True) g" "rq_RunID req = runID"
    using assms(1) p by (fastforce simp: recover_one_def Let_def)
  have "live_ok (new_live_run req (set_state ?st s) ?st now rc True)"
    using resume_sim_log [OF p(4)] by (intro new_live_run_ok) (auto simp: set_state_def)
  then have "reg_ok g'" unfolding g'(1)
    by (intro add_run_ok assms(2) p(1,2)) (simp_all add: new_live_run_def g'(2))
  then show ?thesis by (simp add: g'(1) add_run_def)
qed

lemma tick_registry_ok:
  assumes "tick_registry sp ch now runID g = Some g'" "reg_ok g"
  shows "reg_ok g'"
proof (cases "map_of (g_runs g) runID")
  case None
  with assms show ?thesis by (simp add: tick_registry_def)
next
  case (Some r)
  then obtain r' where r': "tick_run sp ch now r = Some r'" "g' = put_run runID r' g"
    using assms(1) by (auto simp: tick_registry_def)
  have r: "live_ok r" "\<not> lr_done r" using assms(2) Some by (auto simp: reg_ok_def list_all_iff dest!: map_of_SomeD)
  have "live_ok r' \<and> lr_done r' = lr_done r \<and> lr_req r' = lr_req r"
    using r'(1) r advance_ok [of sp ch now r r'] advance_frame [of sp ch now r r'] by (auto simp: tick_run_def split: if_splits)
  with r r'(2) put_run_ok [OF assms(2) Some] show ?thesis by auto
qed

text \<open>The calls a registry receives, and the ticks its runs receive, in any order.\<close>

inductive reg_move ::
  "('fs, 'l, 'r) spine \<Rightarrow> 'c chain_ops \<Rightarrow> ('l, 'r, 'c) registry \<Rightarrow> ('l, 'r, 'c) registry \<Rightarrow> bool"
  for sp :: "('fs, 'l, 'r) spine" and ch :: "'c chain_ops" where
  start: "start_run sp ch opn now req g = Some (x, g') \<Longrightarrow> reg_move sp ch g g'"
| recover: "recover_one sp ch opn now runID g = Some (y, g') \<Longrightarrow> reg_move sp ch g g'"
| tick: "tick_registry sp ch now runID g = Some g' \<Longrightarrow> reg_move sp ch g g'"
| update: "update_controls now runID c g = Some (z, g') \<Longrightarrow> reg_move sp ch g g'"
| paused: "set_paused sp ch now runID p g = Some (w, g') \<Longrightarrow> reg_move sp ch g g'"
| finish: "finish_run sp ch now runID g = Some (u, g') \<Longrightarrow> reg_move sp ch g g'"
| subscribe: "subscribe_run sp now runID buffer from catchup g = Some (q, g') \<Longrightarrow> reg_move sp ch g g'"
| close: "close_registry sp g = (rs, g') \<Longrightarrow> reg_move sp ch g g'"

inductive reg_reach ::
  "('fs, 'l, 'r) spine \<Rightarrow> 'c chain_ops \<Rightarrow> ('l, 'r, 'c) registry \<Rightarrow> ('l, 'r, 'c) registry \<Rightarrow> bool"
  for sp :: "('fs, 'l, 'r) spine" and ch :: "'c chain_ops" and g0 :: "('l, 'r, 'c) registry" where
  init: "reg_reach sp ch g0 g0"
| move: "reg_reach sp ch g0 g \<Longrightarrow> reg_move sp ch g g' \<Longrightarrow> reg_reach sp ch g0 g'"

lemma on_run_nextID: "on_run fn runID g = Some (x, g') \<Longrightarrow> g_nextID g' = g_nextID g"
  by (auto simp: on_run_def put_run_def split: sum.splits option.splits)

lemma reg_move_ok:
  assumes "reg_move sp ch g g'" "reg_ok g" "0 \<le> g_nextID g"
  shows "reg_ok g' \<and> 0 \<le> g_nextID g'"
  using assms(1)
proof cases
  case (start opn now req x)
  from start_run_reg_ok [OF this assms(2,3)] show ?thesis .
next
  case (recover opn now runID y)
  from recover_one_ok [OF this assms(2)] assms(3) show ?thesis by simp
next
  case (tick now runID)
  have "g_nextID g' = g_nextID g" using tick by (auto simp: tick_registry_def put_run_def split: option.splits)
  with tick_registry_ok [OF tick assms(2)] assms(3) show ?thesis by simp
next
  case (update now runID c z)
  then have "on_run (update_controls_cmd c now) runID g = Some (z, g')" by (simp add: update_controls_def)
  from on_run_ok [OF this assms(2) commands_keep_live(1)] on_run_nextID [OF this] assms(3) show ?thesis by simp
next
  case (paused now runID p w)
  then have "on_run (set_paused_cmd sp ch p now) runID g = Some (w, g')" by (simp add: set_paused_def)
  from on_run_ok [OF this assms(2) commands_keep_live(2)] on_run_nextID [OF this] assms(3) show ?thesis by simp
next
  case (finish now runID u)
  then have "on_run (\<lambda>r. map_option (\<lambda>(x, r). (Inr x, r)) (finish_cmd sp ch now r)) runID g = Some (u, g')"
    by (simp add: finish_run_def)
  from on_run_ok [OF this assms(2) commands_keep_live(3)] on_run_nextID [OF this] assms(3) show ?thesis by simp
next
  case (subscribe now runID buffer pos catchup q)
  let ?b = "if buffer \<le> 0 then default_subscriber_buffer else buffer"
  have "on_run (subscribe_cmd sp ?b pos catchup now) runID g = Some (q, g')"
    using subscribe by (simp add: subscribe_run_def)
  moreover have "1 \<le> ?b" by (simp add: default_subscriber_buffer_def)
  ultimately show ?thesis
    using on_run_ok [OF _ assms(2) commands_keep_live(4)] on_run_nextID assms(3) by metis
next
  case (close rs)
  with assms(2,3) show ?thesis by (auto simp: close_registry_def reg_ok_def split: if_splits)
qed

lemma new_registry_ok:
  "reg_ok (new_registry opts :: ('l, 'r, 'c) registry)" "0 \<le> g_nextID (new_registry opts :: ('l, 'r, 'c) registry)"
proof -
  have "reg_ok g \<and> 0 \<le> g_nextID g \<Longrightarrow> reg_ok (fold apply_option opts g) \<and> 0 \<le> g_nextID (fold apply_option opts g)" for g :: "('l, 'r, 'c) registry"
  proof (induction opts arbitrary: g)
    case (Cons o' opts)
    have "reg_ok (apply_option o' g) \<and> 0 \<le> g_nextID (apply_option o' g)" using Cons.prems by (cases o') (auto simp: reg_ok_def)
    with Cons.IH show ?case by simp
  qed simp
  then show "reg_ok (new_registry opts :: ('l, 'r, 'c) registry)" "0 \<le> g_nextID (new_registry opts :: ('l, 'r, 'c) registry)"
    by (simp_all add: new_registry_def reg_ok_def)
qed

text \<open>
  C25. The registry stays consistent through any sequence of calls and ticks, failed ones
  included: no two runs share an ID, the start order lists exactly the runs there are, every
  entry is filed under its own run ID and is a well-formed live run, and a closed registry has
  no runs.
\<close>

theorem registry_invariant:
  assumes "reg_reach sp ch (new_registry opts) g"
  shows "reg_ok g"
proof -
  have "reg_ok g \<and> 0 \<le> g_nextID g"
    using assms by (induction rule: reg_reach.induct) (auto simp: new_registry_ok dest: reg_move_ok)
  then show ?thesis by simp
qed

theorem registry_invariant_witness:
  "\<exists>g :: mem_registry. map fst (g_runs g) = [''run-0001''] \<and> reg_ok g"
proof -
  obtain v g' r0 where st:
    "start_run mem_spine list_chain (ephemeral_logs mem_spine) 0 demo_request demo_registry = Some (Inr v, g')"
    "map_of (g_runs g') (vw_RunID v) = Some r0" "vw_RunID v = ''run-0001''" by (rule demo_start)
  obtain runID L rc n s where g: "g' = add_run runID (new_live_run ((fill_defaults demo_registry demo_request)\<lparr>rq_RunID := runID\<rparr>)
      s state_running 0 rc False) (demo_registry\<lparr>g_nextID := n\<rparr>)"
    "v = view_of (new_live_run ((fill_defaults demo_registry demo_request)\<lparr>rq_RunID := runID\<rparr>) s state_running 0 rc False)"
    by (rule start_run_ok [OF st(1)], rule that)
  have "runID = ''run-0001''" using g(2) st(3) by (simp add: view_of_def new_live_run_def)
  then have "map fst (g_runs g') = [''run-0001'']"
    using g(1) by (simp add: add_run_def demo_registry_def new_registry_def)
  moreover have "reg_reach mem_spine list_chain (new_registry [WithSnapshotEvery 5]) g'"
    using st(1) unfolding demo_registry_def by (intro reg_reach.move [OF reg_reach.init reg_move.start])
  then have "reg_ok g'" by (rule registry_invariant)
  ultimately show ?thesis by (intro exI [of _ g'] conjI)
qed

subsection \<open>Refused starts\<close>

definition request_ok :: "start_request \<Rightarrow> bool" where
  "request_ok r \<longleftrightarrow> 1 \<le> rq_Organisms r \<and> 0 \<le> rq_TickInterval r \<and> 0 \<le> rq_MaxTicks r \<and>
     0 \<le> rq_DuplicateEvery r \<and> 0 \<le> rq_SnapshotEvery r \<and> controls_ok (rq_Controls r)"

lemma validate_request_None: "validate_request r = None \<longleftrightarrow> request_ok r"
  by (auto simp: validate_request_def request_ok_def validate_controls_None_iff)

lemma start_run_refused:
  assumes "start_run sp ch opn now req g = Some (Inl e, g')"
  shows "g' = g\<lparr>g_nextID := g_nextID g'\<rparr>" "rq_RunID req \<noteq> [] \<Longrightarrow> g' = g"
proof -
  have "g' = g\<lparr>g_nextID := g_nextID g'\<rparr> \<and> (rq_RunID req \<noteq> [] \<longrightarrow> g' = g)"
    using assms
    by (auto simp: start_run_def Let_def new_live_run_def claim_log_def split: option.splits sum.splits prod.splits if_splits)
  then show "g' = g\<lparr>g_nextID := g_nextID g'\<rparr>" "rq_RunID req \<noteq> [] \<Longrightarrow> g' = g" by blast+
qed

lemma invalid_request_refused:
  assumes "\<not> request_ok req"
  obtains e where "start_run sp ch opn now req g = Some (Inl (Errorf [T ''invalid start run request: '', W e]), g)"
proof -
  obtain e where "validate_request req = Some e" using assms by (cases "validate_request req") (auto simp: validate_request_None)
  then show ?thesis using that by (simp add: start_run_def)
qed

text \<open>The log a named run asks for, opened and claimed.\<close>

lemma named_start:
  assumes "request_ok req" "\<not> g_closed g" "rq_RunID req \<noteq> []" "map_of (g_runs g) (rq_RunID req) = None"
  shows "open_run_log sp opn (g_corrupt g) (rq_RunID req) = (Inl e, rc) \<Longrightarrow> start_run sp ch opn now req g = Some (Inl e, g)"
    "open_run_log sp opn (g_corrupt g) (rq_RunID req) = (Inr L, rc) \<Longrightarrow>
       new_sim sp ch (request_config (fill_defaults g req) (g_metrics g)) (Some L) = Inr s \<Longrightarrow>
       save_sim sp ch (set_state state_running s) = Some (Some e, s') \<Longrightarrow>
       start_run sp ch opn now req g = Some (Inl (Errorf [T ''record run '', T (rq_RunID req), T '': '', W e]), g)"
proof -
  have v: "validate_request req = None" using assms(1) by (simp add: validate_request_None)
  show "start_run sp ch opn now req g = Some (Inl e, g)" if "open_run_log sp opn (g_corrupt g) (rq_RunID req) = (Inl e, rc)"
    using v assms(2-4) that by (simp add: start_run_def Let_def claim_log_def)
  have id: "(fill_defaults g req)\<lparr>rq_RunID := rq_RunID req\<rparr> = fill_defaults g req"
    by (simp add: fill_defaults_def Let_def)
  show "start_run sp ch opn now req g = Some (Inl (Errorf [T ''record run '', T (rq_RunID req), T '': '', W e]), g)"
    if "open_run_log sp opn (g_corrupt g) (rq_RunID req) = (Inr L, rc)"
      "new_sim sp ch (request_config (fill_defaults g req) (g_metrics g)) (Some L) = Inr s"
      "save_sim sp ch (set_state state_running s) = Some (Some e, s')"
    using v assms(2-4) that by (simp add: start_run_def Let_def claim_log_def id)
qed

lemma open_run_log_answers:
  "opn i = (Inl err, rc) \<Longrightarrow>
     open_run_log sp opn policy i = (Inl (Errorf [T ''open log for run '', T i, T '': '', W err]), rc)"
  "opn i = (Inr L, rc) \<Longrightarrow> rc_Corrupt rc \<noteq> None \<Longrightarrow> policy = RefuseCorrupt \<Longrightarrow>
     \<exists>e. open_run_log sp opn policy i = (Inl e, rc) \<and> errors_is e (Sentinel ErrCorruptLog)"
  "opn i = (Inr L, rc) \<Longrightarrow> rc_Corrupt rc = None \<Longrightarrow> log_next sp L > 0 \<Longrightarrow>
     \<exists>e. open_run_log sp opn policy i = (Inl e, rc) \<and> errors_is e (Sentinel ErrRunHasHistory)"
  "opn i = (Inr L, rc) \<Longrightarrow> rc_Corrupt rc = None \<Longrightarrow> log_next sp L \<le> 0 \<Longrightarrow>
     open_run_log sp opn policy i = (Inr L, rc)"
  by (auto simp: open_run_log_def open_history_def)

text \<open>What the log of a named run can answer, and what the start makes of it.\<close>

lemma named_log_refusals:
  assumes ok: "request_ok req" "\<not> g_closed g" "rq_RunID req \<noteq> []" "map_of (g_runs g) (rq_RunID req) = None"
  shows "opn (rq_RunID req) = (Inl err, rc) \<Longrightarrow>
       start_run sp ch opn now req g = Some (Inl (Errorf [T ''open log for run '', T (rq_RunID req), T '': '', W err]), g)"
    "opn (rq_RunID req) = (Inr L, rc) \<Longrightarrow> rc_Corrupt rc \<noteq> None \<Longrightarrow> g_corrupt g = RefuseCorrupt \<Longrightarrow>
       \<exists>e. start_run sp ch opn now req g = Some (Inl e, g) \<and> errors_is e (Sentinel ErrCorruptLog)"
    "opn (rq_RunID req) = (Inr L, rc) \<Longrightarrow> rc_Corrupt rc = None \<Longrightarrow> log_next sp L > 0 \<Longrightarrow>
       \<exists>e. start_run sp ch opn now req g = Some (Inl e, g) \<and> errors_is e (Sentinel ErrRunHasHistory)"
    "opn (rq_RunID req) = (Inr L, rc) \<Longrightarrow> rc_Corrupt rc = None \<Longrightarrow> log_next sp L \<le> 0 \<Longrightarrow>
       new_sim sp ch (request_config (fill_defaults g req) (g_metrics g)) (Some L) = Inr s \<Longrightarrow>
       save_sim sp ch (set_state state_running s) = Some (Some e', s') \<Longrightarrow>
       start_run sp ch opn now req g = Some (Inl (Errorf [T ''record run '', T (rq_RunID req), T '': '', W e']), g)"
proof -
  note ns = named_start [OF ok]
  show "start_run sp ch opn now req g = Some (Inl (Errorf [T ''open log for run '', T (rq_RunID req), T '': '', W err]), g)"
    if "opn (rq_RunID req) = (Inl err, rc)"
    by (rule ns(1) [OF open_run_log_answers(1) [where opn = opn, OF that]])
  show "\<exists>e. start_run sp ch opn now req g = Some (Inl e, g) \<and> errors_is e (Sentinel ErrCorruptLog)"
    if "opn (rq_RunID req) = (Inr L, rc)" "rc_Corrupt rc \<noteq> None" "g_corrupt g = RefuseCorrupt"
  proof -
    note answer = open_run_log_answers(2) [where opn = opn, OF that]
    obtain e where "open_run_log sp opn (g_corrupt g) (rq_RunID req) = (Inl e, rc)" "errors_is e (Sentinel ErrCorruptLog)"
      using answer by blast
    with ns(1) show ?thesis by (intro exI [of _ e] conjI)
  qed
  show "\<exists>e. start_run sp ch opn now req g = Some (Inl e, g) \<and> errors_is e (Sentinel ErrRunHasHistory)"
    if "opn (rq_RunID req) = (Inr L, rc)" "rc_Corrupt rc = None" "log_next sp L > 0"
  proof -
    note answer = open_run_log_answers(3) [where opn = opn, OF that]
    obtain e where "open_run_log sp opn (g_corrupt g) (rq_RunID req) = (Inl e, rc)" "errors_is e (Sentinel ErrRunHasHistory)"
      using answer by blast
    with ns(1) show ?thesis by (intro exI [of _ e] conjI)
  qed
  show "start_run sp ch opn now req g = Some (Inl (Errorf [T ''record run '', T (rq_RunID req), T '': '', W e']), g)"
    if "opn (rq_RunID req) = (Inr L, rc)" "rc_Corrupt rc = None" "log_next sp L \<le> 0"
      "new_sim sp ch (request_config (fill_defaults g req) (g_metrics g)) (Some L) = Inr s"
      "save_sim sp ch (set_state state_running s) = Some (Some e', s')"
    by (rule ns(2) [OF open_run_log_answers(4) [where opn = opn, OF that(1-3)] that(4,5)])
qed

text \<open>A search in which every log already holds records gives up and says so.\<close>

lemma claim_loop_exhausted:
  assumes "\<And>i. \<exists>e rc. open_run_log sp opn policy i = (Inl e, rc) \<and> errors_is e (Sentinel ErrRunHasHistory)"
    "0 \<le> n" "k = 0 \<Longrightarrow> \<exists>e. lastErr = Some e \<and> errors_is e (Sentinel ErrRunHasHistory)"
  shows "\<exists>e n'. claim_loop k sp opn policy runs lastErr n = Some (Inl e, n') \<and> errors_is e (Sentinel ErrRunHasHistory)"
  using assms(2,3)
proof (induction k arbitrary: lastErr n)
  case (Suc k)
  obtain m where m: "generate_id runs n = Some (generated_id m, m)" "n < m"
    using generate_id_step [OF Suc.prems(1) refl, of runs] by blast
  obtain e rc where e: "open_run_log sp opn policy (generated_id m) = (Inl e, rc)" "errors_is e (Sentinel ErrRunHasHistory)"
    using assms(1) by blast
  with Suc.IH [of m "Some e"] m Suc.prems(1) show ?case by simp
qed auto


lemma demo_started:
  obtains v and g' :: mem_registry and r0 where
    "start_run mem_spine list_chain (ephemeral_logs mem_spine) 0 demo_request demo_registry = Some (Inr v, g')"
    "map_of (g_runs g') (vw_RunID v) = Some r0" "g_runs g' = [(''run-0001'', r0)]" "\<not> g_closed g'"
proof -
  obtain v g' r0 where st:
    "start_run mem_spine list_chain (ephemeral_logs mem_spine) 0 demo_request demo_registry = Some (Inr v, g')"
    "map_of (g_runs g') (vw_RunID v) = Some r0" "vw_RunID v = ''run-0001''" by (rule demo_start)
  obtain runID n and r :: mem_run where "g' = add_run runID r (demo_registry\<lparr>g_nextID := n\<rparr>)"
    by (rule start_run_ok [OF st(1)], rule that)
  then have "g_runs g' = [(runID, r)]" "\<not> g_closed g'"
    by (simp_all add: add_run_def demo_registry_def new_registry_def)
  with that st show ?thesis by (auto split: if_splits)
qed


subsection \<open>Recovering many runs\<close>

definition same_settings :: "('l, 'r, 'c) registry \<Rightarrow> ('l, 'r, 'c) registry \<Rightarrow> bool" where
  "same_settings g h \<longleftrightarrow> g_interval h = g_interval g \<and> g_snapshot h = g_snapshot g \<and> g_corrupt h = g_corrupt g \<and>
     g_metrics h = g_metrics g \<and> g_closed h = g_closed g"

lemma get_run_add_run:
  "get_run runID (add_run runID r g) = (if g_closed g then Inl (Sentinel ErrRegistryDown)
     else if lr_done r then Inl (Sentinel ErrRunClosed) else Inr (view_of r))"
  using map_of_add_run [of runID r g] by (simp add: get_run_def query_run_def lookup_run_def) (simp add: add_run_def)

lemma recover_one_same:
  assumes "same_settings g h" "map_of (g_runs g) runID = None" "map_of (g_runs h) runID = None"
  shows "map_option fst (recover_one sp ch opn now runID h) = map_option fst (recover_one sp ch opn now runID g)"
  using assms
  by (simp add: recover_one_def same_settings_def Let_def get_run_add_run split: prod.split sum.split option.split)

lemma map_of_filter_other:
  "other \<noteq> runID \<Longrightarrow> map_of (filter (\<lambda>p. fst p \<noteq> runID) xs) other = map_of xs other"
  by (induction xs) auto

lemma recover_one_runs:
  assumes "recover_one sp ch opn now runID g = Some (x, g')"
  shows "same_settings g g'" "other \<noteq> runID \<Longrightarrow> map_of (g_runs g') other = map_of (g_runs g) other"
    "\<And>v. x = Inr (Some v) \<Longrightarrow> vw_RunID v = runID"
proof -
  have "same_settings g g' \<and> (other \<noteq> runID \<longrightarrow> map_of (g_runs g') other = map_of (g_runs g) other) \<and>
    (\<forall>v. x = Inr (Some v) \<longrightarrow> vw_RunID v = runID)"
  proof (cases "\<exists>v. x = Inr (Some v)")
    case False
    with assms have "g' = g"
      by (auto simp: recover_one_def Let_def new_live_run_def split: if_splits prod.splits sum.splits option.splits)
    with False show ?thesis by (auto simp: same_settings_def)
  next
    case True
    then obtain L rc s sn where p: "\<not> g_closed g" "map_of (g_runs g) runID = None"
      "open_history sp opn (g_corrupt g) runID = (Inr L, rc)" "resume_sim sp ch runID (Some L) (g_metrics g) = Some (Inr (s, sn))"
      "sn_State sn \<noteq> state_finished"
      using assms by (auto simp: recover_one_def Let_def split: if_splits prod.splits sum.splits option.splits)
    then obtain r where r: "g' = add_run runID r g" "\<not> lr_done r" "x = map_sum id Some (get_run runID g')"
      "rq_RunID (lr_req r) = runID"
      using assms by (auto simp: recover_one_def Let_def new_live_run_def)
    have "x = Inr (Some (view_of r))" using r p(1) by simp
    with r(1,4) show ?thesis
      by (auto simp: same_settings_def add_run_def view_of_def map_add_def map_of_filter_other split: option.split)
  qed
  then show "same_settings g g'" "other \<noteq> runID \<Longrightarrow> map_of (g_runs g') other = map_of (g_runs g) other"
    "\<And>v. x = Inr (Some v) \<Longrightarrow> vw_RunID v = runID" by blast+
qed

definition revives ::
  "('fs, 'l, 'r) spine \<Rightarrow> 'c chain_ops \<Rightarrow> ('l, 'r) log_opener \<Rightarrow> int \<Rightarrow> ('l, 'r, 'c) registry \<Rightarrow> string \<Rightarrow> bool" where
  "revives sp ch opn now g runID \<longleftrightarrow> (\<exists>v g'. recover_one sp ch opn now runID g = Some (Inr (Some v), g'))"

definition fails ::
  "('fs, 'l, 'r) spine \<Rightarrow> 'c chain_ops \<Rightarrow> ('l, 'r) log_opener \<Rightarrow> int \<Rightarrow> ('l, 'r, 'c) registry \<Rightarrow> string \<Rightarrow> bool" where
  "fails sp ch opn now g runID \<longleftrightarrow> (\<exists>e g'. recover_one sp ch opn now runID g = Some (Inl e, g'))"

lemma recover_runs_spec:
  assumes "same_settings g h" "distinct ids" "\<forall>i \<in> set ids. map_of (g_runs g) i = None \<and> map_of (g_runs h) i = None"
    "recover_runs sp ch opn now ids revived errs h = Some (out, err, g')"
  shows "map vw_RunID out = map vw_RunID revived @ filter (revives sp ch opn now g) ids \<and>
    (err = None \<longleftrightarrow> errs = [] \<and> (\<forall>i \<in> set ids. \<not> fails sp ch opn now g i))"
  using assms
proof (induction ids arbitrary: revived errs h)
  case (Cons i ids)
  obtain x h' where r: "recover_one sp ch opn now i h = Some (x, h')"
    using Cons.prems(4) by (cases "recover_one sp ch opn now i h") auto
  note rr = recover_one_runs [OF r]
  have same: "same_settings g h'" using Cons.prems(1) rr(1) by (simp add: same_settings_def)
  have free: "\<forall>j \<in> set ids. map_of (g_runs g) j = None \<and> map_of (g_runs h') j = None"
  proof
    fix j assume j: "j \<in> set ids"
    then have "j \<noteq> i" using Cons.prems(2) by auto
    with j Cons.prems(3) rr(2) [of j] show "map_of (g_runs g) j = None \<and> map_of (g_runs h') j = None" by simp
  qed
  have "map_option fst (recover_one sp ch opn now i g) = Some x"
    using recover_one_same [OF Cons.prems(1), of i sp ch opn now] Cons.prems(3) r by simp
  then obtain g1 where g1: "recover_one sp ch opn now i g = Some (x, g1)" by auto
  have flags: "revives sp ch opn now g i \<longleftrightarrow> (\<exists>v. x = Inr (Some v))" "fails sp ch opn now g i \<longleftrightarrow> (\<exists>e. x = Inl e)"
    by (auto simp: revives_def fails_def g1)
  note IH = Cons.IH [OF same _ free]
  show ?case
  proof (cases x)
    case (Inl e)
    with Cons.prems(2,4) r IH [of revived "errs @ [e]"] flags show ?thesis by auto
  next
    case (Inr y)
    show ?thesis
    proof (cases y)
      case None
      with Inr Cons.prems(2,4) r IH [of revived errs] flags show ?thesis by auto
    next
      case (Some v)
      with Inr Cons.prems(2,4) r IH [of "revived @ [v]" errs] flags rr(3) show ?thesis by auto
    qed
  qed
qed auto

text \<open>
  C27. One run that cannot be recovered does not stop the others: for distinct IDs none of which
  is live, \<^verbatim>\<open>Recover\<close> revives exactly the runs that would be revived alone, in the given order, and
  reports an error exactly when some recovery fails; a run whose snapshot says it finished is
  neither revived nor an error.
\<close>

theorem recoveries_are_independent:
  assumes "distinct ids" "\<forall>i \<in> set ids. map_of (g_runs g) i = None" "recover sp ch opn now ids g = Some (out, err, g')"
  shows "map vw_RunID out = filter (revives sp ch opn now g) ids \<and>
    (err = None \<longleftrightarrow> (\<forall>i \<in> set ids. \<not> fails sp ch opn now g i))"
  using recover_runs_spec [of g g ids sp ch opn now "[]" "[]" out err g'] assms
  by (simp add: recover_def same_settings_def)

text \<open>An ephemeral opener finds nothing to resume: both IDs fail, with no run revived.\<close>

lemma mem_recover_empty:
  "recover_one mem_spine list_chain (ephemeral_logs mem_spine) 0 i demo_registry
     = Some (Inl (resume_error i (Sentinel ErrNoRunState)), demo_registry)"
proof -
  have wf: "wf_of mem_spine (\<lambda>l. l) mem_log" using mem_log_fresh by (simp add: fresh_log_def)
  have "read_loop mem_spine ''restore'' 0 mem_empty 0 [] = Some (None, [], 0)"
    by (subst read_loop.simps) (simp add: mem_spine_def mem_next_def mem_at_def mem_empty_def ab_next_def end_of_log_def)
  then have "log_restore mem_spine mem_log = Some (Inr (None, 0, []))"
    by (simp add: log_restore_def mem_log_def) (simp add: mem_spine_def mem_empty_def)
  then have "\<exists>g st. rebuild mem_spine mem_log = Some (Inr (g, zero_snapshot\<lparr>sn_Processor := st\<rparr>))"
    by (auto simp: rebuild_def organism_count_def fold_history_def new_garden_def process_batch_def errors_join_def)
  then obtain g st where rb: "rebuild mem_spine mem_log = Some (Inr (g, zero_snapshot\<lparr>sn_Processor := st\<rparr>))" by blast
  have "mark_folded mem_spine mem_log = (None, mem_log)"
    by (simp add: mark_folded_def mem_log_def mem_spine_def mem_empty_def ab_next_def)
  then have "resume_sim mem_spine list_chain i (Some mem_log) False = Some (Inl (resume_error i (Sentinel ErrNoRunState)))"
    using rb by (simp add: resume_sim_def zero_snapshot_def)
  then show ?thesis
    by (simp add: recover_one_def demo_registry_def new_registry_def open_history_def mem_ephemeral)
qed

theorem recoveries_are_independent_witness:
  "\<exists>err. recover mem_spine list_chain (ephemeral_logs mem_spine) 0 [''a'', ''b''] demo_registry = Some ([], Some err, demo_registry) \<and>
     filter (revives mem_spine list_chain (ephemeral_logs mem_spine) 0 demo_registry) [''a'', ''b''] = []"
proof -
  obtain err where r: "recover mem_spine list_chain (ephemeral_logs mem_spine) 0 [''a'', ''b''] demo_registry = Some ([], Some err, demo_registry)"
    by (simp add: recover_def mem_recover_empty errors_join_def)
  have "g_runs demo_registry = []" by (simp add: demo_registry_def new_registry_def)
  with recoveries_are_independent [OF _ _ r] r show ?thesis by simp
qed

lemma quit_run_spec:
  "lr_done (quit_run sp r)" "\<not> lr_ticker (quit_run sp r)" "lr_subs (quit_run sp r) = []"
  "\<exists>ds. lr_detached (quit_run sp r) = lr_detached r @ ds \<and> map sub_id ds = map (\<lambda>p. sub_id (snd p)) (lr_subs r) \<and>
       list_all (\<lambda>d. sub_closed d \<and> sub_reason d = SubscriptionClosedRegistryShutdown) ds"
  "lr_sim (quit_run sp r) = (lr_sim r)\<lparr>s_log := None\<rparr>"
proof -
  show "lr_sim (quit_run sp r) = (lr_sim r)\<lparr>s_log := None\<rparr>"
    by (simp add: quit_run_def close_subs_def stop_ticker_def Let_def close_sim_def split: option.split)
  show "lr_done (quit_run sp r)" "\<not> lr_ticker (quit_run sp r)" "lr_subs (quit_run sp r) = []"
    by (simp_all add: quit_run_def close_subs_def stop_ticker_def Let_def)
  show "\<exists>ds. lr_detached (quit_run sp r) = lr_detached r @ ds \<and> map sub_id ds = map (\<lambda>p. sub_id (snd p)) (lr_subs r) \<and>
       list_all (\<lambda>d. sub_closed d \<and> sub_reason d = SubscriptionClosedRegistryShutdown) ds"
    by (rule exI [of _ "map (\<lambda>(i, s). s\<lparr>sub_reason := SubscriptionClosedRegistryShutdown, sub_closed := True\<rparr>) (lr_subs r)"])
       (auto simp: quit_run_def close_subs_def stop_ticker_def Let_def list_all_iff)
qed



subsection \<open>Catching up\<close>

lemma started_inv:
  assumes "spine_laws sp disk" "start_run sp ch opn now0 req g = Some (Inr v, g')"
    "map_of (g_runs g') (vw_RunID v) = Some r0" "opens_fresh sp disk opn" "request_fits req" "utf8_ok (vw_RunID v)"
    "run_reach sp ch r0 r" "lr_failure r = None" "\<not> lr_done r"
  shows "\<exists>cfg b. run_inv sp disk cfg b (lr_sim r)"
proof -
  obtain cfg s0 L0 where st: "new_sim sp ch cfg (Some L0) = Inr s0" "config_fits cfg" "fresh_log sp disk L0"
    "sim_reach sp ch s0 (lr_sim r0)"
    by (rule started_sim [OF assms(2-6)], rule that)
  have "sim_reach sp ch s0 (lr_sim r)"
    using reach_trans [OF st(4)] run_reach_sim [OF assms(7-9)] by blast
  from spine_laws.reach_inv [OF assms(1) this spine_laws.start_inv [OF assms(1) st(1-3)]] show ?thesis by blast
qed

context reliable_spine
begin

lemma since_total:
  assumes "wf_of sp disk L" "ab_first (disk (el_log L)) \<le> from" "from \<le> ab_next (disk (el_log L))"
  shows "since sp from L = Some (None, drop (nat (from - ab_first (disk (el_log L)))) (hist_of disk L))"
proof -
  obtain r where r: "sp_reader sp (el_log L) from = Inr r" using reader_total [OF assms(2,3)] by blast
  have "\<exists>out r'. read_loop sp ''read'' 0 (el_log L) r [] = Some (None, out, r')"
    using reader_at [OF r] assms by (intro read_loop_total) (auto simp: wf_of_def)
  then obtain out where "since sp from L = Some (None, out)" using r assms(2,3) by (auto simp: since_def Let_def)
  with since_ok [OF assms] show ?thesis by auto
qed

end

lemma subscribe_catchup:
  assumes "subscribe_cmd sp buffer from True now r = Some (Inr (sub, missed), r')" "s_log (lr_sim r) = Some L"
  shows "since sp from L = Some (None, missed)" "sub_ch sub = [frame_of sp now r]"
    "lr_state r \<noteq> state_finished \<Longrightarrow> lr_subs r' = lr_subs r @ [(sub_id sub, sub)] \<and> sub_id sub = lr_nextSub r + 1"
    "lr_state r = state_finished \<Longrightarrow> sub_closed sub"
  using assms by (auto simp: subscribe_cmd_def since_of_def Let_def split: option.splits if_splits)

text \<open>
  The handover of a reconnecting client: it gets every record of the log from the offset it
  asked for, then the frame at the folded offset; the records delivered are those between the
  two offsets and the backlog, so nothing is missed, and nothing is delivered twice exactly when
  nothing is pending. The subscription is attached unless the run is finished, and then closed.
\<close>

lemma resume_handover:
  assumes "spine_laws sp disk" "start_run sp ch opn now0 req g = Some (Inr v, g')"
    "map_of (g_runs g') (vw_RunID v) = Some r0" "opens_fresh sp disk opn" "request_fits req" "utf8_ok (vw_RunID v)"
    "run_reach sp ch r0 r" "lr_failure r = None" "\<not> lr_done r" "s_log (lr_sim r) = Some L"
    "ab_first (disk (el_log L)) \<le> from" "from \<le> ab_next (disk (el_log L))"
    "subscribe_cmd sp buffer from True now r = Some (Inr (sub, missed), r')"
  shows "missed = drop (nat (from - ab_first (disk (el_log L)))) (hist_of disk L) \<and> sub_ch sub = [frame_of sp now r] \<and>
    int (length missed) = fr_FoldedOffset (frame_of sp now r) - from + pending_of sp (lr_sim r) \<and>
    (if lr_state r = state_finished then sub_closed sub else map_of (lr_subs r') (sub_id sub) = Some sub)"
proof -
  obtain cfg b where inv: "run_inv sp disk cfg b (lr_sim r)" using started_inv [OF assms(1-9)] by blast
  then have wf: "wf_of sp disk L" using assms(10) by (auto simp: run_inv_def follows_def)
  note sub = subscribe_catchup [OF assms(13,10)]
  obtain err out where "since sp from L = Some (err, out)"
    "err = None \<longrightarrow> out = drop (nat (from - ab_first (disk (el_log L)))) (hist_of disk L)"
    using spine_laws.since_ok [OF assms(1) wf assms(11,12)] by blast
  then have m: "missed = drop (nat (from - ab_first (disk (el_log L)))) (hist_of disk L)" using sub(1) by simp
  have "int (length missed) = fr_FoldedOffset (frame_of sp now r) - from + pending_of sp (lr_sim r)"
    using m assms(10-12) spine_laws.next_off [OF assms(1)]
    by (simp add: frame_of_def folded_of_def pending_of_def log_pending_def log_read_def hist_of_def ab_next_def)
  moreover have "map_of (lr_subs r') (sub_id sub) = Some sub" if "lr_state r \<noteq> state_finished"
  proof -
    have ok: "live_ok r" by (rule run_reach_ok [OF assms(7) started_live_ok(1) [OF assms(2,3)]])
    have "lr_nextSub r + 1 \<notin> fst ` set (lr_subs r)"
      using ok by (auto simp: live_ok_def list_all_iff sub_ok_def)
    then have "map_of (lr_subs r) (lr_nextSub r + 1) = None" by (simp add: map_of_eq_None_iff)
    with sub(3) [OF that] show ?thesis by (simp add: map_add_def)
  qed
  ultimately show ?thesis using m sub(2,4) by simp
qed

lemma resume_handover_witness:
  "\<exists>(r :: mem_run) from sub r'. subscribe_cmd mem_spine 4 from True 9 r = Some (Inr (sub, []), r') \<and>
     sub_ch sub = [frame_of mem_spine 9 r] \<and> map_of (lr_subs r') (sub_id sub) = Some sub"
proof -
  obtain v g' r0 where st:
    "start_run mem_spine list_chain (ephemeral_logs mem_spine) 0 demo_request demo_registry = Some (Inr v, g')"
    "map_of (g_runs g') (vw_RunID v) = Some r0" "vw_RunID v = ''run-0001''" by (rule demo_start)
  note s = started_live_ok [OF st(1,2)]
  have u: "utf8_ok (vw_RunID v)" using st(3) demo_request_fits(2) by simp
  obtain cfg s0 L0 where z: "new_sim mem_spine list_chain cfg (Some L0) = Inr s0" "fresh_log mem_spine (\<lambda>l. l) L0" "config_fits cfg"
    "save_sim mem_spine list_chain (set_state state_running s0) = Some (None, lr_sim r0)"
    by (rule started_sim [OF st(1,2) mem_opens_fresh demo_request_fits(1) u], rule that)
  obtain L1 L where L: "s_log (set_state state_running s0) = Some L1" "s_log (lr_sim r0) = Some L" "same_log mem_spine (\<lambda>l. l) L1 L"
    using mem.save_sim_frame [OF z(4)] by metis
  have "L1 = L0" using L(1) new_sim_run_ok(9) [OF z(1,3) refl] by (simp add: set_state_def)
  then have e: "ab_recs (el_log L) = []" "wf_of mem_spine (\<lambda>l. l) L" "ab_first (el_log L) = ab_first (el_log L0)"
    using L(3) z(2) same_log_views [OF L(3)] by (auto simp: same_log_def fresh_log_def)
  let ?f = "ab_first (el_log L)"
  have "since mem_spine ?f L = Some (None, [])" using mem.since_total [OF e(2), of ?f] e(1) by (simp add: hist_of_def ab_next_def)
  then obtain sub r' where sb: "subscribe_cmd mem_spine 4 ?f True 9 r0 = Some (Inr (sub, []), r')"
    using L(2) s(4) by (simp add: subscribe_cmd_def since_of_def Let_def state_defs)
  have b: "?f \<le> ?f" "?f \<le> ab_next (el_log L)" by simp_all
  have "sub_ch sub = [frame_of mem_spine 9 r0] \<and> map_of (lr_subs r') (sub_id sub) = Some sub"
    using resume_handover [OF mem_laws(1) st(1,2) mem_opens_fresh demo_request_fits(1) u run_reach.start s(2,3) L(2) b sb] s(4)
    by (simp add: state_defs)
  with sb show ?thesis by blast
qed

text \<open>
  An offset the log does not hold is refused: a reconnect below the first record or beyond
  the next one fails with \<^verbatim>\<open>ErrOffsetOutOfRange\<close> and changes nothing, for any run on any log.
\<close>

lemma resume_out_of_range:
  assumes "spine_laws sp disk" "s_log (lr_sim r) = Some L"
    "from < ab_first (disk (el_log L)) \<or> ab_next (disk (el_log L)) < from"
  shows "\<exists>e. subscribe_cmd sp buffer from True now r = Some (Inl e, r) \<and> errors_is e (Sentinel ErrOffsetOutOfRange)"
  using spine_laws.since_out_of_range [OF assms(1,3)] assms(2) by (auto simp: subscribe_cmd_def since_of_def)

lemma resume_out_of_range_witness:
  "\<exists>(r :: mem_run) e. subscribe_cmd mem_spine 4 (-1) True 9 r = Some (Inl e, r) \<and> errors_is e (Sentinel ErrOffsetOutOfRange)"
proof -
  let ?r = "new_live_run demo_request demo_sim state_running 0 zero_recovery False"
  have "s_log (lr_sim ?r) = Some mem_log"
    using new_sim_run_ok(9) [OF demo_sim_new demo_config_ok(2)] by (simp add: new_live_run_def)
  from resume_out_of_range [OF mem_laws(1) this, of "-1" 4 9] show ?thesis
    by (auto simp: mem_log_def mem_empty_def)
qed

end
