(* ===== verification/Batch_Live.thy ===== *)
theory Batch_Live
  imports Run Registry_Runs
begin

text \<open>
  The two ways to run a simulation, \<^verbatim>\<open>run.Execute\<close> and a live run of the engine, reach the same
  garden. Two simulations are twins when they agree on everything but the log they write to, what
  they save and report, and the configuration of saving; a tick keeps twins twins.
\<close>

subsection \<open>Twin simulations\<close>

definition twin ::
  "('fs, 'l, 'r) spine \<Rightarrow> ('l \<Rightarrow> contents) \<Rightarrow> ('l, 'r, 'c) sim \<Rightarrow> ('l, 'r, 'c) sim \<Rightarrow> bool" where
  "twin sp disk s t \<longleftrightarrow>
     s_prod s = s_prod t \<and> s_tick s = s_tick t \<and> s_controls s = s_controls t \<and> s_revision s = s_revision t \<and>
     s_pending s = s_pending t \<and> s_published s = s_published t \<and>
     c_DuplicateEvery (s_cfg s) = c_DuplicateEvery (s_cfg t) \<and> projection (s_proc s) = projection (s_proc t) \<and>
     (\<exists>L M. s_log s = Some L \<and> s_log t = Some M \<and> hist_of disk L = hist_of disk M \<and> cur_of sp disk L = cur_of sp disk M)"

lemma twin_batch:
  assumes "twin sp disk s t"
  shows "batch_of s = batch_of t" "next_controls s = next_controls t" "room s = room t"
proof -
  have "tick_batch s = tick_batch t" "s_prod s = s_prod t" "s_tick s = s_tick t" "s_controls s = s_controls t" "s_pending s = s_pending t"
    using assms by (simp_all add: twin_def tick_batch_def fun_eq_iff)
  then show "batch_of s = batch_of t" unfolding batch_of_def by (simp only:)
  show "next_controls s = next_controls t" "room s = room t"
    using assms by (simp_all add: twin_def next_controls_def room_def)
qed

lemma twin_controls:
  assumes "twin sp disk s t" "set_controls c s = (Inr n, s')"
  obtains t' where "set_controls c t = (Inr n, t')" "twin sp disk s' t'"
  using assms by (auto simp: set_controls_def twin_def Let_def split: option.splits)

lemma quiet_projection: "quiet s t \<Longrightarrow> projection (s_proc t) = projection (s_proc s)"
  by (auto simp: quiet_def projection_def)

lemma twin_quiet: "twin sp disk s t \<Longrightarrow> quiet s s' \<Longrightarrow> twin sp disk s' t"
  by (simp add: twin_def quiet_sels quiet_projection)

context spine_laws
begin

lemma twin_saved:
  assumes "twin sp disk s t" "save_sim sp ch s = Some (err, s')"
  shows "twin sp disk s' t"
proof -
  obtain L L' where "s_log s = Some L" "same_run s s'" "s_log s' = Some L'" "same_log sp disk L L'"
    using save_sim_frame [OF assms(2)] by metis
  with assms(1) same_log_views [of sp disk L L'] show ?thesis by (auto simp: twin_def same_run_def)
qed

lemma producer_of_run:
  assumes "run_ok s" "run_ok s'" "s_cfg s' = s_cfg s"
  shows "s_prod s' = (s_prod s)\<lparr>pd_seq := pd_seq (s_prod s')\<rparr>"
  using assms by (cases "s_prod s"; cases "s_prod s'") (auto simp: run_ok_def)

lemma twin_step:
  assumes "twin sp disk s t" "run_inv sp disk cfg b s" "run_inv sp disk cfg' b' t" "projection b = projection b'" "room s"
    "step_sim sp ch s = Some (None, s')" "step_sim sp ch t = Some (None, t')"
  shows "twin sp disk s' t'"
proof -
  obtain L where L: "run_ok s" "follows sp disk b 0 s L" using assms(2) by (auto simp: run_inv_def)
  obtain M where M: "run_ok t" "follows sp disk b' 0 t M" using assms(3) by (auto simp: run_inv_def)
  have same: "batch_of s = batch_of t" "next_controls s = next_controls t" "room t"
    using twin_batch [OF assms(1)] assms(5) by auto
  have logs: "hist_of disk L = hist_of disk M" "cur_of sp disk L = cur_of sp disk M"
    using assms(1) L(2) M(2) by (auto simp: twin_def follows_def)
  obtain L' where L': "follows sp disk b 0 s' L'" "run_ok s'" "hist_of disk L' = hist_of disk L @ batch_of s"
    "s_tick s' = s_tick s + 1" "s_published s' = s_published s + int (length (batch_of s))"
    "cur_of sp disk L' = (if capacity (next_controls s) \<le> 0 then length (hist_of disk L')
       else min (cur_of sp disk L + nat (capacity (next_controls s))) (length (hist_of disk L')))"
    "s_controls s' = next_controls s" "s_pending s' = []" "s_cfg s' = s_cfg s" "s_revision s' = s_revision s"
    "pd_seq (s_prod s') = pd_seq (s_prod s) + int (length (s_pending s)) + EventsPerTick (next_controls s)"
    by (rule step_ok [OF L(1) assms(5) L(2) assms(6)]) (rule that; simp)
  obtain M' where M': "follows sp disk b' 0 t' M'" "run_ok t'" "hist_of disk M' = hist_of disk M @ batch_of t"
    "s_tick t' = s_tick t + 1" "s_published t' = s_published t + int (length (batch_of t))"
    "cur_of sp disk M' = (if capacity (next_controls t) \<le> 0 then length (hist_of disk M')
       else min (cur_of sp disk M + nat (capacity (next_controls t))) (length (hist_of disk M')))"
    "s_controls t' = next_controls t" "s_pending t' = []" "s_cfg t' = s_cfg t" "s_revision t' = s_revision t"
    "pd_seq (s_prod t') = pd_seq (s_prod t) + int (length (s_pending t)) + EventsPerTick (next_controls t)"
    by (rule step_ok [OF M(1) same(3) M(2) assms(7)]) (rule that; simp)
  have h: "hist_of disk L' = hist_of disk M'" using L'(3) M'(3) logs same by simp
  have c: "cur_of sp disk L' = cur_of sp disk M'" unfolding L'(6) M'(6) h same(2) logs(2) ..
  have "projection (s_proc s') = projection (s_proc t')"
    using L'(1) M'(1) projection_run [OF assms(4), of "take (cur_of sp disk L') (hist_of disk L')"] h c by (simp add: follows_def)
  moreover have "s_prod s' = s_prod t'"
    using producer_of_run [OF L(1) L'(2,9)] producer_of_run [OF M(1) M'(2,9)] L'(11) M'(11) assms(1) same
    by (simp add: twin_def)
  moreover have "s_log s' = Some L'" "s_log t' = Some M'" using L'(1) M'(1) by (simp_all add: follows_def)
  moreover have "s_tick s' = s_tick t'" "s_published s' = s_published t'" "s_revision s' = s_revision t'"
    "c_DuplicateEvery (s_cfg s') = c_DuplicateEvery (s_cfg t')"
    using L'(4,5,9,10) M'(4,5,9,10) assms(1) same(1) by (simp_all add: twin_def)
  ultimately show ?thesis using L'(7,8) M'(7,8) same(2) h c by (simp add: twin_def)
qed

end

subsection \<open>Driving a live run\<close>

text \<open>
  A live run driven as a batch run is configured: before the tick a change is scheduled for, the
  player sends it; then the clock ticks.
\<close>

definition send_change ::
  "int \<Rightarrow> (int \<times> controls) list \<Rightarrow> int \<Rightarrow> ('l, 'r, 'c) live_run \<Rightarrow> ('l, 'r, 'c) live_run option" where
  "send_change now changes tick r =
     (case map_of changes tick of
        None \<Rightarrow> Some r
      | Some c \<Rightarrow> map_option snd (update_controls_cmd c now r))"

fun live_loop ::
  "('fs, 'l, 'r) spine \<Rightarrow> 'c chain_ops \<Rightarrow> int \<Rightarrow> (int \<times> controls) list \<Rightarrow> nat \<Rightarrow> int \<Rightarrow> ('l, 'r, 'c) live_run \<Rightarrow>
   ('l, 'r, 'c) live_run option" where
  "live_loop sp ch now changes 0 tick r = Some r"
| "live_loop sp ch now changes (Suc n) tick r =
     (case send_change now changes tick r of
        None \<Rightarrow> None
      | Some r \<Rightarrow>
          (case tick_run sp ch now r of None \<Rightarrow> None | Some r \<Rightarrow> live_loop sp ch now changes n (tick + 1) r))"

text \<open>A live run that is ticking, beside a batch simulation.\<close>

definition beside ::
  "('fs, 'l, 'r) spine \<Rightarrow> ('l \<Rightarrow> contents) \<Rightarrow> ('l, 'r, 'c) live_run \<Rightarrow> ('l, 'r, 'c) sim \<Rightarrow> bool" where
  "beside sp disk r t \<longleftrightarrow>
     twin sp disk (lr_sim r) t \<and> lr_state r = state_running \<and> lr_ticker r \<and> \<not> lr_done r \<and> lr_failure r = None \<and>
     (\<exists>cfg b cfg' b'. run_inv sp disk cfg b (lr_sim r) \<and> run_inv sp disk cfg' b' t \<and> projection b = projection b')"

lemma set_controls_accepts:
  assumes "controls_ok c"
  shows "set_controls c s = (Inr (s_revision s + 1), snd (set_controls c s))"
    "s_prod (snd (set_controls c s)) = s_prod s" "s_tick (snd (set_controls c s)) = s_tick s"
    "s_pending (snd (set_controls c s)) = s_pending s @ [(s_revision s + 1, c)]"
    "s_revision (snd (set_controls c s)) = s_revision s + 1"
  using assms by (simp_all add: set_controls_def validate_controls_None_iff [symmetric] Let_def)

lemma beside_change:
  assumes "spine_laws sp disk" "beside sp disk r t" "controls_ok c" "weights_fit c"
  obtains r' where "update_controls_cmd c now r = Some (Inr \<lparr>cr_RunID = rq_RunID (lr_req r), cr_Revision = s_revision t + 1,
      cr_Controls = c, cr_EffectiveTick = s_tick t\<rparr>, r')" "lr_req r' = lr_req r" "beside sp disk r' (snd (set_controls c t))"
proof -
  note acc = set_controls_accepts [OF assms(3)]
  obtain s where s: "set_controls c (lr_sim r) = (Inr (s_revision (lr_sim r) + 1), s)" "s_tick s = s_tick (lr_sim r)"
    using acc(1,3) [of "lr_sim r"] by metis
  let ?t = "snd (set_controls c t)" and ?r = "r\<lparr>lr_sim := s, lr_updatedAt := now\<rparr>"
  have tw: "twin sp disk (lr_sim r) t" using assms(2) by (simp add: beside_def)
  obtain t' where "set_controls c t = (Inr (s_revision (lr_sim r) + 1), t')" "twin sp disk s t'"
    by (rule twin_controls [OF tw s(1)])
  then have "twin sp disk s ?t" by simp
  moreover have "run_inv sp disk cfg b s" if "run_inv sp disk cfg b (lr_sim r)" for cfg b
    by (rule spine_laws.move_inv [OF assms(1) sim_move.control [OF assms(4) s(1)] that])
  moreover have "run_inv sp disk cfg b ?t" if "run_inv sp disk cfg b t" for cfg b
    by (rule spine_laws.move_inv [OF assms(1) sim_move.control [OF assms(4) acc(1)] that])
  ultimately have b: "beside sp disk ?r ?t" using assms(2) unfolding beside_def by fastforce
  have "update_controls_cmd c now r = Some (Inr \<lparr>cr_RunID = rq_RunID (lr_req r), cr_Revision = s_revision t + 1,
      cr_Controls = c, cr_EffectiveTick = s_tick t\<rparr>, ?r)"
    using assms(2) tw s by (simp add: update_controls_cmd_def beside_def twin_def state_defs)
  from that [OF this _ b] show ?thesis by simp
qed

text \<open>One tick of each: both succeed on a log that does not fail, and the run ends when it is due.\<close>

lemma beside_tick:
  assumes "reliable_spine sp disk" "validates_loggable (sp_validate sp)" "beside sp disk r t" "room t"
  obtains p t' where "step_sim sp ch t = Some (None, t')" "beside sp disk p t'" "lr_req p = lr_req r" "s_tick t' = s_tick t + 1"
    "tick_run sp ch now r = (if rq_MaxTicks (lr_req r) > 0 \<and> s_tick t' \<ge> rq_MaxTicks (lr_req r) then finish sp ch now p else Some p)"
    "s_pending t' = []" "s_revision t' = s_revision t"
    "pd_seq (s_prod t') \<le> pd_seq (s_prod t) + int (length (s_pending t)) + max_events_per_tick"
proof -
  have laws: "spine_laws sp disk" using assms(1) by (simp add: reliable_spine_def)
  obtain cfg b cfg' b' where inv: "run_inv sp disk cfg b (lr_sim r)" "run_inv sp disk cfg' b' t" "projection b = projection b'"
    and tw: "twin sp disk (lr_sim r) t"
    and live: "lr_state r = state_running" "lr_ticker r" "\<not> lr_done r" "lr_failure r = None"
    using assms(3) by (auto simp: beside_def)
  have room: "room (lr_sim r)" using twin_batch(3) [OF tw] assms(4) by simp
  obtain L M where L: "run_ok (lr_sim r)" "follows sp disk b 0 (lr_sim r) L" and M: "run_ok t" "follows sp disk b' 0 t M"
    using inv(1,2) by (auto simp: run_inv_def)
  obtain s where s: "step_sim sp ch (lr_sim r) = Some (None, s)"
    using reliable_spine.inv_step_total [OF assms(1) inv(1) room assms(2)] .
  obtain t' where t': "step_sim sp ch t = Some (None, t')"
    using reliable_spine.inv_step_total [OF assms(1) inv(2) assms(4,2)] .
  have twin: "twin sp disk s t'" by (rule spine_laws.twin_step [OF laws tw inv room s t'])
  obtain p where p: "advance sp ch now r
      = (if rq_MaxTicks (lr_req r) > 0 \<and> s_tick s \<ge> rq_MaxTicks (lr_req r) then finish sp ch now p else Some p)"
    "quiet s (lr_sim p)" "sim_reach sp ch s (lr_sim p)" "lr_failure p = lr_failure r" "lr_done p = lr_done r"
    "lr_req p = lr_req r" "lr_state p = state_running" "lr_ticker p = lr_ticker r"
    by (rule advance_running [OF live(1) s, of now], rule that)
  have "sim_reach sp ch (lr_sim r) (lr_sim p)"
    by (rule reach_trans [OF sim_reach.move [OF sim_reach.start sim_move.tick [OF room s]] p(3)])
  then have ip: "run_inv sp disk cfg b (lr_sim p)" by (rule spine_laws.reach_inv [OF laws _ inv(1)])
  have it: "run_inv sp disk cfg' b' t'" by (rule spine_laws.move_inv [OF laws sim_move.tick [OF assms(4) t'] inv(2)])
  have bes: "beside sp disk p t'"
    using twin_quiet [OF twin p(2)] ip it inv(3) p live unfolding beside_def by auto
  have after: "s_tick t' = s_tick t + 1" "s_pending t' = []"
    "s_revision t' = s_revision t" "s_controls t' = next_controls t" "run_ok t'"
    "pd_seq (s_prod t') = pd_seq (s_prod t) + int (length (s_pending t)) + EventsPerTick (next_controls t)"
    by (rule spine_laws.step_ok [OF laws M(1) assms(4) M(2) t']; simp)+
  have "EventsPerTick (next_controls t) \<le> max_events_per_tick" using after(4,5) by (auto simp: run_ok_def controls_ok_def)
  then show ?thesis
    using p live after twin
    by (intro that [OF t' bes]) (simp_all add: tick_run_def twin_def)
qed

lemma twin_set_state [simp]: "twin sp disk (set_state st s) t = twin sp disk s t"
  by (simp add: twin_def set_state_def)

lemma finish_twin:
  assumes "spine_laws sp disk" "twin sp disk (lr_sim p) t" "finish sp ch now p = Some r"
  shows "twin sp disk (lr_sim r) t"
proof (cases "lr_state p = state_finished")
  case False
  obtain err s where s: "save_sim sp ch (set_state state_finished (lr_sim p)) = Some (err, s)" "quiet s (lr_sim r)"
    by (rule finish_spec [OF assms(3) False], rule that)
  have "twin sp disk (set_state state_finished (lr_sim p)) t" using assms(2) by simp
  from twin_quiet [OF spine_laws.twin_saved [OF assms(1) this s(1)] s(2)] show ?thesis .
qed (use assms in \<open>simp add: finish_def\<close>)

lemma scheduled_change:
  assumes "validate_run cfg = None" "run_fits cfg" "map_of (rc_ControlChanges cfg) tick = Some c"
  shows "controls_ok c" "weights_fit c"
proof -
  have "(tick, c) \<in> set (rc_ControlChanges cfg)" using assms(3) by (rule map_of_SomeD)
  then show "controls_ok c" "weights_fit c"
    using validate_run_None(3) [OF assms(1), of tick c] assms(2) by (auto simp: run_fits_def list_all_iff)
qed

text \<open>The change that is due, on both sides.\<close>

lemma beside_scheduled:
  assumes "spine_laws sp disk" "validate_run cfg = None" "run_fits cfg" "beside sp disk r t" "s_pending t = []"
  obtains r1 t1 where "send_change now (rc_ControlChanges cfg) tick r = Some r1" "beside sp disk r1 t1" "lr_req r1 = lr_req r"
    "s_tick t1 = s_tick t" "s_prod t1 = s_prod t" "length (s_pending t1) \<le> 1" "s_revision t1 \<le> s_revision t + 1"
    "execute_loop sp ch (rc_ControlChanges cfg) (Suc n) tick t = (case step_sim sp ch t1 of None \<Rightarrow> None
       | Some (Some err, _) \<Rightarrow> Some (Inl err)
       | Some (None, s) \<Rightarrow> execute_loop sp ch (rc_ControlChanges cfg) n (tick + 1) s)"
proof (cases "map_of (rc_ControlChanges cfg) tick")
  case None
  with assms show ?thesis by (intro that [of r t]) (simp_all add: send_change_def)
next
  case (Some c)
  note c = scheduled_change [OF assms(2,3) Some]
  obtain r1 where r1: "update_controls_cmd c now r = Some (Inr \<lparr>cr_RunID = rq_RunID (lr_req r), cr_Revision = s_revision t + 1,
      cr_Controls = c, cr_EffectiveTick = s_tick t\<rparr>, r1)" "lr_req r1 = lr_req r" "beside sp disk r1 (snd (set_controls c t))"
    by (rule beside_change [OF assms(1,4) c, of now])
  obtain t1 where t1: "set_controls c t = (Inr (s_revision t + 1), t1)" using set_controls_accepts(1) [OF c(1)] by metis
  show ?thesis
    by (rule that [of r1 t1])
       (use r1 t1 Some assms(5) set_controls_accepts(2-5) [OF c(1), of t] in \<open>simp_all add: send_change_def\<close>)
qed

lemma live_batch_loop:
  assumes "reliable_spine sp disk" "validates_loggable (sp_validate sp)" "validate_run cfg = None" "run_fits cfg"
    "beside sp disk r t" "s_pending t = []" "s_tick t = tick" "0 \<le> tick" "0 < n" "tick + int n = rc_Ticks cfg"
    "rq_MaxTicks (lr_req r) = rc_Ticks cfg" "s_revision t \<le> tick" "pd_seq (s_prod t) \<le> 1001 * tick"
  shows "\<exists>r' t'. live_loop sp ch now (rc_ControlChanges cfg) n tick r = Some r' \<and>
    execute_loop sp ch (rc_ControlChanges cfg) n tick t = Some (Inr t') \<and> twin sp disk (lr_sim r') t' \<and>
    lr_state r' = state_finished \<and> lr_failure r' = None"
  using assms(5-)
proof (induction n arbitrary: r t tick)
  case (Suc n)
  have laws: "spine_laws sp disk" using assms(1) by (simp add: reliable_spine_def)
  let ?cs = "rc_ControlChanges cfg"
  obtain r1 t1 where c: "send_change now ?cs tick r = Some r1" "beside sp disk r1 t1" "lr_req r1 = lr_req r"
    "s_tick t1 = s_tick t" "s_prod t1 = s_prod t" "length (s_pending t1) \<le> 1" "s_revision t1 \<le> s_revision t + 1"
    "execute_loop sp ch ?cs (Suc n) tick t = (case step_sim sp ch t1 of None \<Rightarrow> None
       | Some (Some err, _) \<Rightarrow> Some (Inl err) | Some (None, s) \<Rightarrow> execute_loop sp ch ?cs n (tick + 1) s)"
    by (rule beside_scheduled [OF laws assms(3,4) Suc.prems(1,2), where now = now and tick = tick and n = n and ch = ch], rule that)
  have few: "rc_Ticks cfg < 2 ^ 50" using assms(4) by (simp add: run_fits_def)
  have room: "room t1"
    using c(5,6,7) Suc.prems(3-9) few by (simp add: room_def max_events_per_tick_def)
  obtain p t2 where k: "step_sim sp ch t1 = Some (None, t2)" "beside sp disk p t2" "lr_req p = lr_req r1"
    "s_tick t2 = s_tick t1 + 1"
    "tick_run sp ch now r1 = (if rq_MaxTicks (lr_req r1) > 0 \<and> s_tick t2 \<ge> rq_MaxTicks (lr_req r1)
       then finish sp ch now p else Some p)" "s_pending t2 = []" "s_revision t2 = s_revision t1"
    "pd_seq (s_prod t2) \<le> pd_seq (s_prod t1) + int (length (s_pending t1)) + max_events_per_tick"
    by (rule beside_tick [OF assms(1,2) c(2) room, where now = now and ch = ch], rule that)
  show ?case
  proof (cases n)
    case 0
    have p: "s_log (lr_sim p) \<noteq> None" "lr_failure p = None" "twin sp disk (lr_sim p) t2"
      using k(2) by (auto simp: beside_def twin_def)
    obtain r' where r': "finish sp ch now p = Some r'" "lr_failure r' = None" by (rule finish_total [OF assms(1) p(1,2)])
    have "tick_run sp ch now r1 = Some r'" using k(4,5) c(3,4) r'(1) Suc.prems(3,4,6,7) 0 by simp
    then show ?thesis
      using c(1,8) k(1) 0 finish_state [OF r'(1)] finish_twin [OF laws p(3) r'(1)] r'(2) by simp
  next
    case (Suc m)
    have "tick_run sp ch now r1 = Some p" using k(4,5) c(3,4) Suc.prems(3,6,7) Suc by simp
    moreover have "\<exists>r' t'. live_loop sp ch now ?cs n (tick + 1) p = Some r' \<and>
        execute_loop sp ch ?cs n (tick + 1) t2 = Some (Inr t') \<and> twin sp disk (lr_sim r') t' \<and>
        lr_state r' = state_finished \<and> lr_failure r' = None"
      by (rule Suc.IH) (use c k Suc Suc.prems in \<open>auto simp: max_events_per_tick_def\<close>)
    ultimately show ?thesis using c(1,8) k(1) by simp
  qed
qed simp

subsection \<open>Batch and live agree\<close>

lemma fresh_log_empty: "fresh_log sp disk L \<Longrightarrow> hist_of disk L = []" "fresh_log sp disk L \<Longrightarrow> cur_of sp disk L = 0"
  by (auto simp: fresh_log_def hist_of_def cur_of_def wf_of_def ab_next_def)

lemma new_sim_twin:
  assumes "spine_laws sp disk" "new_sim sp ch cfg (Some L) = Inr s" "config_fits cfg" "fresh_log sp disk L"
    "new_sim sp ch cfg' (Some M) = Inr t" "config_fits cfg'" "fresh_log sp disk M"
    "c_RunID cfg = c_RunID cfg'" "c_Seed cfg = c_Seed cfg'" "c_Organisms cfg = c_Organisms cfg'" "c_Controls cfg = c_Controls cfg'"
    "c_DuplicateEvery cfg = c_DuplicateEvery cfg'"
  shows "twin sp disk s t" "projection (s_proc s) = projection (s_proc t)"
proof -
  note s = new_sim_run_ok [OF assms(2,3)] and t = new_sim_run_ok [OF assms(5,6)]
  show proj: "projection (s_proc s) = projection (s_proc t)"
    using s(6) t(6) assms(10) by (auto simp: projection_def new_processor_def)
  have "s_prod s = s_prod t"
    using s(1,2,7) t(1,2,7) assms(8-10) by (cases "s_prod s"; cases "s_prod t") (simp add: run_ok_def)
  moreover have "hist_of disk L = hist_of disk M" "cur_of sp disk L = cur_of sp disk M"
    using fresh_log_empty [OF assms(4)] fresh_log_empty [OF assms(7)] by simp_all
  ultimately show "twin sp disk s t"
    using s t assms(11,12) proj by (simp add: twin_def)
qed

text \<open>
  C19. A live run and a batch run agree: a run started with the run ID, seed, organisms, controls,
  duplication and length of a valid batch configuration, and sent each control change of it before
  its tick, finishes by itself, and the last frame and telemetry of it show the organisms, the
  averages, the hash, the published events and every counter of the scorecard the batch run returns.
\<close>

theorem live_run_equals_batch:
  assumes "reliable_spine sp disk" "validates_loggable (sp_validate sp)" "validate_run cfg = None" "run_fits cfg"
    "start_run sp ch opn now0 req g = Some (Inr v, g')" "map_of (g_runs g') (vw_RunID v) = Some r0" "opens_fresh sp disk opn"
    "rc_RunID cfg = vw_RunID v" "rc_Seed cfg = rq_Seed req" "rc_Organisms cfg = rq_Organisms req"
    "rc_Controls cfg = rq_Controls req" "rc_DuplicateEvery cfg = rq_DuplicateEvery req" "rc_Ticks cfg = rq_MaxTicks req"
  shows "\<exists>r res. live_loop sp ch now (rc_ControlChanges cfg) (nat (rc_Ticks cfg)) 0 r0 = Some r \<and> lr_state r = state_finished \<and>
    lr_failure r = None \<and> execute sp ch cfg = Some (Inr res) \<and>
    fr_Organisms (frame_of sp now r) = rr_Organisms res \<and> fr_Stats (frame_of sp now r) = rr_Garden res \<and>
    fr_Hash (frame_of sp now r) = rr_Snapshot res \<and> fr_Revision (frame_of sp now r) = rr_Revisions res \<and>
    tm_Published (telemetry_of sp now r) = rr_Published res \<and> tm_Processor (telemetry_of sp now r) = rr_Processor res"
proof -
  have laws: "spine_laws sp disk" using assms(1) by (simp add: reliable_spine_def)
  have dist: "distinct (map fst (rc_ControlChanges cfg))" using assms(4) by (simp add: run_fits_def)
  note v = validate_run_None [OF assms(3) dist]
  have req: "request_fits req" "utf8_ok (vw_RunID v)" using assms(4,8,10,11) by (simp_all add: run_fits_def request_fits_def)
  have fits: "config_fits (sim_config_of cfg)" using assms(4) by (simp add: run_fits_def config_fits_def sim_config_of_def)
  obtain c s0 L0 where st: "new_sim sp ch c (Some L0) = Inr s0" "config_fits c" "fresh_log sp disk L0"
    "sim_reach sp ch s0 (lr_sim r0)" "c_Organisms c = rq_Organisms req" "rq_MaxTicks (lr_req r0) = rq_MaxTicks req"
    "save_sim sp ch (set_state state_running s0) = Some (None, lr_sim r0)" "c_RunID c = vw_RunID v" "c_Seed c = rq_Seed req"
    "c_Controls c = rq_Controls req" "c_DuplicateEvery c = rq_DuplicateEvery req"
    by (rule started_sim [OF assms(5-7) req], rule that)
  obtain t0 where t0: "new_sim sp ch (sim_config_of cfg) None = Inr t0" using reliable_spine.new_sim_total [OF assms(1) v(1)] .
  obtain M0 where M0: "new_sim sp ch (sim_config_of cfg) (Some M0) = Inr t0" "fresh_log sp disk M0"
    using spine_laws.new_sim_ephemeral [OF laws t0] .
  note twin = new_sim_twin [OF laws st(1-3) M0(1) fits M0(2)]
  have "twin sp disk (set_state state_running s0) t0" "projection (s_proc s0) = projection (s_proc t0)"
    using twin st(5,8-11) assms(8-12) by (simp_all add: sim_config_of_def)
  note tw = spine_laws.twin_saved [OF laws this(1) st(7)] this(2)
  have inv: "run_inv sp disk c (s_proc s0) (lr_sim r0)"
    by (rule spine_laws.reach_inv [OF laws st(4) spine_laws.start_inv [OF laws st(1-3)]])
  have inv0: "run_inv sp disk (sim_config_of cfg) (s_proc t0) t0" by (rule spine_laws.start_inv [OF laws M0(1) fits M0(2)])
  have "beside sp disk r0 t0"
    using tw inv inv0 started_live_ok [OF assms(5,6)] unfolding beside_def by blast
  from live_batch_loop [OF assms(1-4) this, of 0 "nat (rc_Ticks cfg)" ch now] new_sim_run_ok [OF M0(1) fits] v(2) st(6) assms(13)
  obtain r t where rt: "live_loop sp ch now (rc_ControlChanges cfg) (nat (rc_Ticks cfg)) 0 r0 = Some r"
    "execute_loop sp ch (rc_ControlChanges cfg) (nat (rc_Ticks cfg)) 0 t0 = Some (Inr t)" "twin sp disk (lr_sim r) t"
    "lr_state r = state_finished" "lr_failure r = None" by auto
  have "execute sp ch cfg = Some (Inr (scorecard ch cfg t))" using assms(3) t0 rt(2) by (simp add: execute_def)
  moreover have "s_garden (lr_sim r) = s_garden t" "p_stats (s_proc (lr_sim r)) = p_stats (s_proc t)"
    "s_published (lr_sim r) = s_published t" "s_revision (lr_sim r) = s_revision t"
    using rt(3) by (simp_all add: twin_def projection_def s_garden_def)
  ultimately show ?thesis using rt(1,4,5) by (intro exI [of _ r] exI [of _ "scorecard ch cfg t"])
      (simp add: frame_of_def telemetry_of_def scorecard_def)
qed

definition demo_batch :: run_config where
  "demo_batch = \<lparr>rc_RunID = ''run-0001'', rc_Seed = 7, rc_Ticks = 3, rc_Organisms = 3, rc_Controls = default_controls,
     rc_ControlChanges = [(1, default_controls\<lparr>PestWeight := 9\<rparr>)], rc_DuplicateEvery = 2\<rparr>"

lemma demo_batch_ok: "validate_run demo_batch = None" "run_fits demo_batch"
proof -
  show "validate_run demo_batch = None"
    by (simp add: demo_batch_def validate_run_def sorted_ticks_def validate_controls_def default_controls_def
        total_weight_def max_events_per_tick_def max_worker_count_def max_batch_size_def go_int_def)
  show "run_fits demo_batch"
    by (simp add: demo_batch_def run_fits_def weights_fit_def default_controls_def ascii_utf8 ascii_def byte_def)
qed

theorem live_run_equals_batch_witness:
  "\<exists>(r0 :: mem_run) r res. live_loop mem_spine list_chain 9 [(1, default_controls\<lparr>PestWeight := 9\<rparr>)] 3 0 r0 = Some r \<and>
     lr_state r = state_finished \<and> execute mem_spine list_chain demo_batch = Some (Inr res) \<and>
     fr_Hash (frame_of mem_spine 9 r) = rr_Snapshot res"
proof -
  obtain v g' r0 where st:
    "start_run mem_spine list_chain (ephemeral_logs mem_spine) 0 demo_request demo_registry = Some (Inr v, g')"
    "map_of (g_runs g') (vw_RunID v) = Some r0" "vw_RunID v = ''run-0001''" by (rule demo_start)
  have eq: "rc_RunID demo_batch = vw_RunID v" "rc_Seed demo_batch = rq_Seed demo_request"
    "rc_Organisms demo_batch = rq_Organisms demo_request" "rc_Controls demo_batch = rq_Controls demo_request"
    "rc_DuplicateEvery demo_batch = rq_DuplicateEvery demo_request" "rc_Ticks demo_batch = rq_MaxTicks demo_request"
    using st(3) by (simp_all add: demo_batch_def demo_request_def)
  have sel: "rc_ControlChanges demo_batch = [(1, default_controls\<lparr>PestWeight := 9\<rparr>)]" "nat (rc_Ticks demo_batch) = 3"
    by (simp_all add: demo_batch_def)
  from live_run_equals_batch [OF mem_laws(2) mem_validates demo_batch_ok st(1,2) mem_opens_fresh eq, of 9]
  show ?thesis unfolding sel by blast
qed

end
