(* ===== verification/Wire.thy ===== *)
theory Wire
  imports Registry
begin

text \<open>
  \<^verbatim>\<open>internal/wire/wire.go\<close>: how an engine value becomes a message of the contract. The messages
  are the structs of \<^verbatim>\<open>internal/gen/signal/garden/v1/garden.pb.go\<close>; a nil pointer is \<open>None\<close>. Their
  \<^verbatim>\<open>int32\<close> fields truncate, which \<open>go_int32\<close> writes out; their \<^verbatim>\<open>int64\<close> fields hold the value.
  Durations and timestamps are messages of the protobuf library, a parameter of the model.
\<close>

subsection \<open>The protobuf library's time messages\<close>

record ('d, 't) pb_time =
  duration_new :: "int \<Rightarrow> 'd"
  as_duration :: "'d option \<Rightarrow> int"
  timestamp_new :: "int \<Rightarrow> 't"

text \<open>
  What the code relies on: a duration that was encoded is read back, and a message that is
  absent reads as the zero duration.
\<close>

definition pb_time_laws :: "('d, 't) pb_time \<Rightarrow> bool" where
  "pb_time_laws pt \<longleftrightarrow>
     as_duration pt None = 0 \<and> (\<forall>d. in_int64 d \<longrightarrow> as_duration pt (Some (duration_new pt d)) = d)"

lemma pb_time_nil [simp]: "pb_time_laws pt \<Longrightarrow> as_duration pt None = 0"
  by (simp add: pb_time_laws_def)

lemma pb_time_read [simp]:
  "pb_time_laws pt \<Longrightarrow> in_int64 d \<Longrightarrow> as_duration pt (Some (duration_new pt d)) = d"
  by (simp add: pb_time_laws_def)

text \<open>Messages of seconds and nanoseconds, the shape the protobuf library gives them.\<close>

definition split_time :: "(int \<times> int, int \<times> int) pb_time" where
  "split_time =
     \<lparr>duration_new = \<lambda>d. (d div 10 ^ 9, d mod 10 ^ 9),
      as_duration = \<lambda>m. case m of None \<Rightarrow> 0 | Some (s, n) \<Rightarrow> s * 10 ^ 9 + n,
      timestamp_new = \<lambda>t. (t div 10 ^ 9, t mod 10 ^ 9)\<rparr>"

lemma split_time_laws: "pb_time_laws split_time"
  by (simp add: pb_time_laws_def split_time_def)

subsection \<open>The messages\<close>

datatype pb_run_state =
  RUN_STATE_UNSPECIFIED | RUN_STATE_RUNNING | RUN_STATE_PAUSED | RUN_STATE_FINISHED

record pb_controls =
  pc_EventsPerTick :: int
  pc_RainWeight :: int
  pc_GrowthWeight :: int
  pc_PestWeight :: int
  pc_WorkerCount :: int
  pc_BatchSize :: int
  pc_FailSnapshotEvery :: int

record ('d, 't) pb_run =
  pr_RunId :: string
  pr_Seed :: int
  pr_Organisms :: int
  pr_State :: pb_run_state
  pr_Tick :: int
  pr_MaxTicks :: int
  pr_TickInterval :: "'d option"
  pr_Controls :: "pb_controls option"
  pr_Revision :: int
  pr_StartedAt :: "'t option"
  pr_UpdatedAt :: "'t option"
  pr_FinishedAt :: "'t option"
  pr_Failure :: "go_error option"
  pr_SchemaVersion :: int
  pr_Resumed :: bool

record pb_organism =
  po_Id :: string
  po_Moisture :: int
  po_Health :: int
  po_Stage :: int

record pb_garden_stats =
  pg_Organisms :: int
  pg_Alive :: int
  pg_AverageMoisture :: rat
  pg_AverageHealth :: rat
  pg_AverageStage :: rat
  pg_TotalStage :: int

record 't pb_garden_snapshot =
  pf_RunId :: string
  pf_Sequence :: int
  pf_Tick :: int
  pf_Revision :: int
  pf_State :: pb_run_state
  pf_Stats :: "pb_garden_stats option"
  pf_Organisms :: "pb_organism list"
  pf_Hash :: string
  pf_ObservedAt :: "'t option"
  pf_SchemaVersion :: int
  pf_FoldedOffset :: int

record pb_processor_stats =
  pp_Received :: int
  pp_Applied :: int
  pp_NoEffect :: int
  pp_Duplicates :: int
  pp_Rejected :: int
  pp_UnknownEntity :: int
  pp_ByType :: counts

record ('d, 't) pb_telemetry =
  pm_RunId :: string
  pm_State :: pb_run_state
  pm_Tick :: int
  pm_Revision :: int
  pm_TickInterval :: "'d option"
  pm_Published :: int
  pm_Processor :: "pb_processor_stats option"
  pm_Pending :: int
  pm_Subscribers :: int
  pm_SnapshotsSent :: int
  pm_SnapshotsDropped :: int
  pm_Uptime :: "'d option"
  pm_ObservedAt :: "'t option"
  pm_SchemaVersion :: int
  pm_LogOffset :: int
  pm_CommittedOffset :: int
  pm_SnapshotSaveRetries :: int
  pm_SnapshotSaveFailures :: int

record pb_event_payload =
  pl_Amount :: int
  pl_Revision :: int

record pb_event =
  pe_EventId :: string
  pe_EventType :: string
  pe_SchemaVersion :: int
  pe_RunId :: string
  pe_EntityId :: string
  pe_PartitionKey :: string
  pe_Sequence :: int
  pe_OccurredAt :: int
  pe_Attempt :: int
  pe_Payload :: "pb_event_payload option"

record pb_catchup =
  ca_From :: int
  ca_To :: int
  ca_Events :: "pb_event list"

datatype pb_frame_type = FRAME_TYPE_UNSPECIFIED | FRAME_TYPE_SNAPSHOT | FRAME_TYPE_CATCHUP

record 't pb_frame =
  pj_Type :: pb_frame_type
  pj_RunId :: string
  pj_Catchup :: "pb_catchup option"
  pj_Snapshot :: "'t pb_garden_snapshot option"

subsection \<open>The mapping\<close>

definition wire_controls_from :: "pb_controls option \<Rightarrow> controls" where
  "wire_controls_from m =
     (case m of
        None \<Rightarrow> \<lparr>EventsPerTick = 0, RainWeight = 0, GrowthWeight = 0, PestWeight = 0, WorkerCount = 0,
                 BatchSize = 0, FailSnapshotEvery = 0\<rparr>
      | Some c \<Rightarrow>
          \<lparr>EventsPerTick = pc_EventsPerTick c, RainWeight = pc_RainWeight c, GrowthWeight = pc_GrowthWeight c,
           PestWeight = pc_PestWeight c, WorkerCount = pc_WorkerCount c, BatchSize = pc_BatchSize c,
           FailSnapshotEvery = pc_FailSnapshotEvery c\<rparr>)"

definition wire_controls :: "controls \<Rightarrow> pb_controls" where
  "wire_controls c =
     \<lparr>pc_EventsPerTick = go_int32 (EventsPerTick c), pc_RainWeight = go_int32 (RainWeight c),
      pc_GrowthWeight = go_int32 (GrowthWeight c), pc_PestWeight = go_int32 (PestWeight c),
      pc_WorkerCount = go_int32 (WorkerCount c), pc_BatchSize = go_int32 (BatchSize c),
      pc_FailSnapshotEvery = go_int32 (FailSnapshotEvery c)\<rparr>"

definition wire_state :: "run_state \<Rightarrow> pb_run_state" where
  "wire_state s =
     (if s = state_running then RUN_STATE_RUNNING
      else if s = state_paused then RUN_STATE_PAUSED
      else if s = state_finished then RUN_STATE_FINISHED
      else RUN_STATE_UNSPECIFIED)"

text \<open>An absent instant is Go's zero time.\<close>

definition timestamp_of :: "('d, 't) pb_time \<Rightarrow> int option \<Rightarrow> 't option" where
  "timestamp_of pt t = map_option (timestamp_new pt) t"

definition wire_run :: "('d, 't) pb_time \<Rightarrow> run_view \<Rightarrow> ('d, 't) pb_run" where
  "wire_run pt r =
     \<lparr>pr_RunId = vw_RunID r, pr_Seed = vw_Seed r, pr_Organisms = go_int32 (vw_Organisms r),
      pr_State = wire_state (vw_State r), pr_Tick = vw_Tick r, pr_MaxTicks = vw_MaxTicks r,
      pr_TickInterval = Some (duration_new pt (vw_TickInterval r)),
      pr_Controls = Some (wire_controls (vw_Controls r)), pr_Revision = go_int32 (vw_Revision r),
      pr_StartedAt = timestamp_of pt (Some (vw_StartedAt r)), pr_UpdatedAt = timestamp_of pt (Some (vw_UpdatedAt r)),
      pr_FinishedAt = timestamp_of pt (vw_FinishedAt r), pr_Failure = vw_Failure r,
      pr_SchemaVersion = schema_version, pr_Resumed = vw_Resumed r\<rparr>"

definition wire_organism :: "organism \<Rightarrow> pb_organism" where
  "wire_organism o' =
     \<lparr>po_Id = ID o', po_Moisture = go_int32 (Moisture o'), po_Health = go_int32 (Health o'),
      po_Stage = go_int32 (Stage o')\<rparr>"

definition wire_stats :: "garden_stats \<Rightarrow> pb_garden_stats" where
  "wire_stats s =
     \<lparr>pg_Organisms = go_int32 (gs_Organisms s), pg_Alive = go_int32 (gs_Alive s),
      pg_AverageMoisture = gs_AverageMoist s, pg_AverageHealth = gs_AverageHP s,
      pg_AverageStage = gs_AverageStage s, pg_TotalStage = go_int32 (gs_TotalStage s)\<rparr>"

definition wire_snapshot :: "('d, 't) pb_time \<Rightarrow> garden_snapshot \<Rightarrow> 't pb_garden_snapshot" where
  "wire_snapshot pt s =
     \<lparr>pf_RunId = fr_RunID s, pf_Sequence = fr_Sequence s, pf_Tick = fr_Tick s,
      pf_Revision = go_int32 (fr_Revision s), pf_State = wire_state (fr_State s),
      pf_Stats = Some (wire_stats (fr_Stats s)), pf_Organisms = map wire_organism (fr_Organisms s),
      pf_Hash = fr_Hash s, pf_ObservedAt = timestamp_of pt (Some (fr_ObservedAt s)),
      pf_SchemaVersion = schema_version, pf_FoldedOffset = fr_FoldedOffset s\<rparr>"

definition wire_processor_stats :: "proc_stats \<Rightarrow> pb_processor_stats" where
  "wire_processor_stats p =
     \<lparr>pp_Received = Received p, pp_Applied = Applied p, pp_NoEffect = NoEffect p,
      pp_Duplicates = Duplicates p, pp_Rejected = Rejected p, pp_UnknownEntity = UnknownEntity p,
      pp_ByType = ByType p\<rparr>"

definition wire_telemetry :: "('d, 't) pb_time \<Rightarrow> telemetry_snapshot \<Rightarrow> ('d, 't) pb_telemetry" where
  "wire_telemetry pt t =
     \<lparr>pm_RunId = tm_RunID t, pm_State = wire_state (tm_State t), pm_Tick = tm_Tick t,
      pm_Revision = go_int32 (tm_Revision t), pm_TickInterval = Some (duration_new pt (tm_TickInterval t)),
      pm_Published = tm_Published t, pm_Processor = Some (wire_processor_stats (tm_Processor t)),
      pm_Pending = tm_Pending t, pm_Subscribers = go_int32 (tm_Subscribers t),
      pm_SnapshotsSent = tm_SnapshotsSent t, pm_SnapshotsDropped = tm_SnapshotsDropped t,
      pm_Uptime = Some (duration_new pt (tm_Uptime t)),
      pm_ObservedAt = timestamp_of pt (Some (tm_ObservedAt t)), pm_SchemaVersion = schema_version,
      pm_LogOffset = tm_LogOffset t, pm_CommittedOffset = tm_CommittedOffset t,
      pm_SnapshotSaveRetries = tm_SnapshotSaveRetries t, pm_SnapshotSaveFailures = tm_SnapshotSaveFailures t\<rparr>"

definition wire_event :: "event \<Rightarrow> pb_event" where
  "wire_event e =
     \<lparr>pe_EventId = EventID e, pe_EventType = Type e, pe_SchemaVersion = go_int32 (SchemaVersion e),
      pe_RunId = RunID e, pe_EntityId = EntityID e, pe_PartitionKey = PartitionKey e,
      pe_Sequence = Sequence e, pe_OccurredAt = OccurredAt e, pe_Attempt = go_int32 (Attempt e),
      pe_Payload = Some \<lparr>pl_Amount = go_int32 (Amount (Payload e)),
                         pl_Revision = go_int32 (Revision (Payload e))\<rparr>\<rparr>"

definition wire_events :: "event list \<Rightarrow> pb_event list" where
  "wire_events es = map wire_event es"

definition snapshot_frame :: "('d, 't) pb_time \<Rightarrow> string \<Rightarrow> garden_snapshot \<Rightarrow> 't pb_frame" where
  "snapshot_frame pt runID s =
     \<lparr>pj_Type = FRAME_TYPE_SNAPSHOT, pj_RunId = runID, pj_Catchup = None,
      pj_Snapshot = Some (wire_snapshot pt s)\<rparr>"

definition catchup_frame :: "string \<Rightarrow> int \<Rightarrow> event list \<Rightarrow> 't pb_frame" where
  "catchup_frame runID from missed =
     \<lparr>pj_Type = FRAME_TYPE_CATCHUP, pj_RunId = runID,
      pj_Catchup = Some \<lparr>ca_From = from, ca_To = from + int (length missed), ca_Events = wire_events missed\<rparr>,
      pj_Snapshot = None\<rparr>"

subsection \<open>What survives the wire\<close>

text \<open>A message holds \<^verbatim>\<open>int32\<close> values; a domain value may hold more.\<close>

definition pb_controls_ok :: "pb_controls \<Rightarrow> bool" where
  "pb_controls_ok m \<longleftrightarrow>
     in_int32 (pc_EventsPerTick m) \<and> in_int32 (pc_RainWeight m) \<and> in_int32 (pc_GrowthWeight m) \<and>
     in_int32 (pc_PestWeight m) \<and> in_int32 (pc_WorkerCount m) \<and> in_int32 (pc_BatchSize m) \<and>
     in_int32 (pc_FailSnapshotEvery m)"

definition controls_fit32 :: "controls \<Rightarrow> bool" where
  "controls_fit32 c \<longleftrightarrow>
     in_int32 (EventsPerTick c) \<and> in_int32 (RainWeight c) \<and> in_int32 (GrowthWeight c) \<and>
     in_int32 (PestWeight c) \<and> in_int32 (WorkerCount c) \<and> in_int32 (BatchSize c) \<and>
     in_int32 (FailSnapshotEvery c)"

lemma go_int32_eq_iff [simp]: "go_int32 x = x \<longleftrightarrow> in_int32 x"
  by (metis go_int32_id go_int32_range)

lemma wire_controls_ok: "pb_controls_ok (wire_controls c)"
  by (simp add: pb_controls_ok_def wire_controls_def go_int32_range)

lemma wire_controls_from_fit32: "pb_controls_ok m \<Longrightarrow> controls_fit32 (wire_controls_from (Some m))"
  by (simp add: pb_controls_ok_def controls_fit32_def wire_controls_from_def)

lemma nil_controls_invalid: "\<not> controls_ok (wire_controls_from None)"
  by (simp add: wire_controls_from_def controls_ok_def)

lemma wire_weights_fit: "(\<And>m. x = Some m \<Longrightarrow> pb_controls_ok m) \<Longrightarrow> weights_fit (wire_controls_from x)"
  by (cases x) (auto simp: weights_fit_def wire_controls_from_def pb_controls_ok_def in_int32_def)

text \<open>
  C29. Controls survive the wire exactly when they fit it: a client that sends back the controls
  it was shown sends the controls the run has if and only if every field is an \<^verbatim>\<open>int32\<close>, and any
  message is the encoding of the controls it decodes to. Accepted controls can differ from what
  was shown in the three weights and the failure cadence, which validation leaves unbounded.
\<close>

theorem wire_controls_roundtrip:
  "(wire_controls_from (Some (wire_controls c)) = c \<longleftrightarrow> controls_fit32 c) \<and>
   (pb_controls_ok m \<longrightarrow> wire_controls (wire_controls_from (Some m)) = m) \<and>
   (controls_ok c \<longrightarrow> EventsPerTick (wire_controls_from (Some (wire_controls c))) = EventsPerTick c \<and>
      capacity (wire_controls_from (Some (wire_controls c))) = capacity c)"
proof (intro conjI impI)
  show "wire_controls_from (Some (wire_controls c)) = c \<longleftrightarrow> controls_fit32 c"
    by (cases c) (auto simp: wire_controls_from_def wire_controls_def controls_fit32_def)
  show "wire_controls (wire_controls_from (Some m)) = m" if "pb_controls_ok m"
    using that by (cases m) (simp add: wire_controls_from_def wire_controls_def pb_controls_ok_def)
  assume ok: "controls_ok c"
  then have "in_int32 (EventsPerTick c)" "in_int32 (WorkerCount c)" "in_int32 (BatchSize c)"
    by (auto simp: controls_ok_def max_events_per_tick_def max_worker_count_def max_batch_size_def in_int32_def)
  then show "EventsPerTick (wire_controls_from (Some (wire_controls c))) = EventsPerTick c"
    "capacity (wire_controls_from (Some (wire_controls c))) = capacity c"
    by (simp_all add: wire_controls_from_def wire_controls_def capacity_def)
qed

theorem wire_controls_roundtrip_witness:
  "wire_controls (wire_controls_from (Some (wire_controls default_controls))) = wire_controls default_controls \<and>
   wire_controls_from (Some (wire_controls (default_controls\<lparr>RainWeight := 2 ^ 31\<rparr>)))
     \<noteq> default_controls\<lparr>RainWeight := 2 ^ 31\<rparr>"
proof -
  have "\<not> controls_fit32 (default_controls\<lparr>RainWeight := 2 ^ 31\<rparr>)"
    by (simp add: controls_fit32_def in_int32_def)
  then show ?thesis
    using wire_controls_roundtrip [of "default_controls\<lparr>RainWeight := 2 ^ 31\<rparr>" "wire_controls default_controls"]
      wire_controls_ok [of default_controls] by simp
qed

text \<open>
  C30. Controls that arrive over the wire never overflow the draw of an event type: when
  validation accepts them their total weight is the sum of the three weights, positive and below
  \<open>3 * 2 ^ 31\<close>, so \<^verbatim>\<open>IntN\<close> is called with a positive bound, and the capacity they set is at most
  64000. Controls that come from Go code have no such bound: validation accepts weights whose
  total wraps to a negative number.
\<close>

theorem wire_weights_bounded:
  "(pb_controls_ok m \<and> validate_controls (wire_controls_from (Some m)) = None \<longrightarrow>
      total_weight (wire_controls_from (Some m)) = pc_RainWeight m + pc_GrowthWeight m + pc_PestWeight m \<and>
      0 < total_weight (wire_controls_from (Some m)) \<and> total_weight (wire_controls_from (Some m)) < 3 * 2 ^ 31 \<and>
      capacity (wire_controls_from (Some m)) \<in> {0..64000}) \<and>
   (\<exists>c. validate_controls c = None \<and> RainWeight c < 2 ^ 63 \<and> GrowthWeight c < 2 ^ 63 \<and> total_weight c < 0)"
proof (intro conjI impI)
  let ?c = "wire_controls_from (Some m)"
  assume a: "pb_controls_ok m \<and> validate_controls ?c = None"
  then have ok: "controls_ok ?c" by (simp add: validate_controls_None_iff)
  have fit: "weights_fit ?c" by (rule wire_weights_fit) (use a in auto)
  note w = total_weight_fits [OF ok fit] and k = capacity_bounds(1,2) [OF ok]
  show "total_weight ?c = pc_RainWeight m + pc_GrowthWeight m + pc_PestWeight m"
    using w(1) by (simp add: wire_controls_from_def)
  then show "total_weight ?c < 3 * 2 ^ 31" using a by (simp add: pb_controls_ok_def in_int32_def)
  show "0 < total_weight ?c" by (rule w(2))
  show "capacity ?c \<in> {0..64000}" using k by simp
next
  let ?c = "default_controls\<lparr>RainWeight := 2 ^ 62, GrowthWeight := 2 ^ 62\<rparr>"
  have "total_weight ?c = 1 - 2 ^ 63" by (simp add: total_weight_def default_controls_def go_int_def)
  then show "\<exists>c. validate_controls c = None \<and> RainWeight c < 2 ^ 63 \<and> GrowthWeight c < 2 ^ 63 \<and> total_weight c < 0"
    by (intro exI [of _ ?c])
       (simp add: validate_controls_None_iff controls_ok_def default_controls_def max_events_per_tick_def
         max_worker_count_def max_batch_size_def)
qed

theorem wire_weights_bounded_witness:
  "total_weight (wire_controls_from (Some (wire_controls default_controls))) = 3 + 2 + 1"
proof -
  have eq: "wire_controls_from (Some (wire_controls default_controls)) = default_controls"
    by (simp add: wire_controls_from_def wire_controls_def default_controls_def in_int32_def)
  moreover have "validate_controls default_controls = None"
    using default_controls_ok by (simp add: validate_controls_None_iff)
  ultimately have "total_weight (wire_controls_from (Some (wire_controls default_controls)))
      = pc_RainWeight (wire_controls default_controls) + pc_GrowthWeight (wire_controls default_controls) +
        pc_PestWeight (wire_controls default_controls)"
    using wire_weights_bounded [of "wire_controls default_controls"] wire_controls_ok [of default_controls] by simp
  then show ?thesis by (simp add: wire_controls_def default_controls_def in_int32_def)
qed

end
