(* ===== verification/Service.thy ===== *)
theory Service
  imports Wire Registry_Runs Restart
begin

text \<open>
  \<^verbatim>\<open>internal/service/garden.go\<close>: the gRPC surface over the registry. A request message is its
  fields; a nil request reads as zero fields, as the generated getters do. A handler answers with
  a status or a message and the registry after the call; \<open>None\<close> is a panic of the engine.
\<close>

datatype grpc_code =
    NotFound | AlreadyExists | FailedPrecondition | DataLoss | Unavailable | InvalidArgument | Unimplemented | Internal

datatype grpc_status = Status (status_code: grpc_code) go_error

record 'd pb_start_request =
  ps_RunId :: string
  ps_Seed :: int
  ps_Organisms :: int
  ps_Controls :: "pb_controls option"
  ps_TickInterval :: "'d option"
  ps_MaxTicks :: int
  ps_DuplicateEvery :: int

record pb_control_revision =
  px_RunId :: string
  px_Revision :: int
  px_Controls :: "pb_controls option"
  px_EffectiveTick :: int

record ('d, 't) pb_run_summary =
  pu_Run :: "('d, 't) pb_run option"
  pu_Snapshot :: "'t pb_garden_snapshot option"
  pu_Telemetry :: "('d, 't) pb_telemetry option"

definition to_status :: "go_error option \<Rightarrow> grpc_status option" where
  "to_status err =
     (case err of
        None \<Rightarrow> None
      | Some e \<Rightarrow>
          Some (Status
            (if errors_is e (Sentinel ErrRunNotFound) then NotFound
             else if errors_is e (Sentinel ErrRunExists) \<or> errors_is e (Sentinel ErrRunHasHistory) then AlreadyExists
             else if errors_is e (Sentinel ErrRunFinished) then FailedPrecondition
             else if errors_is e (Sentinel ErrCorruptLog) then DataLoss
             else if errors_is e (Sentinel ErrRegistryDown) \<or> errors_is e (Sentinel ErrRunClosed) then Unavailable
             else if errors_is e (Sentinel ErrInvalidControls) then InvalidArgument
             else InvalidArgument) e))"

text \<open>The end every handler has: the status of the error, or the message.\<close>

definition reply :: "('a \<Rightarrow> 'm) \<Rightarrow> go_error + 'a \<Rightarrow> grpc_status + 'm" where
  "reply msg r = (case r of Inl err \<Rightarrow> Inl (the (to_status (Some err))) | Inr x \<Rightarrow> Inr (msg x))"

definition engine_request :: "('d, 't) pb_time \<Rightarrow> 'd pb_start_request \<Rightarrow> start_request" where
  "engine_request pt req =
     \<lparr>rq_RunID = ps_RunId req, rq_Seed = ps_Seed req, rq_Organisms = ps_Organisms req,
      rq_Controls = wire_controls_from (ps_Controls req), rq_TickInterval = as_duration pt (ps_TickInterval req),
      rq_MaxTicks = ps_MaxTicks req, rq_DuplicateEvery = ps_DuplicateEvery req, rq_SnapshotEvery = 0\<rparr>"

definition svc_start_run ::
  "('d, 't) pb_time \<Rightarrow> ('fs, 'l, 'r) spine \<Rightarrow> 'c chain_ops \<Rightarrow> ('l, 'r) log_opener \<Rightarrow> int \<Rightarrow> 'd pb_start_request option \<Rightarrow>
   ('l, 'r, 'c) registry \<Rightarrow> ((grpc_status + ('d, 't) pb_run) \<times> ('l, 'r, 'c) registry) option" where
  "svc_start_run pt sp ch opn now req g =
     (case req of
        None \<Rightarrow> Some (Inl (Status InvalidArgument (Errorf [T ''request is required''])), g)
      | Some req \<Rightarrow> map_option (map_prod (reply (wire_run pt)) (\<lambda>g. g)) (start_run sp ch opn now (engine_request pt req) g))"

definition svc_get_run ::
  "('d, 't) pb_time \<Rightarrow> string \<Rightarrow> ('l, 'r, 'c) registry \<Rightarrow> grpc_status + ('d, 't) pb_run" where
  "svc_get_run pt runID g = reply (wire_run pt) (get_run runID g)"

definition svc_list_runs :: "('d, 't) pb_time \<Rightarrow> ('l, 'r, 'c) registry \<Rightarrow> ('d, 't) pb_run list" where
  "svc_list_runs pt g = map (wire_run pt) (list_runs g)"

definition wire_revision :: "control_revision \<Rightarrow> pb_control_revision" where
  "wire_revision cr =
     \<lparr>px_RunId = cr_RunID cr, px_Revision = go_int32 (cr_Revision cr),
      px_Controls = Some (wire_controls (cr_Controls cr)), px_EffectiveTick = cr_EffectiveTick cr\<rparr>"

definition svc_update_controls ::
  "int \<Rightarrow> string \<Rightarrow> pb_controls option \<Rightarrow> ('l, 'r, 'c) registry \<Rightarrow>
   ((grpc_status + pb_control_revision) \<times> ('l, 'r, 'c) registry) option" where
  "svc_update_controls now runID m g =
     (if m = None then Some (Inl (Status InvalidArgument (Errorf [T ''controls are required''])), g)
      else map_option (map_prod (reply wire_revision) (\<lambda>g. g)) (update_controls now runID (wire_controls_from m) g))"

definition svc_pause_run ::
  "('d, 't) pb_time \<Rightarrow> ('fs, 'l, 'r) spine \<Rightarrow> 'c chain_ops \<Rightarrow> int \<Rightarrow> string \<Rightarrow> bool \<Rightarrow> ('l, 'r, 'c) registry \<Rightarrow>
   ((grpc_status + ('d, 't) pb_run) \<times> ('l, 'r, 'c) registry) option" where
  "svc_pause_run pt sp ch now runID paused g =
     map_option (map_prod (reply (wire_run pt)) (\<lambda>g. g))
       (if paused then pause_run sp ch now runID g else resume_run sp ch now runID g)"

definition wire_summary :: "('d, 't) pb_time \<Rightarrow> run_summary \<Rightarrow> ('d, 't) pb_run_summary" where
  "wire_summary pt s =
     \<lparr>pu_Run = Some (wire_run pt (su_Run s)), pu_Snapshot = Some (wire_snapshot pt (su_Snapshot s)),
      pu_Telemetry = Some (wire_telemetry pt (su_Telemetry s))\<rparr>"

definition svc_finish_run ::
  "('d, 't) pb_time \<Rightarrow> ('fs, 'l, 'r) spine \<Rightarrow> 'c chain_ops \<Rightarrow> int \<Rightarrow> string \<Rightarrow> ('l, 'r, 'c) registry \<Rightarrow>
   ((grpc_status + ('d, 't) pb_run_summary) \<times> ('l, 'r, 'c) registry) option" where
  "svc_finish_run pt sp ch now runID g =
     map_option (map_prod (reply (wire_summary pt)) (\<lambda>g. g)) (finish_run sp ch now runID g)"

definition svc_get_snapshot ::
  "('d, 't) pb_time \<Rightarrow> ('fs, 'l, 'r) spine \<Rightarrow> int \<Rightarrow> string \<Rightarrow> ('l, 'r, 'c) registry \<Rightarrow> grpc_status + 't pb_garden_snapshot" where
  "svc_get_snapshot pt sp now runID g = reply (wire_snapshot pt) (get_snapshot sp now runID g)"

definition svc_get_telemetry ::
  "('d, 't) pb_time \<Rightarrow> ('fs, 'l, 'r) spine \<Rightarrow> int \<Rightarrow> string \<Rightarrow> ('l, 'r, 'c) registry \<Rightarrow> grpc_status + ('d, 't) pb_telemetry" where
  "svc_get_telemetry pt sp now runID g = reply (wire_telemetry pt) (get_telemetry sp now runID g)"

lemmas [model_defs] = svc_get_run_def svc_update_controls_def svc_pause_run_def svc_finish_run_def
  svc_get_snapshot_def svc_get_telemetry_def get_run_def get_snapshot_def get_telemetry_def update_controls_def
  pause_run_def resume_run_def set_paused_def finish_run_def

subsection \<open>Status codes\<close>

text \<open>
  The code a call answers, \<open>None\<close> when it succeeds, with the registry it leaves; and the calls
  that name a run, on one registry.
\<close>

definition code_of :: "grpc_status + 'm \<Rightarrow> grpc_code option" where
  "code_of r = (case r of Inl st \<Rightarrow> Some (status_code st) | Inr _ \<Rightarrow> None)"

definition run_calls ::
  "('d, 't) pb_time \<Rightarrow> ('fs, 'l, 'r) spine \<Rightarrow> 'c chain_ops \<Rightarrow> int \<Rightarrow> string \<Rightarrow> pb_controls \<Rightarrow> bool \<Rightarrow>
   ('l, 'r, 'c) registry \<Rightarrow> (grpc_code option \<times> ('l, 'r, 'c) registry) option list" where
  "run_calls pt sp ch now runID m paused g =
     [Some (code_of (svc_get_run pt runID g), g),
      Some (code_of (svc_get_snapshot pt sp now runID g), g),
      Some (code_of (svc_get_telemetry pt sp now runID g), g),
      map_option (map_prod code_of (\<lambda>g. g)) (svc_update_controls now runID (Some m) g),
      map_option (map_prod code_of (\<lambda>g. g)) (svc_pause_run pt sp ch now runID paused g),
      map_option (map_prod code_of (\<lambda>g. g)) (svc_finish_run pt sp ch now runID g)]"

lemma code_of_reply [simp]:
  "code_of (reply msg (Inl e)) = Some (status_code (the (to_status (Some e))))"
  "code_of (reply msg (Inr x)) = None"
  by (simp_all add: code_of_def reply_def)

lemma replied:
  assumes "map_option (map_prod (reply msg) (\<lambda>g. g)) x = Some (Inr m, g')"
  obtains v where "x = Some (Inr v, g')" "m = msg v"
  using assms by (cases x) (auto simp: reply_def split: sum.splits)

lemma on_run_lookup_fails: "lookup_run runID g = Inl e \<Longrightarrow> on_run fn runID g = Some (Inl e, g)"
  by (simp add: on_run_def)

lemma query_run_lookup_fails: "lookup_run runID g = Inl e \<Longrightarrow> query_run read runID g = Inl e"
  by (simp add: query_run_def)

lemma calls_refused:
  assumes "lookup_run runID g = Inl e" "a \<in> set (run_calls pt sp ch now runID m paused g)"
  shows "a = Some (Some (status_code (the (to_status (Some e)))), g)"
  using assms(2)
  by (auto simp: run_calls_def model_defs on_run_lookup_fails [OF assms(1)] query_run_lookup_fails [OF assms(1)])

lemma lookup_found: "\<not> g_closed g \<Longrightarrow> map_of (g_runs g) runID = Some r \<Longrightarrow> lookup_run runID g = Inr r"
  by (simp add: lookup_run_def)

lemma put_run_same: "distinct (map fst (g_runs g)) \<Longrightarrow> map_of (g_runs g) runID = Some r \<Longrightarrow> put_run runID r g = g"
proof -
  assume d: "distinct (map fst (g_runs g))" and r: "map_of (g_runs g) runID = Some r"
  have "map (\<lambda>(k, x). if k = runID then (k, r) else (k, x)) (g_runs g) = g_runs g"
    by (rule map_idI) (use d r in \<open>auto dest: map_of_SomeD eq_key_imp_eq_value\<close>)
  then show ?thesis by (simp add: put_run_def)
qed

lemma on_run_found:
  assumes "\<not> g_closed g" "map_of (g_runs g) runID = Some r" "\<not> lr_done r"
  shows "on_run fn runID g = map_option (map_prod (\<lambda>x. x) (\<lambda>r. put_run runID r g)) (fn r)"
  using assms by (simp add: on_run_def lookup_found do_run_def split: option.split)

lemma query_run_found:
  assumes "\<not> g_closed g" "map_of (g_runs g) runID = Some r" "\<not> lr_done r"
  shows "query_run read runID g = Inr (read r)"
  using assms by (simp add: query_run_def lookup_found)

lemma calls_gone:
  assumes "distinct (map fst (g_runs g))" "\<not> g_closed g" "map_of (g_runs g) runID = Some r" "lr_done r"
  shows "on_run fn runID g = Some (Inl (Sentinel ErrRunClosed), g)"
    "query_run read runID g = Inl (Sentinel ErrRunClosed)"
  using assms by (simp_all add: on_run_def query_run_def do_run_def lookup_found put_run_same)

text \<open>
  C31. What a client is told, by code: on a closed registry every call that names a run answers
  \<^verbatim>\<open>Unavailable\<close>, a run that is not there is \<^verbatim>\<open>NotFound\<close>, a run whose goroutine is gone is
  \<^verbatim>\<open>Unavailable\<close>, and on a finished run the reads and \<^verbatim>\<open>FinishRun\<close> still answer while a control
  change, a pause and a resume are \<^verbatim>\<open>FailedPrecondition\<close>; none of these changes a run.
\<close>

theorem service_status_codes:
  assumes "reg_ok g"
  shows "(g_closed g \<longrightarrow> list_all (\<lambda>a. a = Some (Some Unavailable, g)) (run_calls pt sp ch now runID m paused g)) \<and>
    (\<not> g_closed g \<and> map_of (g_runs g) runID = None \<longrightarrow>
       list_all (\<lambda>a. a = Some (Some NotFound, g)) (run_calls pt sp ch now runID m paused g)) \<and>
    (\<not> g_closed g \<and> map_of (g_runs g) runID = Some r \<and> lr_done r \<longrightarrow>
       list_all (\<lambda>a. a = Some (Some Unavailable, g)) (run_calls pt sp ch now runID m paused g)) \<and>
    (\<not> g_closed g \<and> map_of (g_runs g) runID = Some r \<and> \<not> lr_done r \<and> lr_state r = state_finished \<longrightarrow>
       run_calls pt sp ch now runID m paused g =
         [Some (None, g), Some (None, g), Some (None, g), Some (Some FailedPrecondition, g),
          Some (Some FailedPrecondition, g), Some (None, g)])"
proof (intro conjI impI)
  have d: "distinct (map fst (g_runs g))" using assms by (simp add: reg_ok_def)
  show "list_all (\<lambda>a. a = Some (Some Unavailable, g)) (run_calls pt sp ch now runID m paused g)" if "g_closed g"
  proof -
    have "lookup_run runID g = Inl (Sentinel ErrRegistryDown)" using that by (simp add: lookup_run_def)
    from calls_refused [OF this] show ?thesis by (auto simp: list_all_iff to_status_def)
  qed
  show "list_all (\<lambda>a. a = Some (Some NotFound, g)) (run_calls pt sp ch now runID m paused g)"
    if "\<not> g_closed g \<and> map_of (g_runs g) runID = None"
  proof -
    have "lookup_run runID g = Inl (Errorf [W (Sentinel ErrRunNotFound), T '': '', T runID])"
      using that by (simp add: lookup_run_def)
    from calls_refused [OF this] show ?thesis by (auto simp: list_all_iff to_status_def)
  qed
  show "list_all (\<lambda>a. a = Some (Some Unavailable, g)) (run_calls pt sp ch now runID m paused g)"
    if a: "\<not> g_closed g \<and> map_of (g_runs g) runID = Some r \<and> lr_done r"
  proof -
    have r: "\<not> g_closed g" "map_of (g_runs g) runID = Some r" "lr_done r" using a by simp_all
    show ?thesis by (simp add: run_calls_def model_defs to_status_def calls_gone [OF d r])
  qed
  show "run_calls pt sp ch now runID m paused g =
         [Some (None, g), Some (None, g), Some (None, g), Some (Some FailedPrecondition, g),
          Some (Some FailedPrecondition, g), Some (None, g)]"
    if a: "\<not> g_closed g \<and> map_of (g_runs g) runID = Some r \<and> \<not> lr_done r \<and> lr_state r = state_finished"
  proof -
    have p: "put_run runID r g = g" using a put_run_same [OF d] by blast
    from a p show ?thesis
      by (simp add: run_calls_def model_defs on_run_found query_run_found update_controls_cmd_def set_paused_cmd_def finish_cmd_def
          finish_def to_status_def)
  qed
qed

lemma demo_registry_ok: "reg_ok demo_registry" "\<not> g_closed demo_registry" "g_runs demo_registry = []"
  using new_registry_ok(1) [of "[WithSnapshotEvery 5]"] by (simp_all add: demo_registry_def) (simp_all add: new_registry_def)

theorem service_status_codes_witness:
  "list_all (\<lambda>a. a = Some (Some NotFound, demo_registry))
     (run_calls split_time mem_spine list_chain 0 ''nope'' (wire_controls default_controls) True demo_registry)"
  using service_status_codes [OF demo_registry_ok(1)] demo_registry_ok by simp

lemma map_of_replace:
  "map_of xs k = Some x \<Longrightarrow> map_of (map (\<lambda>(j, y). if j = k then (j, z) else (j, y)) xs) k = Some z"
  by (induction xs) (auto split: if_splits)

lemma map_of_put_run:
  "map_of (g_runs g) runID = Some r0 \<Longrightarrow> map_of (g_runs (put_run runID r g)) runID = Some r"
  by (simp add: put_run_def map_of_replace)

lemma put_run_put_run [simp]: "put_run runID r (put_run runID r0 g) = put_run runID r g"
proof -
  have "map ((\<lambda>(k, x). if k = runID then (k, r) else (k, x)) \<circ> (\<lambda>(k, x). if k = runID then (k, r0) else (k, x))) (g_runs g)
      = map (\<lambda>(k, x). if k = runID then (k, r) else (k, x)) (g_runs g)"
    by (rule map_cong) auto
  then show ?thesis by (simp add: put_run_def)
qed

lemma put_run_settings [simp]: "g_closed (put_run runID r g) = g_closed g"
  by (simp add: put_run_def)

lemma finish_done: "finish sp ch now r = Some r' \<Longrightarrow> lr_done r' = lr_done r"
  by (cases "lr_state r = state_finished") (simp add: finish_def, rule finish_spec)

text \<open>
  C32. A retried \<^verbatim>\<open>FinishRun\<close> is harmless: once it has answered, calling it again, however much
  later, answers the same summary, in which only the time of observation is new, and leaves the
  registry as it is.
\<close>

theorem finish_retry_is_harmless:
  assumes "svc_finish_run pt sp ch now runID g = Some (Inr summary, g1)"
  shows "svc_finish_run pt sp ch later runID g1 =
    Some (Inr (summary\<lparr>pu_Snapshot := map_option (\<lambda>s. s\<lparr>pf_ObservedAt := Some (timestamp_new pt later)\<rparr>) (pu_Snapshot summary),
                       pu_Telemetry := map_option (\<lambda>t. t\<lparr>pm_ObservedAt := Some (timestamp_new pt later)\<rparr>) (pu_Telemetry summary)\<rparr>), g1)"
proof -
  let ?fn = "\<lambda>t r. map_option (\<lambda>(x, r). (Inr x, r)) (finish_cmd sp ch t r)"
  obtain s where s: "on_run (?fn now) runID g = Some (Inr s, g1)" "summary = wire_summary pt s"
    using assms unfolding svc_finish_run_def finish_run_def by (rule replied)
  obtain r where r: "\<not> g_closed g" "map_of (g_runs g) runID = Some r" "\<not> lr_done r"
    using s(1) by (auto simp: on_run_def lookup_run_def do_run_def split: if_splits option.splits)
  obtain r' where f: "finish sp ch now r = Some r'" "g1 = put_run runID r' g"
    "s = \<lparr>su_Run = view_of r', su_Snapshot = frame_of sp now r', su_Telemetry = telemetry_of sp now r'\<rparr>"
    using s(1) unfolding on_run_found [OF r] by (auto simp: finish_cmd_def split: option.splits)
  have st: "lr_state r' = state_finished" by (rule finish_state [OF f(1)])
  have nd: "\<not> lr_done r'" using finish_done [OF f(1)] r(3) by simp
  have "map_of (g_runs g1) runID = Some r'" using map_of_put_run [OF r(2)] f(2) by simp
  from on_run_found [OF _ this nd, of "?fn later"] f(2) r(1)
  have "on_run (?fn later) runID g1 =
      Some (Inr \<lparr>su_Run = view_of r', su_Snapshot = frame_of sp later r', su_Telemetry = telemetry_of sp later r'\<rparr>, g1)"
    by (simp add: finish_cmd_def finish_def st)
  then show ?thesis
    by (simp add: svc_finish_run_def finish_run_def reply_def s(2) f(3) wire_summary_def wire_snapshot_def wire_telemetry_def
        frame_of_def telemetry_of_def timestamp_of_def)
qed

theorem finish_retry_is_harmless_witness:
  "\<exists>(g :: mem_registry) g1 summary again.
     svc_finish_run split_time mem_spine list_chain 1 ''run-0001'' g = Some (Inr summary, g1) \<and>
     svc_finish_run split_time mem_spine list_chain 9 ''run-0001'' g1 = Some (Inr again, g1) \<and>
     pu_Run again = pu_Run summary"
proof -
  obtain v g' r0 where st:
    "start_run mem_spine list_chain (ephemeral_logs mem_spine) 0 demo_request demo_registry = Some (Inr v, g')"
    "map_of (g_runs g') (vw_RunID v) = Some r0" "vw_RunID v = ''run-0001''" by (rule demo_start)
  note s = started_live_ok [OF st(1,2)]
  have log: "s_log (lr_sim r0) \<noteq> None" using s(1,3) by (simp add: live_ok_def)
  obtain r where r: "finish mem_spine list_chain 1 r0 = Some r" using finish_total [OF mem_laws(2) log s(2)] by metis
  have "\<not> g_closed g'" by (rule start_run_ok [OF st(1)]) (simp add: add_run_def)
  then have "\<exists>summary g1. svc_finish_run split_time mem_spine list_chain 1 ''run-0001'' g' = Some (Inr summary, g1)"
    using st(2,3) s(3) r by (simp add: svc_finish_run_def finish_run_def on_run_found finish_cmd_def reply_def)
  then obtain summary g1 where f: "svc_finish_run split_time mem_spine list_chain 1 ''run-0001'' g' = Some (Inr summary, g1)" by blast
  from finish_retry_is_harmless [OF f, of 9] show ?thesis by - (intro exI conjI, rule f, assumption, simp)
qed

subsection \<open>Starting a run over the wire\<close>

text \<open>The types of a request's fields.\<close>

definition pb_request_ok :: "'d pb_start_request \<Rightarrow> bool" where
  "pb_request_ok req \<longleftrightarrow>
     in_int64 (ps_Seed req) \<and> in_int32 (ps_Organisms req) \<and> in_int64 (ps_MaxTicks req) \<and> in_int32 (ps_DuplicateEvery req) \<and>
     (case ps_Controls req of None \<Rightarrow> True | Some m \<Rightarrow> pb_controls_ok m)"

lemma engine_request_fits: "pb_request_ok req \<Longrightarrow> request_fits (engine_request pt req)"
  by (auto simp: request_fits_def engine_request_def pb_request_ok_def in_int32_def intro!: wire_weights_fit)

lemma wire_controls_again: "pb_controls_ok m \<Longrightarrow> wire_controls (wire_controls_from (Some m)) = m"
  by (cases m) (simp add: wire_controls_from_def wire_controls_def pb_controls_ok_def)

text \<open>
  C33. What a client asked for is what it is told it got: a start that succeeds returns a run
  that is running at tick zero, revision zero, with the seed, organisms, limit and controls of
  the request unchanged, the registry's interval where none was asked for, and a run ID that no
  live run had; asking for that run returns the same message.
\<close>

theorem started_run_matches_request:
  assumes "spine_laws sp disk" "pb_request_ok req" "0 \<le> g_nextID g"
    "svc_start_run pt sp ch opn now (Some req) g = Some (Inr run, g')"
  shows "map_of (g_runs g) (pr_RunId run) = None \<and> (ps_RunId req \<noteq> '''' \<longrightarrow> pr_RunId run = ps_RunId req) \<and>
    svc_get_run pt (pr_RunId run) g' = Inr run \<and>
    pr_State run = RUN_STATE_RUNNING \<and> pr_Tick run = 0 \<and> pr_Revision run = 0 \<and> pr_FinishedAt run = None \<and>
    pr_Failure run = None \<and> \<not> pr_Resumed run \<and>
    pr_Seed run = ps_Seed req \<and> pr_Organisms run = ps_Organisms req \<and> pr_MaxTicks run = ps_MaxTicks req \<and>
    pr_Controls run = ps_Controls req \<and>
    pr_TickInterval run = Some (duration_new pt (if as_duration pt (ps_TickInterval req) = 0 then g_interval g
                                                 else as_duration pt (ps_TickInterval req)))"
proof -
  let ?q = "engine_request pt req"
  obtain v where v: "start_run sp ch opn now ?q g = Some (Inr v, g')" "run = wire_run pt v"
    using assms(4) unfolding svc_start_run_def option.case by (rule replied)
  obtain runID L rc n s0 s where st: "validate_request ?q = None" "\<not> g_closed g"
    "claim_log sp opn (rq_RunID ?q) (rq_RunID ?q = '''') g = Some (Inr (runID, L, rc), n)"
    "new_sim sp ch (request_config ((fill_defaults g ?q)\<lparr>rq_RunID := runID\<rparr>) (g_metrics g)) (Some L) = Inr s0"
    "save_sim sp ch (set_state state_running s0) = Some (None, s)"
    "g' = add_run runID (new_live_run ((fill_defaults g ?q)\<lparr>rq_RunID := runID\<rparr>) s state_running now rc False)
            (g\<lparr>g_nextID := n\<rparr>)"
    "v = view_of (new_live_run ((fill_defaults g ?q)\<lparr>rq_RunID := runID\<rparr>) s state_running now rc False)"
    by (rule start_run_ok [OF v(1)], rule that)
  have "same_run (set_state state_running s0) s" using spine_laws.save_sim_frame [OF assms(1) st(5)] by metis
  then have s: "s_tick s = 0" "s_revision s = 0" "s_controls s = rq_Controls ?q"
    using st(4) by (auto simp: same_run_def set_state_def new_sim_def request_config_def split: option.splits sum.splits prod.splits)
  have c: "ps_Controls req = Some m \<Longrightarrow> wire_controls (wire_controls_from (ps_Controls req)) = m" for m
    using assms(2) wire_controls_again by (simp add: pb_request_ok_def)
  have "ps_Controls req \<noteq> None"
    using st(1) nil_controls_invalid
    by (cases "ps_Controls req") (auto simp: validate_request_def engine_request_def validate_controls_None_iff split: if_splits)
  then have ctl: "Some (wire_controls (s_controls s)) = ps_Controls req" using c s(3) by (auto simp: engine_request_def)
  have id: "vw_RunID v = runID" "ps_RunId req \<noteq> '''' \<longrightarrow> runID = ps_RunId req"
    using st(3) by (auto simp: st(7) view_of_def new_live_run_def claim_log_def engine_request_def split: sum.splits prod.splits)
  have "ps_RunId req \<noteq> '''' \<Longrightarrow> map_of (g_runs g) (ps_RunId req) = None"
    using v(1) st(2) by (auto simp: start_run_def Let_def engine_request_def split: option.splits if_splits)
  then have fresh: "map_of (g_runs g) runID = None"
    using claim_log_unused [OF st(3) assms(3)] by (simp add: engine_request_def)
  have "svc_get_run pt runID g' = Inr (wire_run pt v)"
    using st(2) by (simp add: svc_get_run_def st(6,7) get_run_add_run reply_def) (simp add: new_live_run_def)
  then show ?thesis
    using fresh id ctl s assms(2)
    by (simp add: v(2) wire_run_def timestamp_of_def)
       (simp add: st(7) view_of_def new_live_run_def wire_state_def engine_request_def pb_request_ok_def
         fill_defaults_def Let_def in_int32_def)
qed

theorem started_run_matches_request_witness:
  "\<exists>run (g' :: mem_registry).
     svc_start_run split_time mem_spine list_chain (ephemeral_logs mem_spine) 0
       (Some \<lparr>ps_RunId = ''run-0001'', ps_Seed = 7, ps_Organisms = 3, ps_Controls = Some (wire_controls default_controls),
              ps_TickInterval = None, ps_MaxTicks = 3, ps_DuplicateEvery = 2\<rparr>) demo_registry = Some (Inr run, g') \<and>
     pr_RunId run = ''run-0001'' \<and> pr_Controls run = Some (wire_controls default_controls) \<and>
     svc_get_run split_time ''run-0001'' g' = Inr run"
proof -
  let ?req = "\<lparr>ps_RunId = ''run-0001'', ps_Seed = 7, ps_Organisms = 3, ps_Controls = Some (wire_controls default_controls),
              ps_TickInterval = None, ps_MaxTicks = 3, ps_DuplicateEvery = 2\<rparr>"
  have "wire_controls_from (Some (wire_controls default_controls)) = default_controls"
    by (simp add: wire_controls_from_def wire_controls_def default_controls_def in_int32_def)
  then have q: "engine_request split_time ?req = demo_request"
    by (simp add: engine_request_def demo_request_def split_time_laws)
  obtain v g' r0 where st:
    "start_run mem_spine list_chain (ephemeral_logs mem_spine) 0 demo_request demo_registry = Some (Inr v, g')"
    "map_of (g_runs g') (vw_RunID v) = Some r0" "vw_RunID v = ''run-0001''" by (rule demo_start)
  have s: "svc_start_run split_time mem_spine list_chain (ephemeral_logs mem_spine) 0 (Some ?req) demo_registry
      = Some (Inr (wire_run split_time v), g')"
    using st(1) q by (simp add: svc_start_run_def reply_def)
  have ok: "pb_request_ok ?req" by (simp add: pb_request_ok_def wire_controls_ok in_int64_def in_int32_def)
  have n: "0 \<le> g_nextID demo_registry" by (simp add: demo_registry_def new_registry_def)
  from started_run_matches_request [OF mem_laws(1) ok n s] s show ?thesis by auto
qed

subsection \<open>Frames over the wire\<close>

lemma started_garden:
  assumes "spine_laws sp disk" "start_run sp ch opn now0 req g = Some (Inr v, g')"
    "map_of (g_runs g') (vw_RunID v) = Some r0" "opens_fresh sp disk opn" "request_fits req" "utf8_ok (vw_RunID v)"
    "run_reach sp ch r0 r" "lr_failure r = None" "\<not> lr_done r"
  shows "garden_wf (s_garden (lr_sim r))" "int (length (organisms (s_garden (lr_sim r)))) = rq_Organisms req"
    "1 \<le> rq_Organisms req"
proof -
  obtain cfg s0 L0 where st: "new_sim sp ch cfg (Some L0) = Inr s0" "config_fits cfg" "fresh_log sp disk L0"
    "sim_reach sp ch s0 (lr_sim r0)" "c_Organisms cfg = rq_Organisms req"
    by (rule started_sim [OF assms(2-6)], rule that)
  have "sim_reach sp ch s0 (lr_sim r)"
    using reach_trans [OF st(4)] run_reach_sim [OF assms(7-9)] by blast
  then have inv: "run_inv sp disk cfg (s_proc s0) (lr_sim r)"
    by (rule spine_laws.reach_inv [OF assms(1) _ spine_laws.start_inv [OF assms(1) st(1-3)]])
  obtain gd where gd: "new_garden (c_Organisms cfg) = Inr gd" "s_proc s0 = new_processor gd (c_Metrics cfg)"
    using new_sim_run_ok(6) [OF st(1,2)] by blast
  have n: "length (organisms gd) = nat (rq_Organisms req)" "1 \<le> rq_Organisms req"
    using new_garden_ok(2,3) [OF gd(1)] st(5) by simp_all
  show "garden_wf (s_garden (lr_sim r))" using inv by (simp add: run_inv_def run_ok_def)
  obtain es where "projection (s_proc (lr_sim r)) = projection (run_list consume (s_proc s0) es)"
    using inv by (auto simp: run_inv_def follows_def)
  then have "s_garden (lr_sim r) = p_garden (run_list consume (s_proc s0) es)" by (simp add: projection_def s_garden_def)
  then have "length (organisms (s_garden (lr_sim r))) = length (organisms gd)"
    using run_consume_length [of "s_proc s0" es] gd(2) by (simp add: new_processor_def)
  with n show "int (length (organisms (s_garden (lr_sim r)))) = rq_Organisms req" "1 \<le> rq_Organisms req" by simp_all
qed

lemma wire_organism_exact:
  "organism_ok p \<Longrightarrow> wire_organism p = \<lparr>po_Id = ID p, po_Moisture = Moisture p, po_Health = Health p, po_Stage = Stage p\<rparr>"
  by (simp add: wire_organism_def organism_ok_def rule_constants in_int32_def)

lemma wire_organisms_exact:
  assumes "list_all organism_ok os"
  shows "map po_Stage (map wire_organism os) = map Stage os"
    "filter (\<lambda>p. po_Health p > 0) (map wire_organism os) = map wire_organism (filter alive os)"
  using assms by (induction os) (auto simp: wire_organism_exact alive_def)

lemma total_stage_bounds:
  "list_all organism_ok os \<Longrightarrow> 0 \<le> sum_list (map Stage os) \<and> sum_list (map Stage os) \<le> 5 * int (length os)"
  by (induction os) (auto simp: organism_ok_def rule_constants)

text \<open>The wire state of a run that is alive: one of the three the contract names, and the right one.\<close>

lemma wire_state_exact:
  "live_ok r \<Longrightarrow>
     (lr_state r = state_running \<and> wire_state (lr_state r) = RUN_STATE_RUNNING) \<or>
     (lr_state r = state_paused \<and> wire_state (lr_state r) = RUN_STATE_PAUSED) \<or>
     (lr_state r = state_finished \<and> wire_state (lr_state r) = RUN_STATE_FINISHED)"
  by (auto simp: live_ok_def wire_state_def state_defs)

definition same_organism :: "organism \<Rightarrow> pb_organism \<Rightarrow> bool" where
  "same_organism o' p \<longleftrightarrow> po_Id p = ID o' \<and> po_Moisture p = Moisture o' \<and> po_Health p = Health o' \<and> po_Stage p = Stage o' \<and>
     po_Moisture p \<in> {0..100} \<and> po_Health p \<in> {0..100} \<and> po_Stage p \<in> {0..5}"

lemma same_organisms: "list_all organism_ok os \<Longrightarrow> list_all2 same_organism os (map wire_organism os)"
  by (auto simp: same_organism_def list_all2_conv_all_nth list_all_length wire_organism_exact organism_ok_def rule_constants)

text \<open>
  C35. A frame on the wire says what the run and its garden say. It carries the run's ID, tick,
  frame number, revision and folded offset; its state is the run's, and never
  \<^verbatim>\<open>RUN_STATE_UNSPECIFIED\<close>; its hash is the garden's fingerprint; there is one organism message
  per organism of the request, in order, with the exact values of the organism and within the ranges
  of the contract; and the summary has the exact counts, and as averages of moisture, health and
  stage the \<^verbatim>\<open>float64\<close> quotient of that column's sum over the organisms by their number. The
  \<^verbatim>\<open>int32\<close> conversions lose nothing while five times the number of organisms, and the revision,
  fit.
\<close>

theorem snapshot_message_faithful:
  assumes "spine_laws sp disk" "start_run sp ch opn now0 req g = Some (Inr v, g')"
    "map_of (g_runs g') (vw_RunID v) = Some r0" "opens_fresh sp disk opn" "request_fits req" "utf8_ok (vw_RunID v)"
    "run_reach sp ch r0 r" "lr_failure r = None" "\<not> lr_done r" "5 * rq_Organisms req < 2 ^ 31"
    "wire_snapshot pt (frame_of sp now r) = m" "organisms (s_garden (lr_sim r)) = os" "rq_Organisms req = n"
  shows "pf_RunId m = rq_RunID (lr_req r) \<and> pf_Tick m = s_tick (lr_sim r) \<and> pf_Sequence m = lr_snapSeq r \<and>
    (in_int32 (s_revision (lr_sim r)) \<longrightarrow> pf_Revision m = s_revision (lr_sim r)) \<and>
    pf_FoldedOffset m = folded_of sp (lr_sim r) \<and> pf_Hash m = hash (s_garden (lr_sim r)) \<and>
    (case pf_State m of
       RUN_STATE_RUNNING \<Rightarrow> lr_state r = state_running
     | RUN_STATE_PAUSED \<Rightarrow> lr_state r = state_paused
     | RUN_STATE_FINISHED \<Rightarrow> lr_state r = state_finished
     | RUN_STATE_UNSPECIFIED \<Rightarrow> False) \<and>
    int (length (pf_Organisms m)) = n \<and> list_all2 same_organism os (pf_Organisms m) \<and>
    pf_Stats m = Some \<lparr>pg_Organisms = n, pg_Alive = int (length (filter alive os)),
      pg_AverageMoisture = f64_quot (sum_list (map Moisture os)) n,
      pg_AverageHealth = f64_quot (sum_list (map Health os)) n,
      pg_AverageStage = f64_quot (sum_list (map Stage os)) n,
      pg_TotalStage = sum_list (map Stage os)\<rparr>"
proof -
  note gd = started_garden [OF assms(1-9)]
  note os = assms(12) and n = assms(13)
  have ok: "list_all organism_ok os" using gd(1) os by (simp add: garden_wf_def)
  have len: "int (length os) = n" "1 \<le> n" using gd(2,3) os n by simp_all
  then have ne: "organisms (s_garden (lr_sim r)) \<noteq> []" using os by auto
  have m: "m = wire_snapshot pt (frame_of sp now r)" using assms(11) by simp
  have al: "int (length (filter alive os)) \<le> n" using len(1) length_filter_le [of alive os] by linarith
  note st = stats_counts [OF ne, unfolded os len(1)] and ts = total_stage_bounds [OF ok]
  have "live_ok r" by (rule run_reach_ok [OF assms(7) started_live_ok(1) [OF assms(2,3)]])
  note state = wire_state_exact [OF this]
  have "list_all2 same_organism os (pf_Organisms m) \<and> int (length (pf_Organisms m)) = n"
    using same_organisms [OF ok] len(1) os by (simp add: m wire_snapshot_def frame_of_def)
  moreover have "wire_stats (stats (s_garden (lr_sim r))) = \<lparr>pg_Organisms = n, pg_Alive = int (length (filter alive os)),
      pg_AverageMoisture = f64_quot (sum_list (map Moisture os)) n,
      pg_AverageHealth = f64_quot (sum_list (map Health os)) n,
      pg_AverageStage = f64_quot (sum_list (map Stage os)) n,
      pg_TotalStage = sum_list (map Stage os)\<rparr>"
    using ts al len assms(10) n by (simp add: wire_stats_def st in_int32_def)
  ultimately show ?thesis
    using state by (auto simp: m wire_snapshot_def frame_of_def)
qed

theorem snapshot_message_faithful_witness:
  "\<exists>(r :: mem_run). lr_state r = state_running \<and>
     length (pf_Organisms (wire_snapshot split_time (frame_of mem_spine 9 r))) = 3 \<and>
     pf_Hash (wire_snapshot split_time (frame_of mem_spine 9 r)) = hash (s_garden (lr_sim r)) \<and>
     pf_State (wire_snapshot split_time (frame_of mem_spine 9 r)) \<noteq> RUN_STATE_UNSPECIFIED"
proof -
  obtain v g' r0 where st:
    "start_run mem_spine list_chain (ephemeral_logs mem_spine) 0 demo_request demo_registry = Some (Inr v, g')"
    "map_of (g_runs g') (vw_RunID v) = Some r0" "vw_RunID v = ''run-0001''" by (rule demo_start)
  note s = started_live_ok [OF st(1,2)]
  have u: "utf8_ok (vw_RunID v)" using st(3) demo_request_fits(2) by simp
  have n: "5 * rq_Organisms demo_request < 2 ^ 31" "rq_Organisms demo_request = 3" by (simp_all add: demo_request_def)
  from snapshot_message_faithful [OF mem_laws(1) st(1,2) mem_opens_fresh demo_request_fits(1) u run_reach.start s(2,3) n(1)
      refl refl n(2), of split_time 9] s(4)
  show ?thesis by (intro exI [of _ r0]) auto
qed

end
