(* ===== verification/Projection.thy ===== *)
theory Projection
  imports Service "HOL-Library.Sublist"
begin

text \<open>
  \<^verbatim>\<open>internal/projection/stream.go\<close>: the projection stream over a WebSocket. The connection is the
  WebSocket library's, a parameter of the model: \<open>upgraded\<close> is whether the upgrade succeeded and
  \<open>wr\<close> which messages the connection accepts. The pump's \<^verbatim>\<open>select\<close> is a sequence of choices of its
  two arms; a choice whose channel is not ready changes nothing. \<^verbatim>\<open>drain\<close> only reads and discards.
\<close>

datatype 't ws_message = Text "'t pb_frame" | Ping | CloseMessage int string

subsection \<open>Opening a stream\<close>

definition query_offset :: "string \<Rightarrow> go_error + int \<times> bool" where
  "query_offset raw =
     (if raw = '''' then Inr (0, False)
      else case atoi raw of
        None \<Rightarrow> Inl (Errorf [T ''from must be a log offset''])
      | Some from \<Rightarrow>
          if from < 0 then Inl (Errorf [T ''from must not be negative'']) else Inr (from, True))"

definition write_error :: "go_error \<Rightarrow> int" where
  "write_error err =
     (if errors_is err (Sentinel ErrRunNotFound) then 404
      else if errors_is err (Sentinel ErrOffsetOutOfRange) then 400
      else if errors_is err (Sentinel ErrRegistryDown) \<or> errors_is err (Sentinel ErrRunClosed) then 503
      else 500)"

text \<open>How a request ended: an HTTP error, a failed upgrade, a failed write, or a stream.\<close>

datatype 't stream_result =
    Refused int go_error
  | UpgradeFailed
  | WriteFailed
  | Streaming "'t ws_message list" subscription

definition detach :: "string \<Rightarrow> int \<Rightarrow> ('l, 'r, 'c) registry \<Rightarrow> ('l, 'r, 'c) registry" where
  "detach runID i g =
     (case map_of (g_runs g) runID of
        None \<Rightarrow> g
      | Some r \<Rightarrow> put_run runID (subscription_close i r) g)"

definition stream_handler ::
  "('fs, 'l, 'r) spine \<Rightarrow> int \<Rightarrow> string \<Rightarrow> string \<Rightarrow> bool \<Rightarrow> ('t ws_message \<Rightarrow> bool) \<Rightarrow> ('l, 'r, 'c) registry \<Rightarrow>
   ('t stream_result \<times> ('l, 'r, 'c) registry) option" where
  "stream_handler sp now runID raw upgraded wr g =
     (if runID = '''' then Some (Refused 400 (Errorf [T ''run_id is required'']), g)
      else case query_offset raw of
        Inl err \<Rightarrow> Some (Refused 400 err, g)
      | Inr (from, resuming) \<Rightarrow>
          (case (if resuming then resume_stream sp now runID 0 from g
                 else map_option (map_prod (map_sum id (\<lambda>sub. (sub, []))) (\<lambda>g. g)) (subscribe sp now runID 0 g)) of
             None \<Rightarrow> None
           | Some (Inl err, g) \<Rightarrow> Some (Refused (write_error err) err, g)
           | Some (Inr (sub, missed), g) \<Rightarrow>
               if \<not> upgraded then Some (UpgradeFailed, detach runID (sub_id sub) g)
               else if \<not> resuming then Some (Streaming [] sub, g)
               else if wr (Text (catchup_frame runID from missed))
               then Some (Streaming [Text (catchup_frame runID from missed)] sub, g)
               else Some (WriteFailed, detach runID (sub_id sub) g)))"

subsection \<open>Pumping frames\<close>

definition close_for :: "closed_reason \<Rightarrow> int \<times> string" where
  "close_for reason =
     (if reason = SubscriptionClosedRegistryShutdown then (1001, ''daemon shutting down'') else (1000, ''run finished''))"

datatype arm = SnapshotArm | PingArm

record 't pump_state =
  pu_sub :: subscription
  pu_out :: "'t ws_message list"
  pu_done :: bool

definition pump_write :: "('t ws_message \<Rightarrow> bool) \<Rightarrow> 't ws_message \<Rightarrow> 't pump_state \<Rightarrow> 't pump_state" where
  "pump_write wr m p = (if wr m then p\<lparr>pu_out := pu_out p @ [m]\<rparr> else p\<lparr>pu_done := True\<rparr>)"

definition pump_step ::
  "('d, 't) pb_time \<Rightarrow> ('t ws_message \<Rightarrow> bool) \<Rightarrow> string \<Rightarrow> 't pump_state \<Rightarrow> arm \<Rightarrow> 't pump_state" where
  "pump_step pt wr runID p arm =
     (if pu_done p then p
      else case arm of
        PingArm \<Rightarrow> pump_write wr Ping p
      | SnapshotArm \<Rightarrow>
          (case sub_ch (pu_sub p) of
             snap # rest \<Rightarrow> pump_write wr (Text (snapshot_frame pt runID snap)) (p\<lparr>pu_sub := (pu_sub p)\<lparr>sub_ch := rest\<rparr>\<rparr>)
           | [] \<Rightarrow>
               if sub_closed (pu_sub p)
               then let (code, reason) = close_for (sub_reason (pu_sub p))
                    in (pump_write wr (CloseMessage code reason) p)\<lparr>pu_done := True\<rparr>
               else p))"

definition pump_loop ::
  "('d, 't) pb_time \<Rightarrow> ('t ws_message \<Rightarrow> bool) \<Rightarrow> string \<Rightarrow> arm list \<Rightarrow> 't pump_state \<Rightarrow> 't pump_state" where
  "pump_loop pt wr runID arms p = run_list (pump_step pt wr runID) p arms"

subsection \<open>What a stream sends\<close>

lemma pump_Cons [simp]: "pump_loop pt wr runID (a # arms) p = pump_loop pt wr runID arms (pump_step pt wr runID p a)"
  by (simp add: pump_loop_def)

lemma pump_Nil [simp]: "pump_loop pt wr runID [] p = p"
  by (simp add: pump_loop_def)

lemma pump_done [simp]: "pu_done p \<Longrightarrow> pump_loop pt wr runID arms p = p"
  by (induction arms) (simp_all add: pump_step_def)

text \<open>
  The messages other than pings, and what a closed subscription still has to send: the frames in
  its channel, then the close message of its reason.
\<close>

definition no_pings :: "'t ws_message list \<Rightarrow> 't ws_message list" where
  "no_pings ms = filter (\<lambda>m. m \<noteq> Ping) ms"

definition ending :: "('d, 't) pb_time \<Rightarrow> string \<Rightarrow> subscription \<Rightarrow> 't ws_message list" where
  "ending pt runID d =
     map (\<lambda>f. Text (snapshot_frame pt runID f)) (sub_ch d) @
       [CloseMessage (fst (close_for (sub_reason d))) (snd (close_for (sub_reason d)))]"

lemma no_pings_simps [simp]:
  "no_pings [] = []" "no_pings (ms @ ns) = no_pings ms @ no_pings ns" "no_pings [Ping] = []"
  "no_pings [Text f] = [Text f]" "no_pings [CloseMessage c r] = [CloseMessage c r]"
  by (simp_all add: no_pings_def)

lemma pump_drains:
  assumes "sub_closed (pu_sub p)" "\<not> pu_done p" "length (sub_ch (pu_sub p)) < length (filter (\<lambda>a. a = SnapshotArm) arms)"
  shows "no_pings (pu_out (pump_loop pt (\<lambda>_. True) runID arms p)) = no_pings (pu_out p) @ ending pt runID (pu_sub p)"
  using assms
proof (induction arms arbitrary: p)
  case (Cons a arms)
  show ?case
  proof (cases a)
    case PingArm
    with Cons.prems Cons.IH [of "p\<lparr>pu_out := pu_out p @ [Ping]\<rparr>"] show ?thesis
      by (simp add: pump_step_def pump_write_def)
  next
    case SnapshotArm
    show ?thesis
    proof (cases "sub_ch (pu_sub p)")
      case Nil
      with SnapshotArm Cons.prems show ?thesis
        by (simp add: pump_step_def pump_write_def split_beta Let_def ending_def)
    next
      case (Cons f fs)
      let ?p = "p\<lparr>pu_sub := (pu_sub p)\<lparr>sub_ch := fs\<rparr>, pu_out := pu_out p @ [Text (snapshot_frame pt runID f)]\<rparr>"
      have "pump_step pt (\<lambda>_. True) runID p a = ?p" using SnapshotArm Cons Cons.prems by (simp add: pump_step_def pump_write_def)
      with Cons.IH [of ?p] SnapshotArm Cons Cons.prems show ?thesis by (simp add: ending_def)
    qed
  qed
qed simp

text \<open>Whatever the connection accepts, what is sent is a prefix of that: nothing is skipped or reordered.\<close>

lemma pump_prefix:
  assumes "sub_closed (pu_sub p)" "\<not> pu_done p"
  shows "prefix (no_pings (pu_out (pump_loop pt wr runID arms p))) (no_pings (pu_out p) @ ending pt runID (pu_sub p))"
  using assms
proof (induction arms arbitrary: p)
  case (Cons a arms)
  show ?case
  proof (cases "pu_done (pump_step pt wr runID p a)")
    case True
    then have "no_pings (pu_out (pump_step pt wr runID p a)) = no_pings (pu_out p) \<or>
        no_pings (pu_out (pump_step pt wr runID p a)) = no_pings (pu_out p) @ ending pt runID (pu_sub p)"
      using Cons.prems
      by (cases a; cases "sub_ch (pu_sub p)")
         (auto simp: pump_step_def pump_write_def split_beta Let_def ending_def split: if_splits)
    with True show ?thesis by auto
  next
    case False
    then have "no_pings (pu_out (pump_step pt wr runID p a)) @ ending pt runID (pu_sub (pump_step pt wr runID p a)) =
        no_pings (pu_out p) @ ending pt runID (pu_sub p) \<and> sub_closed (pu_sub (pump_step pt wr runID p a))"
      using Cons.prems
      by (cases a; cases "sub_ch (pu_sub p)")
         (auto simp: pump_step_def pump_write_def split_beta Let_def ending_def split: if_splits)
    with Cons.IH [of "pump_step pt wr runID p a"] False show ?thesis by simp
  qed
qed simp

definition pump_start :: "subscription \<Rightarrow> 't pump_state" where
  "pump_start d = \<lparr>pu_sub = d, pu_out = [], pu_done = False\<rparr>"

definition closed_by :: "closed_reason \<Rightarrow> ('l, 'r, 'c) live_run \<Rightarrow> ('l, 'r, 'c) live_run \<Rightarrow> bool" where
  "closed_by reason r r' \<longleftrightarrow>
     (\<exists>ds. lr_detached r' = lr_detached r @ ds \<and> map sub_id ds = map (\<lambda>p. sub_id (snd p)) (lr_subs r) \<and>
        list_all (\<lambda>d. sub_closed d \<and> sub_reason d = reason) ds)"

lemma closed_by_finish:
  assumes "finish sp ch now r = Some r'" "lr_state r \<noteq> state_finished"
  shows "closed_by SubscriptionClosedRunFinished r r'"
  by (rule finish_spec [OF assms]) (unfold closed_by_def, blast)

lemma closed_by_quit: "closed_by SubscriptionClosedRegistryShutdown r (quit_run sp r)"
  using quit_run_spec(4) [of sp r] by (auto simp: closed_by_def)

lemma closed_by_pump:
  assumes "closed_by reason r r'" "d \<in> set (drop (length (lr_detached r)) (lr_detached r'))"
  shows "length (sub_ch d) < length (filter (\<lambda>a. a = SnapshotArm) arms) \<Longrightarrow>
      no_pings (pu_out (pump_loop pt (\<lambda>_. True) runID arms (pump_start d))) =
        map (\<lambda>f. Text (snapshot_frame pt runID f)) (sub_ch d) @ [CloseMessage (fst (close_for reason)) (snd (close_for reason))]"
    "prefix (no_pings (pu_out (pump_loop pt wr runID arms (pump_start d))))
       (map (\<lambda>f. Text (snapshot_frame pt runID f)) (sub_ch d) @ [CloseMessage (fst (close_for reason)) (snd (close_for reason))])"
proof -
  have d: "sub_closed d" "sub_reason d = reason" using assms by (auto simp: closed_by_def list_all_iff)
  show "length (sub_ch d) < length (filter (\<lambda>a. a = SnapshotArm) arms) \<Longrightarrow>
      no_pings (pu_out (pump_loop pt (\<lambda>_. True) runID arms (pump_start d))) =
        map (\<lambda>f. Text (snapshot_frame pt runID f)) (sub_ch d) @ [CloseMessage (fst (close_for reason)) (snd (close_for reason))]"
    using pump_drains [of "pump_start d" arms pt runID] d by (simp add: pump_start_def ending_def)
  show "prefix (no_pings (pu_out (pump_loop pt wr runID arms (pump_start d))))
       (map (\<lambda>f. Text (snapshot_frame pt runID f)) (sub_ch d) @ [CloseMessage (fst (close_for reason)) (snd (close_for reason))])"
    using pump_prefix [of "pump_start d" pt wr runID arms] d by (simp add: pump_start_def ending_def)
qed

lemma closed_by_ids:
  "closed_by reason r r' \<Longrightarrow>
     map sub_id (drop (length (lr_detached r)) (lr_detached r')) = map (\<lambda>p. sub_id (snd p)) (lr_subs r)"
  by (auto simp: closed_by_def)

text \<open>
  C37. A client can tell how its stream ended: when a run finishes, every subscriber there was is
  sent the frames left in its channel in order and then the close code 1000; when the daemon
  shuts down it is 1001. Whatever the pings in between and whichever writes fail, what a client
  receives is a prefix of that, so a stream that broke carries neither code.
\<close>

theorem stream_tells_how_it_ended:
  assumes "finish sp ch now r = Some r'" "lr_state r \<noteq> state_finished"
  shows "map sub_id (drop (length (lr_detached r)) (lr_detached r')) = map (\<lambda>p. sub_id (snd p)) (lr_subs r) \<and>
    map sub_id (drop (length (lr_detached r)) (lr_detached (quit_run sp r))) = map (\<lambda>p. sub_id (snd p)) (lr_subs r) \<and>
    (\<forall>d \<in> set (drop (length (lr_detached r)) (lr_detached r')).
       (length (sub_ch d) < length (filter (\<lambda>a. a = SnapshotArm) arms) \<longrightarrow>
          no_pings (pu_out (pump_loop pt (\<lambda>_. True) runID arms (pump_start d))) =
            map (\<lambda>f. Text (snapshot_frame pt runID f)) (sub_ch d) @ [CloseMessage 1000 ''run finished'']) \<and>
       prefix (no_pings (pu_out (pump_loop pt wr runID arms (pump_start d))))
         (map (\<lambda>f. Text (snapshot_frame pt runID f)) (sub_ch d) @ [CloseMessage 1000 ''run finished''])) \<and>
    (\<forall>d \<in> set (drop (length (lr_detached r)) (lr_detached (quit_run sp r))).
       (length (sub_ch d) < length (filter (\<lambda>a. a = SnapshotArm) arms) \<longrightarrow>
          no_pings (pu_out (pump_loop pt (\<lambda>_. True) runID arms (pump_start d))) =
            map (\<lambda>f. Text (snapshot_frame pt runID f)) (sub_ch d) @ [CloseMessage 1001 ''daemon shutting down'']) \<and>
       prefix (no_pings (pu_out (pump_loop pt wr runID arms (pump_start d))))
         (map (\<lambda>f. Text (snapshot_frame pt runID f)) (sub_ch d) @ [CloseMessage 1001 ''daemon shutting down'']))"
proof -
  note f = closed_by_finish [OF assms] and q = closed_by_quit [of r sp]
  have c: "close_for SubscriptionClosedRunFinished = (1000, ''run finished'')"
    "close_for SubscriptionClosedRegistryShutdown = (1001, ''daemon shutting down'')"
    by (simp_all add: close_for_def)
  show ?thesis
    using closed_by_ids [OF f] closed_by_ids [OF q] closed_by_pump [OF f] closed_by_pump [OF q]
    unfolding c fst_conv snd_conv by blast
qed

subsection \<open>Refused streams\<close>

lemma subscribe_run_refused:
  assumes "on_run (subscribe_cmd sp default_subscriber_buffer from catchup now) runID g = Some (Inl e, g)"
  shows "catchup \<Longrightarrow> resume_stream sp now runID 0 from g = Some (Inl e, g)"
    "\<not> catchup \<Longrightarrow> from = 0 \<Longrightarrow> subscribe sp now runID 0 g = Some (Inl e, g)"
  using assms by (simp_all add: resume_stream_def subscribe_def subscribe_run_def)

lemma stream_handler_refused:
  assumes "runID \<noteq> ''''" "query_offset raw = Inr (from, resuming)"
    "on_run (subscribe_cmd sp default_subscriber_buffer from resuming now) runID g = Some (Inl e, g)"
  shows "stream_handler sp now runID raw upgraded wr g = Some (Refused (write_error e) e, g)"
proof -
  have "\<not> resuming \<Longrightarrow> from = 0" using assms(2) by (auto simp: query_offset_def split: if_splits option.splits)
  then show ?thesis
    using assms subscribe_run_refused [OF assms(3)] by (cases resuming) (simp_all add: stream_handler_def)
qed

lemma stream_handler_accepted:
  assumes "runID \<noteq> ''''" "query_offset raw = Inr (from, resuming)"
    "on_run (subscribe_cmd sp default_subscriber_buffer from resuming now) runID g = Some (Inr x, g1)"
  shows "stream_handler sp now runID raw upgraded wr g \<noteq> Some (Refused c e, g')"
proof -
  have "\<not> resuming \<Longrightarrow> from = 0" using assms(2) by (auto simp: query_offset_def split: if_splits option.splits)
  then show ?thesis
    using assms by (cases resuming)
      (auto simp: stream_handler_def resume_stream_def subscribe_def subscribe_run_def split: prod.splits if_splits)
qed

lemma subscribe_cmd_ok:
  "(if catchup then since_of sp from (lr_sim r) else Some (None, [])) = Some (None, missed) \<Longrightarrow>
     \<exists>x r'. subscribe_cmd sp buffer from catchup now r = Some (Inr x, r')"
  by (simp add: subscribe_cmd_def Let_def)

lemma since_refused:
  assumes "spine_laws sp disk" "from < ab_first (disk (el_log L)) \<or> ab_next (disk (el_log L)) < from"
  shows "\<exists>e. since sp from L = Some (Some e, []) \<and> write_error e = 400"
  using assms spine_laws.first [OF assms(1)] spine_laws.next_off [OF assms(1)]
  by (auto simp: since_def Let_def write_error_def)

text \<open>What \<^verbatim>\<open>strconv.ParseInt(raw, 10, 64)\<close> reads: an optional sign, digits and nothing else.\<close>

definition digits_value :: "string \<Rightarrow> nat" where
  "digits_value ds = foldl (\<lambda>v c. 10 * v + digit_val c) 0 ds"

definition decimal :: "string \<Rightarrow> int \<Rightarrow> bool" where
  "decimal s n \<longleftrightarrow> in_int64 n \<and> (\<exists>ds. ds \<noteq> [] \<and> list_all is_digit ds \<and>
     ((s = ds \<or> s = CHR ''+'' # ds) \<and> n = int (digits_value ds) \<or> s = CHR ''-'' # ds \<and> n = - int (digits_value ds)))"

lemma parse_nat_digits: "parse_nat s = Some m \<longleftrightarrow> s \<noteq> [] \<and> list_all is_digit s \<and> m = digits_value s"
proof -
  have "read_digits acc s = Some m \<longleftrightarrow> list_all is_digit s \<and> m = foldl (\<lambda>v c. 10 * v + digit_val c) acc s" for acc
    by (induction s arbitrary: acc) auto
  then show ?thesis by (auto simp: parse_nat_def digits_value_def)
qed

lemma atoi_signed:
  "atoi (CHR ''-'' # ds) = Some n \<longleftrightarrow> (\<exists>m. parse_nat ds = Some m \<and> n = - int m \<and> in_int64 n)"
  "atoi (CHR ''+'' # ds) = Some n \<longleftrightarrow> (\<exists>m. parse_nat ds = Some m \<and> n = int m \<and> in_int64 n)"
  "c \<noteq> CHR ''-'' \<Longrightarrow> c \<noteq> CHR ''+'' \<Longrightarrow>
     atoi (c # ds) = Some n \<longleftrightarrow> (\<exists>m. parse_nat (c # ds) = Some m \<and> n = int m \<and> in_int64 n)"
  by (auto simp: atoi_def Let_def split: option.split)

lemma decimal_signed:
  "decimal (CHR ''-'' # ds) n \<longleftrightarrow> in_int64 n \<and> ds \<noteq> [] \<and> list_all is_digit ds \<and> n = - int (digits_value ds)"
  "decimal (CHR ''+'' # ds) n \<longleftrightarrow> in_int64 n \<and> ds \<noteq> [] \<and> list_all is_digit ds \<and> n = int (digits_value ds)"
  "c \<noteq> CHR ''-'' \<Longrightarrow> c \<noteq> CHR ''+'' \<Longrightarrow>
     decimal (c # ds) n \<longleftrightarrow> in_int64 n \<and> list_all is_digit (c # ds) \<and> n = int (digits_value (c # ds))"
proof -
  have sign: "\<not> list_all is_digit (CHR ''-'' # ds)" "\<not> list_all is_digit (CHR ''+'' # ds)" by (simp_all add: is_digit_def)
  then show "decimal (CHR ''-'' # ds) n \<longleftrightarrow> in_int64 n \<and> ds \<noteq> [] \<and> list_all is_digit ds \<and> n = - int (digits_value ds)"
    "decimal (CHR ''+'' # ds) n \<longleftrightarrow> in_int64 n \<and> ds \<noteq> [] \<and> list_all is_digit ds \<and> n = int (digits_value ds)"
    unfolding decimal_def by (auto simp del: list.pred_inject)
  show "c \<noteq> CHR ''-'' \<Longrightarrow> c \<noteq> CHR ''+'' \<Longrightarrow>
     decimal (c # ds) n \<longleftrightarrow> in_int64 n \<and> list_all is_digit (c # ds) \<and> n = int (digits_value (c # ds))"
    unfolding decimal_def by (auto simp del: list.pred_inject)
qed

lemma atoi_decimal: "atoi s = Some n \<longleftrightarrow> decimal s n"
proof (cases s)
  case Nil
  then show ?thesis by (simp add: atoi_def decimal_def parse_nat_def)
next
  case (Cons c cs)
  consider "c = CHR ''-''" | "c = CHR ''+''" | "c \<noteq> CHR ''-''" "c \<noteq> CHR ''+''" by blast
  then show ?thesis
  proof cases
    case 3
    show ?thesis unfolding Cons atoi_signed(3) [OF 3] decimal_signed(3) [OF 3] parse_nat_digits by blast
  qed (unfold Cons, auto simp: atoi_signed(1,2) decimal_signed(1,2) parse_nat_digits)
qed

text \<open>What a request asks for: the stream from now, or from an offset.\<close>

definition asks :: "string \<Rightarrow> int option \<Rightarrow> bool" where
  "asks raw offset \<longleftrightarrow>
     (case offset of None \<Rightarrow> raw = [] | Some n \<Rightarrow> raw \<noteq> [] \<and> 0 \<le> n \<and> decimal raw n)"

lemma query_offset_asks:
  "asks raw None \<Longrightarrow> query_offset raw = Inr (0, False)"
  "asks raw (Some n) \<Longrightarrow> query_offset raw = Inr (n, True)"
  by (auto simp: query_offset_def asks_def atoi_decimal [symmetric])

lemma query_offset_refused:
  assumes "raw \<noteq> []" "\<forall>n \<ge> 0. \<not> decimal raw n"
  shows "\<exists>e. query_offset raw = Inl e"
proof (cases "atoi raw")
  case (Some n)
  then have "n < 0" using assms(2) atoi_decimal [of raw n] by (auto simp: not_le [symmetric])
  with Some assms(1) show ?thesis by (simp add: query_offset_def)
qed (simp add: query_offset_def assms(1))

definition sentinel_free :: "go_error \<Rightarrow> bool" where
  "sentinel_free e \<longleftrightarrow> \<not> errors_is e (Sentinel ErrRunNotFound) \<and> \<not> errors_is e (Sentinel ErrOffsetOutOfRange) \<and>
     \<not> errors_is e (Sentinel ErrRegistryDown) \<and> \<not> errors_is e (Sentinel ErrRunClosed)"

text \<open>
  C38. A stream that cannot start is refused before any upgrade, with nothing changed and with a
  status a client can read: 400 when the run ID is missing, when the offset is anything but an
  optional sign and decimal digits that make a non-negative \<^verbatim>\<open>int64\<close>, or when the log does not hold
  it; 404 for a run that is not there; 503 when the daemon is shutting down or the run's goroutine is
  gone; 500 when the log fails while it is read. Nothing else is refused: a request for a live run
  without an offset, or with one the log is read from without an error, is not.
\<close>

theorem stream_refusals:
  assumes "spine_laws sp disk" "reg_ok g" "stream_handler sp now runID raw upgraded wr g = h"
  shows "(runID = '''' \<longrightarrow> (\<exists>e. h = Some (Refused 400 e, g))) \<and>
    (raw \<noteq> '''' \<and> (\<forall>n \<ge> 0. \<not> decimal raw n) \<longrightarrow> (\<exists>e. h = Some (Refused 400 e, g))) \<and>
    (runID \<noteq> '''' \<and> asks raw offset \<longrightarrow>
       (if g_closed g then \<exists>e. h = Some (Refused 503 e, g)
        else case map_of (g_runs g) runID of
          None \<Rightarrow> \<exists>e. h = Some (Refused 404 e, g)
        | Some r \<Rightarrow>
            if lr_done r then \<exists>e. h = Some (Refused 503 e, g)
            else case offset of
              None \<Rightarrow> \<forall>c e g'. h \<noteq> Some (Refused c e, g')
            | Some n \<Rightarrow> \<forall>L. s_log (lr_sim r) = Some L \<longrightarrow>
                (n < ab_first (disk (el_log L)) \<or> ab_next (disk (el_log L)) < n \<longrightarrow> (\<exists>e. h = Some (Refused 400 e, g))) \<and>
                (\<forall>e es. since sp n L = Some (Some e, es) \<and> sentinel_free e \<longrightarrow> h = Some (Refused 500 e, g)) \<and>
                (\<forall>es. since sp n L = Some (None, es) \<longrightarrow> (\<forall>c e g'. h \<noteq> Some (Refused c e, g')))))"
proof (intro conjI impI)
  have d: "distinct (map fst (g_runs g))" using assms(2) by (simp add: reg_ok_def)
  show "\<exists>e. h = Some (Refused 400 e, g)" if "runID = ''''"
    using that assms(3) by (auto simp: stream_handler_def)
  show "\<exists>e. h = Some (Refused 400 e, g)" if "raw \<noteq> '''' \<and> (\<forall>n \<ge> 0. \<not> decimal raw n)"
    using query_offset_refused [of raw] that assms(3) by (auto simp: stream_handler_def)
  assume a: "runID \<noteq> '''' \<and> asks raw offset"
  obtain "from" resuming where q: "query_offset raw = Inr (from, resuming)" "offset = (if resuming then Some from else None)"
    using a query_offset_asks by (cases offset) (force, force)
  note refused = stream_handler_refused [OF conjunct1 [OF a] q(1), where sp = sp and now = now and upgraded = upgraded and wr = wr and g = g,
      unfolded assms(3)]
  note accepted = stream_handler_accepted [OF conjunct1 [OF a] q(1), where sp = sp and now = now and upgraded = upgraded and wr = wr and g = g,
      unfolded assms(3)]
  show "if g_closed g then \<exists>e. h = Some (Refused 503 e, g)
        else case map_of (g_runs g) runID of
          None \<Rightarrow> \<exists>e. h = Some (Refused 404 e, g)
        | Some r \<Rightarrow>
            if lr_done r then \<exists>e. h = Some (Refused 503 e, g)
            else case offset of
              None \<Rightarrow> \<forall>c e g'. h \<noteq> Some (Refused c e, g')
            | Some n \<Rightarrow> \<forall>L. s_log (lr_sim r) = Some L \<longrightarrow>
                (n < ab_first (disk (el_log L)) \<or> ab_next (disk (el_log L)) < n \<longrightarrow> (\<exists>e. h = Some (Refused 400 e, g))) \<and>
                (\<forall>e es. since sp n L = Some (Some e, es) \<and> sentinel_free e \<longrightarrow> h = Some (Refused 500 e, g)) \<and>
                (\<forall>es. since sp n L = Some (None, es) \<longrightarrow> (\<forall>c e g'. h \<noteq> Some (Refused c e, g')))"
  proof (cases "lookup_run runID g")
    case (Inl e)
    with refused [OF on_run_lookup_fails [OF Inl]] show ?thesis
      by (auto simp: lookup_run_def write_error_def split: if_splits option.splits)
  next
    case (Inr r)
    then have r: "\<not> g_closed g" "map_of (g_runs g) runID = Some r"
      by (auto simp: lookup_run_def split: if_splits option.splits)
    show ?thesis
    proof (cases "lr_done r")
      case True
      with refused [OF calls_gone(1) [OF d r True]] r show ?thesis by (simp add: write_error_def)
    next
      case False
      note sub = on_run_found [OF r False] subscribe_cmd_def since_of_def
      have put: "put_run runID r g = g" using put_run_same [OF d r(2)] .
      have fails: "h = Some (Refused (write_error e) e, g)"
        if "offset = Some n" "s_log (lr_sim r) = Some L" "since sp n L = Some (Some e, es)" for n L e es
        by (rule refused) (use that q(2) put in \<open>auto simp: sub split: if_splits\<close>)
      have acc: "h \<noteq> Some (Refused c e, g')"
        if "(if resuming then since_of sp from (lr_sim r) else Some (None, [])) = Some (None, es)" for es c e g'
      proof -
        note ok = subscribe_cmd_ok [OF that]
        obtain x r' where "subscribe_cmd sp default_subscriber_buffer from resuming now r = Some (Inr x, r')"
          using ok by blast
        then show ?thesis by (intro accepted) (simp add: on_run_found [OF r False])
      qed
      have fresh: "offset = None \<Longrightarrow> h \<noteq> Some (Refused c e, g')" for c e g'
        using acc [of "[]"] q(2) by (simp split: if_splits)
      have read: "offset = Some n \<Longrightarrow> s_log (lr_sim r) = Some L \<Longrightarrow> since sp n L = Some (None, es) \<Longrightarrow> h \<noteq> Some (Refused c e, g')"
        for n L es c e g'
        using acc [of es] q(2) by (simp add: since_of_def split: if_splits)
      have range: "offset = Some n \<Longrightarrow> s_log (lr_sim r) = Some L \<Longrightarrow>
          n < ab_first (disk (el_log L)) \<or> ab_next (disk (el_log L)) < n \<Longrightarrow> \<exists>e. h = Some (Refused 400 e, g)" for n L
        using since_refused [OF assms(1), of n L] fails by metis
      have "sentinel_free e \<Longrightarrow> write_error e = 500" for e by (simp add: sentinel_free_def write_error_def)
      then show ?thesis using r False fresh read range fails by (cases offset) auto
    qed
  qed
qed

subsection \<open>Catching up\<close>

lemma query_offset_fmt: "0 \<le> from \<Longrightarrow> in_int64 from \<Longrightarrow> query_offset (fmt_d from) = Inr (from, True)"
  using atoi_fmt_d [of "from"] by (auto simp: query_offset_def fmt_d_def)

lemma stream_handler_resumed:
  assumes "runID \<noteq> ''''" "query_offset raw = Inr (from, True)"
    "resume_stream sp now runID 0 from g = Some (Inr (sub, missed), g')"
  shows "stream_handler sp now runID raw True (\<lambda>_. True) g = Some (Streaming [Text (catchup_frame runID from missed)] sub, g')"
  using assms by (simp add: stream_handler_def)

lemma subscribed_attached:
  assumes "live_ok r" "subscribe_cmd sp buffer from catchup now r = Some (Inr (sub, missed), r')" "lr_state r \<noteq> state_finished"
  shows "map_of (lr_subs r') (sub_id sub) = Some sub"
proof -
  have "lr_nextSub r + 1 \<notin> fst ` set (lr_subs r)"
    using assms(1) by (auto simp: live_ok_def list_all_iff sub_ok_def)
  then have "map_of (lr_subs r) (lr_nextSub r + 1) = None" by (simp add: map_of_eq_None_iff)
  then show ?thesis
    using assms(2,3) by (auto simp: subscribe_cmd_def Let_def map_add_def split: option.splits)
qed

text \<open>
  C36. A reconnecting client is caught up before it is streamed to: on a log that does not fail,
  \<^verbatim>\<open>?from=N\<close> for an offset the log holds opens a stream whose first message is the catch-up
  frame with every record from \<open>N\<close> to the end of the log, in log order, and whose first frame is
  the current garden, at an offset that lies behind the catch-up's end by exactly the backlog.
\<close>

theorem stream_catches_up:
  assumes "reliable_spine sp disk" "start_run sp ch opn now0 req g = Some (Inr v, g')"
    "map_of (g_runs g') (vw_RunID v) = Some r0" "opens_fresh sp disk opn" "request_fits req" "utf8_ok (vw_RunID v)"
    "run_reach sp ch r0 r" "lr_failure r = None" "\<not> lr_done r" "s_log (lr_sim r) = Some L"
    "\<not> g_closed h" "map_of (g_runs h) runID = Some r" "runID \<noteq> ''''" "0 \<le> from" "in_int64 from"
    "ab_first (disk (el_log L)) \<le> from" "from \<le> ab_next (disk (el_log L))"
  shows "\<exists>sub h' m c r'. stream_handler sp now runID (fmt_d from) True (\<lambda>_ :: 't ws_message. True) h = Some (Streaming [Text m] sub, h') \<and>
    pj_RunId m = runID \<and> pj_Catchup m = Some c \<and> ca_From c = from \<and> ca_To c = ab_next (disk (el_log L)) \<and>
    ca_Events c = map wire_event (drop (nat (from - ab_first (disk (el_log L)))) (hist_of disk L)) \<and>
    sub_ch sub = [frame_of sp now r] \<and>
    fr_FoldedOffset (frame_of sp now r) = ca_To c - pending_of sp (lr_sim r) \<and>
    map_of (g_runs h') runID = Some r' \<and>
    (if lr_state r = state_finished then sub_closed sub else map_of (lr_subs r') (sub_id sub) = Some sub)"
proof -
  have laws: "spine_laws sp disk" using assms(1) by (simp add: reliable_spine_def)
  obtain cfg b where "run_inv sp disk cfg b (lr_sim r)" using started_inv [OF laws assms(2-9)] by blast
  then have wf: "wf_of sp disk L" using assms(10) by (auto simp: run_inv_def follows_def)
  let ?missed = "drop (nat (from - ab_first (disk (el_log L)))) (hist_of disk L)"
  have since: "since sp from L = Some (None, ?missed)" by (rule reliable_spine.since_total [OF assms(1) wf assms(16,17)])
  have cmd: "\<exists>sub r'. subscribe_cmd sp default_subscriber_buffer from True now r = Some (Inr (sub, ?missed), r') \<and>
      sub_ch sub = [frame_of sp now r] \<and> (lr_state r = state_finished \<longrightarrow> sub_closed sub)"
    by (cases "lr_state r = state_finished") (simp_all add: subscribe_cmd_def since_of_def assms(10) since Let_def)
  then obtain sub r' where sub: "subscribe_cmd sp default_subscriber_buffer from True now r = Some (Inr (sub, ?missed), r')"
    "sub_ch sub = [frame_of sp now r]" "lr_state r = state_finished \<longrightarrow> sub_closed sub" by blast
  have "live_ok r" by (rule run_reach_ok [OF assms(7) started_live_ok(1) [OF assms(2,3)]])
  then have att: "lr_state r \<noteq> state_finished \<longrightarrow> map_of (lr_subs r') (sub_id sub) = Some sub"
    using subscribed_attached [OF _ sub(1)] by blast
  have res: "resume_stream sp now runID 0 from h = Some (Inr (sub, ?missed), put_run runID r' h)"
    using sub(1) by (simp add: resume_stream_def subscribe_run_def on_run_found [OF assms(11,12,9)])
  note stream = stream_handler_resumed [OF assms(13) query_offset_fmt [OF assms(14,15)] res]
  have to: "from + int (length ?missed) = ab_next (disk (el_log L))"
    using assms(16,17) by (simp add: hist_of_def ab_next_def)
  have off: "fr_FoldedOffset (frame_of sp now r) = ab_next (disk (el_log L)) - pending_of sp (lr_sim r)"
    using assms(10) spine_laws.next_off [OF laws]
    by (simp add: frame_of_def folded_of_def pending_of_def log_pending_def log_read_def)
  show ?thesis
    using map_of_put_run [OF assms(12), of r'] sub(2,3) att to off
    by (intro exI [of _ sub] exI [of _ "put_run runID r' h"] exI [of _ "catchup_frame runID from ?missed"])
       (simp add: stream catchup_frame_def wire_events_def)
qed

subsection \<open>Streams of the demonstration run\<close>

lemma demo_log:
  obtains v g' r0 L where
    "start_run mem_spine list_chain (ephemeral_logs mem_spine) 0 demo_request demo_registry = Some (Inr v, g')"
    "map_of (g_runs g') (vw_RunID v) = Some r0" "vw_RunID v = ''run-0001''" "\<not> g_closed g'"
    "s_log (lr_sim r0) = Some L" "ab_first (el_log L) = 0" "ab_next (el_log L) = 0"
proof -
  obtain v g' r0 where st:
    "start_run mem_spine list_chain (ephemeral_logs mem_spine) 0 demo_request demo_registry = Some (Inr v, g')"
    "map_of (g_runs g') (vw_RunID v) = Some r0" "vw_RunID v = ''run-0001''" by (rule demo_start)
  let ?q = "fill_defaults demo_registry demo_request"
  obtain runID L0 rc n s0 s where p: "\<not> g_closed demo_registry"
    "claim_log mem_spine (ephemeral_logs mem_spine) (rq_RunID demo_request) (rq_RunID demo_request = '''') demo_registry
       = Some (Inr (runID, L0, rc), n)"
    "new_sim mem_spine list_chain (request_config (?q\<lparr>rq_RunID := runID\<rparr>) (g_metrics demo_registry)) (Some L0) = Inr s0"
    "save_sim mem_spine list_chain (set_state state_running s0) = Some (None, s)"
    "g' = add_run runID (new_live_run (?q\<lparr>rq_RunID := runID\<rparr>) s state_running 0 rc False) (demo_registry\<lparr>g_nextID := n\<rparr>)"
    "v = view_of (new_live_run (?q\<lparr>rq_RunID := runID\<rparr>) s state_running 0 rc False)"
    by (rule start_run_ok [OF st(1)], rule that)
  have "runID = vw_RunID v" by (simp add: p(6) view_of_def new_live_run_def)
  then have r0: "lr_sim r0 = s" using st(2) p(5) by (auto simp: new_live_run_def)
  have "L0 = mem_log"
    using claim_log_opened(1) [OF p(2)]
    by (simp add: open_run_log_def open_history_def mem_ephemeral split: if_splits)
  moreover have "s_log s0 = Some L0"
    using p(3) by (auto simp: new_sim_def split: option.splits sum.splits prod.splits)
  moreover obtain L1 L where L: "s_log (set_state state_running s0) = Some L1" "s_log s = Some L" "same_log mem_spine (\<lambda>l. l) L1 L"
    using mem.save_sim_frame [OF p(4)] by metis
  ultimately have "L1 = mem_log" by (simp add: set_state_def)
  then have "ab_first (el_log L) = 0" "ab_next (el_log L) = 0"
    using L(3) by (simp_all add: same_log_def mem_log_def mem_empty_def ab_next_def)
  moreover have "\<not> g_closed g'" using p(1,5) by (simp add: add_run_def)
  ultimately show ?thesis using that st L(2) r0 by blast
qed

theorem stream_catches_up_witness:
  "\<exists>(h :: mem_registry) sub h' m c.
     stream_handler mem_spine 9 ''run-0001'' ''0'' True (\<lambda>_ :: (int \<times> int) ws_message. True) h = Some (Streaming [Text m] sub, h') \<and>
     pj_Catchup m = Some c \<and> ca_From c = 0 \<and> ca_To c = 0"
proof -
  obtain v g' r0 L where st:
    "start_run mem_spine list_chain (ephemeral_logs mem_spine) 0 demo_request demo_registry = Some (Inr v, g')"
    "map_of (g_runs g') (vw_RunID v) = Some r0" "vw_RunID v = ''run-0001''" "\<not> g_closed g'"
    "s_log (lr_sim r0) = Some L" "ab_first (el_log L) = 0" "ab_next (el_log L) = 0" by (rule demo_log)
  note s = started_live_ok [OF st(1,2)]
  have u: "utf8_ok (vw_RunID v)" using st(3) demo_request_fits(2) by simp
  have z: "(0::int) \<le> 0" "in_int64 0" "ab_first (el_log L) \<le> 0" "0 \<le> ab_next (el_log L)" "vw_RunID v \<noteq> ''''"
    using st(3,6,7) by (simp_all add: in_int64_def)
  have fmt: "fmt_d 0 = ''0''" by (simp add: fmt_d_def) (simp add: dec_nat.simps [of 0] digit_def)
  obtain sub h' m c r' where x:
    "stream_handler mem_spine 9 (vw_RunID v) (fmt_d 0) True (\<lambda>_ :: (int \<times> int) ws_message. True) g' = Some (Streaming [Text m] sub, h')"
    "pj_Catchup m = Some c" "ca_From c = 0" "ca_To c = ab_next (el_log L)"
    using stream_catches_up [OF mem_laws(2) st(1,2) mem_opens_fresh demo_request_fits(1) u run_reach.start s(2,3) st(5,4,2) z(5,1,2,3,4),
      where 't = "int \<times> int", of 9] by blast
  show ?thesis using x(1) unfolding fmt st(3) by (intro exI conjI) (assumption, use x(2-4) st(7) in simp_all)
qed

theorem stream_tells_how_it_ended_witness:
  "\<exists>(r :: mem_run) r' d. finish mem_spine list_chain 1 r = Some r' \<and> d \<in> set (lr_detached r') \<and>
     no_pings (pu_out (pump_loop split_time (\<lambda>_. True) ''run-0001'' (replicate (Suc (length (sub_ch d))) SnapshotArm) (pump_start d)))
       = map (\<lambda>f. Text (snapshot_frame split_time ''run-0001'' f)) (sub_ch d) @ [CloseMessage 1000 ''run finished'']"
proof -
  obtain v g' r0 where st:
    "start_run mem_spine list_chain (ephemeral_logs mem_spine) 0 demo_request demo_registry = Some (Inr v, g')"
    "map_of (g_runs g') (vw_RunID v) = Some r0" "vw_RunID v = ''run-0001''" by (rule demo_start)
  note s = started_live_ok [OF st(1,2)]
  have log: "s_log (lr_sim r0) \<noteq> None" using s(1,3) by (simp add: live_ok_def)
  have nf: "lr_state r0 \<noteq> state_finished" using s(4) by (simp add: state_defs)
  obtain sub r1 where r1: "subscribe_cmd mem_spine 4 0 False 9 r0 = Some (Inr (sub, []), r1)" "lr_state r1 = lr_state r0"
    "lr_failure r1 = lr_failure r0" "s_log (lr_sim r1) = s_log (lr_sim r0)" "lr_subs r1 \<noteq> []"
    using nf by (simp add: subscribe_cmd_def Let_def run_observe_def observe_sim_def)
  obtain r' where r': "finish mem_spine list_chain 1 r1 = Some r'"
    using finish_total [OF mem_laws(2), of r1 list_chain 1] r1 log s(2) by metis
  have nf1: "lr_state r1 \<noteq> state_finished" using nf r1(2) by simp
  note t = stream_tells_how_it_ended [OF r' nf1, where runID = "''run-0001''" and pt = split_time]
  let ?ds = "drop (length (lr_detached r1)) (lr_detached r')"
  have "map sub_id ?ds \<noteq> []" using t r1(5) by (metis map_is_Nil_conv)
  then obtain d where d: "d \<in> set ?ds" by (cases ?ds) auto
  have "d \<in> set (lr_detached r')" using d by (rule in_set_dropD)
  moreover have "no_pings (pu_out (pump_loop split_time (\<lambda>_. True) ''run-0001'' (replicate (Suc (length (sub_ch d))) SnapshotArm) (pump_start d)))
       = map (\<lambda>f. Text (snapshot_frame split_time ''run-0001'' f)) (sub_ch d) @ [CloseMessage 1000 ''run finished'']"
    using t [of "replicate (Suc (length (sub_ch d))) SnapshotArm"] d by simp
  ultimately show ?thesis using r' by blast
qed

theorem stream_refusals_witness:
  "(\<exists>e. stream_handler mem_spine 0 ''nope'' ''7'' True (\<lambda>_ :: (int \<times> int) ws_message. True) demo_registry = Some (Refused 404 e, demo_registry)) \<and>
   (\<exists>e. stream_handler mem_spine 0 ''nope'' ''12abc'' True (\<lambda>_ :: (int \<times> int) ws_message. True) demo_registry = Some (Refused 400 e, demo_registry))"
proof -
  note refusals = stream_refusals [OF mem_laws(1) demo_registry_ok(1) refl, where runID = "''nope''" and now = 0
      and upgraded = True and wr = "\<lambda>_ :: (int \<times> int) ws_message. True"]
  have "atoi ''7'' = Some 7" "atoi ''12abc'' = None"
    by (simp_all add: atoi_def parse_nat_def is_digit_def digit_val_def in_int64_def)
  then have "asks ''7'' (Some 7)" "\<forall>n. \<not> decimal ''12abc'' n" by (simp_all add: asks_def atoi_decimal [symmetric])
  with refusals [of "''7''" "Some 7"] refusals [of "''12abc''"] demo_registry_ok show ?thesis by simp
qed

end
