(* ===== verification/Commands.thy ===== *)
theory Commands
  imports Projection
begin

text \<open>
  The two programs: \<^verbatim>\<open>cmd/signalgarden\<close> (the typed commands of the live mode, \<^verbatim>\<open>-replay\<close>) and
  \<^verbatim>\<open>cmd/signalgardend\<close> (recovery at startup, the corruption policy, the public HTTP routes and the
  cross-origin headers), with the text \<^verbatim>\<open>internal/render\<close> draws. Typed lines and header values are
  ASCII: for such bytes \<^verbatim>\<open>strings.Fields\<close> and \<^verbatim>\<open>strings.ToLower\<close> are what is written here. What a
  program prints is kept as the values it prints.
\<close>

subsection \<open>Typed commands\<close>

definition is_space :: "char \<Rightarrow> bool" where
  "is_space c \<longleftrightarrow> of_char c \<in> {9, 10, 11, 12, 13, 32 :: nat}"

definition lower_char :: "char \<Rightarrow> char" where
  "lower_char c = (if of_char c \<ge> (65 :: nat) \<and> of_char c \<le> (90 :: nat) then char_of (of_char c + 32 :: nat) else c)"

definition to_lower :: "string \<Rightarrow> string" where
  "to_lower s = map lower_char s"

function split_fields :: "string \<Rightarrow> string list" where
  "split_fields s =
     (case dropWhile is_space s of
        [] \<Rightarrow> []
      | c # cs \<Rightarrow> takeWhile (\<lambda>x. \<not> is_space x) (c # cs) # split_fields (dropWhile (\<lambda>x. \<not> is_space x) (c # cs)))"
  by pat_completeness auto

termination split_fields
proof (relation "measure length")
  fix s c cs
  assume a: "dropWhile is_space s = c # cs"
  have "length (dropWhile (\<lambda>x. \<not> is_space x) (c # cs)) < Suc (length cs)"
    using hd_dropWhile [of is_space s] a length_dropWhile_le [of "\<lambda>x. \<not> is_space x" cs] by simp
  also have "Suc (length cs) \<le> length s" using length_dropWhile_le [of is_space s] a by simp
  finally show "(dropWhile (\<lambda>x. \<not> is_space x) (c # cs), s) \<in> measure length" by simp
qed simp

declare split_fields.simps [simp del]

text \<open>What a command printed: nothing, the state of the run, or the revision of a control change.\<close>

datatype said = Silent | SaidState run_state int | SaidRevision int controls int

text \<open>The desired controls after a command, or its error; \<open>None\<close> is a panic, of \<^verbatim>\<open>fields[0]\<close> among others.\<close>

definition set_field :: "string \<Rightarrow> int \<Rightarrow> controls \<Rightarrow> controls" where
  "set_field verb v c =
     (if verb = ''rate'' then c\<lparr>EventsPerTick := v\<rparr>
      else if verb = ''rain'' then c\<lparr>RainWeight := v\<rparr>
      else if verb = ''growth'' then c\<lparr>GrowthWeight := v\<rparr>
      else if verb = ''pest'' then c\<lparr>PestWeight := v\<rparr>
      else c)"

definition apply_command ::
  "('fs, 'l, 'r) spine \<Rightarrow> 'c chain_ops \<Rightarrow> int \<Rightarrow> string \<Rightarrow> controls \<Rightarrow> string \<Rightarrow> ('l, 'r, 'c) registry \<Rightarrow>
   ((go_error + controls \<times> said) \<times> ('l, 'r, 'c) registry) option" where
  "apply_command sp ch now runID desired line g =
     (case split_fields line of
        [] \<Rightarrow> None
      | f # fs \<Rightarrow>
          (let verb = to_lower f in
           if verb \<in> {''pause'', ''resume''} then
             map_option (map_prod (map_sum id (\<lambda>run. (desired, SaidState (vw_State run) (vw_Tick run)))) (\<lambda>g. g))
               (if verb = ''pause'' then pause_run sp ch now runID g else resume_run sp ch now runID g)
           else if verb \<in> {''finish'', ''quit'', ''exit''} then
             map_option (map_prod (map_sum id (\<lambda>_. (desired, Silent))) (\<lambda>g. g)) (finish_run sp ch now runID g)
           else if verb \<in> {''rate'', ''rain'', ''growth'', ''pest''} then
             (case fs of
                [arg] \<Rightarrow>
                  (case atoi arg of
                     None \<Rightarrow> Some (Inl (Errorf [T verb, T '' needs a number, got '', Q arg]), g)
                   | Some v \<Rightarrow>
                       (let nxt = set_field verb v desired in
                        map_option (map_prod (map_sum id (\<lambda>cr. (nxt, SaidRevision (cr_Revision cr) nxt (cr_EffectiveTick cr)))) (\<lambda>g. g))
                          (update_controls now runID nxt g)))
              | _ \<Rightarrow> Some (Inl (Errorf [T verb, T '' needs one number, for example '', Q (verb @ '' 12'')]), g))
           else Some (Inl (Errorf [T ''unknown command '', Q verb,
                                   T ''; try rate, rain, growth, pest, pause, resume, finish'']), g)))"

fun read_commands ::
  "('fs, 'l, 'r) spine \<Rightarrow> 'c chain_ops \<Rightarrow> int \<Rightarrow> string \<Rightarrow> string list \<Rightarrow> controls \<Rightarrow> ('l, 'r, 'c) registry \<Rightarrow>
   ((go_error + said) list \<times> controls \<times> ('l, 'r, 'c) registry) option" where
  "read_commands sp ch now runID [] desired g = Some ([], desired, g)"
| "read_commands sp ch now runID (line # lines) desired g =
     (if list_all is_space line then read_commands sp ch now runID lines desired g
      else case apply_command sp ch now runID desired line g of
        None \<Rightarrow> None
      | Some (Inl err, g) \<Rightarrow>
          map_option (\<lambda>(out, d, g). (Inl err # out, d, g)) (read_commands sp ch now runID lines desired g)
      | Some (Inr (nxt, said), g) \<Rightarrow>
          map_option (\<lambda>(out, d, g). (Inr said # out, d, g)) (read_commands sp ch now runID lines nxt g))"

subsection \<open>Replay\<close>

record replay_report =
  rp_RunID :: string
  rp_History :: string
  rp_Warning :: "(int \<times> int \<times> go_error) option"
  rp_Records :: int
  rp_Committed :: int
  rp_Tick :: int
  rp_Revision :: int
  rp_Stats :: garden_stats
  rp_Received :: int
  rp_Applied :: int
  rp_Duplicates :: int
  rp_Hash :: string
  rp_Chain :: "(string \<times> int) option"

definition run_replay :: "('fs, 'l, 'r) spine \<Rightarrow> string \<Rightarrow> string \<Rightarrow> (go_error + replay_report) option" where
  "run_replay sp dir runID =
     (case open_dir sp dir runID of
        (Inl err, rc) \<Rightarrow> Some (Inl err)
      | (Inr L, rc) \<Rightarrow>
          if log_next sp L = 0
          then Some (Inl (Errorf [T ''run '', T runID, T '' has no records under '', T (run_dir dir runID)]))
          else case rebuild sp L of
            None \<Rightarrow> None
          | Some (Inl err) \<Rightarrow> Some (Inl err)
          | Some (Inr (garden, sn)) \<Rightarrow>
              (case log_committed sp L of
                 (Some err, _) \<Rightarrow> Some (Inl err)
               | (None, committed) \<Rightarrow>
                   Some (Inr \<lparr>rp_RunID = runID, rp_History = run_dir dir runID,
                     rp_Warning = map_option (\<lambda>e. (rc_Discarded rc, rc_Next rc, e)) (rc_Corrupt rc),
                     rp_Records = log_next sp L, rp_Committed = committed, rp_Tick = sn_Tick sn,
                     rp_Revision = sn_Revision sn, rp_Stats = stats garden,
                     rp_Received = Received (sn_Processor sn), rp_Applied = Applied (sn_Processor sn),
                     rp_Duplicates = Duplicates (sn_Processor sn), rp_Hash = hash garden,
                     rp_Chain = (if sn_Chain sn \<noteq> '''' then Some (sn_Chain sn, sn_ChainSteps sn) else None)\<rparr>)))"

subsection \<open>The daemon\<close>

definition parse_corrupt_policy :: "string \<Rightarrow> go_error option \<times> corrupt_policy" where
  "parse_corrupt_policy v =
     (if v = ''refuse'' then (None, RefuseCorrupt)
      else if v = ''continue'' then (None, ContinueCorrupt)
      else (Some (Errorf [T ''SIGNAL_GARDEN_ON_CORRUPT='', Q v, T '' is not refuse or continue'']), RefuseCorrupt))"

definition flag_string :: "(string \<Rightarrow> string) \<Rightarrow> string \<Rightarrow> string \<Rightarrow> string" where
  "flag_string getenv key fallback = (if getenv key \<noteq> '''' then getenv key else fallback)"

text \<open>
  Recovery at startup: the IDs the data directory lists, revived in order. The second result is
  how many runs are reported as already finished.
\<close>

definition recover_data_dir ::
  "('fs, 'l, 'r) spine \<Rightarrow> 'c chain_ops \<Rightarrow> ('l, 'r) log_opener \<Rightarrow> int \<Rightarrow> string \<Rightarrow>
   (go_error \<times> bool) + (string \<times> bool) list \<Rightarrow> ('l, 'r, 'c) registry \<Rightarrow>
   (go_error option \<times> run_view list \<times> int \<times> ('l, 'r, 'c) registry) option" where
  "recover_data_dir sp ch opn now dir entries g =
     (case run_ids dir entries of
        Inl err \<Rightarrow> Some (Some err, [], 0, g)
      | Inr ids \<Rightarrow>
          if ids = [] then Some (None, [], 0, g)
          else case recover sp ch opn now ids g of
            None \<Rightarrow> None
          | Some (revived, err, g) \<Rightarrow>
              (let skipped = int (length ids) - int (length revived)
               in Some (err, revived, if skipped > 0 \<and> err = None then skipped else 0, g)))"

record http_request =
  hq_Method :: string
  hq_Path :: string
  hq_Header :: "string \<Rightarrow> string"

record http_response =
  hs_Code :: int
  hs_Header :: "(string \<times> string) list"
  hs_Body :: string

definition set_header :: "string \<Rightarrow> string \<Rightarrow> http_response \<Rightarrow> http_response" where
  "set_header k v r = r\<lparr>hs_Header := filter (\<lambda>h. fst h \<noteq> k) (hs_Header r) @ [(k, v)]\<rparr>"

definition add_header :: "string \<Rightarrow> string \<Rightarrow> http_response \<Rightarrow> http_response" where
  "add_header k v r = r\<lparr>hs_Header := hs_Header r @ [(k, v)]\<rparr>"

definition allowed_methods :: string where "allowed_methods = ''GET, POST, PATCH, OPTIONS''"
definition allowed_headers :: string where "allowed_headers = ''content-type''"
definition cors_max_age :: string where "cors_max_age = ''600''"

definition with_cors ::
  "(http_request \<Rightarrow> http_response \<Rightarrow> http_response) \<Rightarrow> string \<Rightarrow> http_request \<Rightarrow> http_response \<Rightarrow> http_response" where
  "with_cors nxt origin =
     (if origin = '''' then nxt
      else (\<lambda>r w.
        let allow = (if origin = ''*'' \<and> hq_Header r ''Origin'' \<noteq> '''' then hq_Header r ''Origin'' else origin);
            w = (if allow \<noteq> '''' then add_header ''Vary'' ''Origin'' (set_header ''Access-Control-Allow-Origin'' allow w) else w)
        in if hq_Method r = ''OPTIONS'' \<and> hq_Header r ''Access-Control-Request-Method'' \<noteq> ''''
           then (set_header ''Access-Control-Max-Age'' cors_max_age
                  (set_header ''Access-Control-Allow-Headers'' allowed_headers
                    (set_header ''Access-Control-Allow-Methods'' allowed_methods w)))\<lparr>hs_Code := 204\<rparr>
           else nxt r w))"

definition write_plain :: "int \<Rightarrow> string \<Rightarrow> http_response \<Rightarrow> http_response" where
  "write_plain code body w =
     (set_header ''Content-Type'' ''text/plain; charset=utf-8'' w)\<lparr>hs_Code := code, hs_Body := body @ [char_of (10 :: nat)]\<rparr>"

definition readyz :: "bool \<Rightarrow> http_response \<Rightarrow> http_response" where
  "readyz ready w = (if ready then write_plain 200 ''ready'' w else write_plain 503 ''not ready'' w)"

definition healthz :: "http_response \<Rightarrow> http_response" where
  "healthz w = write_plain 200 ''ok'' w"

subsection \<open>Drawing\<close>

definition stage_glyphs :: "string list" where
  "stage_glyphs = [''.'', '','', ''i'', ''Y'', ''T'', ''W'']"

definition glyph :: "organism \<Rightarrow> string" where
  "glyph o' =
     (if \<not> alive o' then ''x''
      else if Stage o' < 0 \<or> Stage o' \<ge> int (length stage_glyphs) then ''?''
      else stage_glyphs ! nat (Stage o'))"

fun grid_loop :: "nat \<Rightarrow> organism list \<Rightarrow> string" where
  "grid_loop i [] = []"
| "grid_loop i (o' # os) =
     (if i > 0 \<and> i mod 10 = 0 then [char_of (10 :: nat)] else []) @ glyph o' @ '' '' @ grid_loop (i + 1) os"

definition garden_grid :: "organism list \<Rightarrow> string" where
  "garden_grid os = grid_loop 0 os @ [char_of (10 :: nat)]"

definition compact_grid :: "organism list \<Rightarrow> string" where
  "compact_grid os = concat (map glyph os)"

record load_sample =
  ls_Elapsed :: int
  ls_Tick :: int
  ls_Published :: int
  ls_Pending :: int

definition peak_pending :: "load_sample list \<Rightarrow> int" where
  "peak_pending ss = fold (\<lambda>s peak. if ls_Pending s > peak then ls_Pending s else peak) ss 0"

definition processor_stats_from :: "pb_processor_stats option \<Rightarrow> proc_stats" where
  "processor_stats_from m =
     (case m of
        None \<Rightarrow> zero_stats
      | Some p \<Rightarrow>
          \<lparr>Received = pp_Received p, Applied = pp_Applied p, NoEffect = pp_NoEffect p, Duplicates = pp_Duplicates p,
           Rejected = pp_Rejected p, UnknownEntity = pp_UnknownEntity p, ByType = pp_ByType p\<rparr>)"

subsection \<open>What the player asked for\<close>

lemma split_fields_Nil_iff: "split_fields line = [] \<longleftrightarrow> list_all is_space line"
proof -
  have "list_all is_space line \<longleftrightarrow> dropWhile is_space line = []" by (simp add: list_all_iff dropWhile_eq_Nil_conv)
  moreover have "split_fields line = [] \<longleftrightarrow> dropWhile is_space line = []"
    unfolding split_fields.simps [of line] by (rule list.exhaust [of "dropWhile is_space line"]) (simp_all del: dropWhile_eq_Nil_conv)
  ultimately show ?thesis by blast
qed

lemma quiet_next_controls: "quiet s t \<Longrightarrow> next_controls t = next_controls s"
  by (auto simp: quiet_def next_controls_def)

lemma publish_next_controls [simp]: "next_controls (lr_sim (publish sp now r)) = next_controls (lr_sim r)"
proof (rule quiet_next_controls)
  show "quiet (lr_sim r) (lr_sim (publish sp now r))" using publish_spec(1) [of sp undefined r now] by (simp add: same_live_def)
qed

lemma save_next_controls:
  assumes "spine_laws sp disk" "save_sim sp ch s = Some (err, t)"
  shows "next_controls t = next_controls s"
  by (rule spine_laws.save_sim_frame [OF assms]) (simp add: same_run_def next_controls_def)

lemma set_state_next_controls [simp]: "next_controls (set_state st s) = next_controls s"
  by (simp add: set_state_def next_controls_def)

lemma finish_next_controls:
  assumes "spine_laws sp disk" "finish sp ch now r = Some r'"
  shows "next_controls (lr_sim r') = next_controls (lr_sim r)"
proof (cases "lr_state r = state_finished")
  case False
  obtain err s where "save_sim sp ch (set_state state_finished (lr_sim r)) = Some (err, s)" "quiet s (lr_sim r')"
    by (rule finish_spec [OF assms(2) False], rule that)
  then show ?thesis using save_next_controls [OF assms(1)] quiet_next_controls by force
qed (use assms(2) in \<open>simp add: finish_def\<close>)

lemma set_paused_next_controls:
  assumes "spine_laws sp disk" "set_paused_cmd sp ch p now r = Some (x, r')"
  shows "next_controls (lr_sim r') = next_controls (lr_sim r)" "lr_done r' = lr_done r"
proof -
  have "next_controls (lr_sim r') = next_controls (lr_sim r) \<and> lr_done r' = lr_done r"
  proof (cases "lr_state r = state_finished")
    case False
    let ?st = "if p then state_paused else state_running"
    obtain err s where s: "save_sim sp ch (set_state ?st (lr_sim r)) = Some (err, s)"
      "r' = publish sp now ((keep_failure err (r\<lparr>lr_state := ?st, lr_sim := s\<rparr>))\<lparr>lr_updatedAt := now\<rparr>)"
      using assms(2) False by (auto simp: set_paused_cmd_def Let_def split: option.splits)
    then show ?thesis using save_next_controls [OF assms(1) s(1)] by (simp add: keep_failure_def)
  qed (use assms(2) in \<open>auto simp: set_paused_cmd_def\<close>)
  then show "next_controls (lr_sim r') = next_controls (lr_sim r)" "lr_done r' = lr_done r" by simp_all
qed

lemma update_next_controls:
  assumes "update_controls_cmd c now r = Some (x, r')"
  shows "next_controls (lr_sim r') = (case x of Inl _ \<Rightarrow> next_controls (lr_sim r) | Inr _ \<Rightarrow> c)" "lr_done r' = lr_done r"
  using assms
  by (auto simp: update_controls_cmd_def set_controls_def next_controls_def Let_def split: if_splits option.splits)

text \<open>A tick draws under the newest controls and stages none, whether it succeeds or fails.\<close>

lemma stage_changes_controls:
  "stage_changes tick ps p c batch = (p', ctl, cs) \<Longrightarrow> ctl = (if ps = [] then c else snd (last ps))"
  by (induction tick ps p c batch rule: stage_changes.induct) (auto simp: Let_def split: if_splits prod.splits)

lemma fold_loop_controls:
  "s_pending (snd (fold_loop sp ch errs es s)) = s_pending s \<and> s_controls (snd (fold_loop sp ch errs es s)) = s_controls s"
proof (induction es arbitrary: errs s)
  case (Cons e es)
  show ?case
  proof (cases "to_core (sp_validate sp) e")
    case (Inr rec)
    obtain r proc where p: "process (s_proc s) e = (r, proc)" by (cases "process (s_proc s) e")
    show ?thesis using Cons.IH [of _ "s\<lparr>s_proc := proc, s_chain := c\<rparr>" for c] Inr p by (simp add: Let_def)
  qed simp
qed simp

lemma drawn_controls: "s_pending t = [] \<Longrightarrow> s_controls t = ctl \<Longrightarrow> next_controls t = ctl"
  by (simp add: next_controls_def)

lemma end_tick_next_controls:
  assumes "spine_laws sp disk" "end_tick sp ch s = Some (err, t)"
  shows "next_controls t = next_controls s"
proof -
  have "next_controls (s\<lparr>s_tick := s_tick s + 1\<rparr>) = next_controls s" by (simp add: next_controls_def)
  with assms(2) show ?thesis by (auto simp: end_tick_def Let_def dest: save_next_controls [OF assms(1)] split: if_splits)
qed

lemma step_next_controls:
  assumes "spine_laws sp disk" "step_sim sp ch s = Some (err, t)"
  shows "next_controls t = next_controls s"
proof -
  obtain p1 ctl cs where st: "stage_changes (s_tick s) (s_pending s) (s_prod s) (s_controls s) [] = (p1, ctl, cs)"
    by (cases "stage_changes (s_tick s) (s_pending s) (s_prod s) (s_controls s) []")
  have ctl: "ctl = next_controls s" using stage_changes_controls [OF st] by (simp add: next_controls_def)
  obtain x p2 where pt: "producer_tick p1 (s_tick s) ctl = Some (x, p2)"
    using assms(2) st by (cases "producer_tick p1 (s_tick s) ctl") (auto simp: step_sim_def Let_def)
  have "next_controls t = ctl"
  proof (cases x)
    case (Inl e)
    with assms(2) st pt show ?thesis by (auto simp: step_sim_def Let_def intro: drawn_controls)
  next
    case (Inr es)
    obtain L where L: "s_log s = Some L"
      using assms(2) st pt Inr by (cases "s_log s") (auto simp: step_sim_def Let_def)
    note ex = assms(2) [unfolded step_expand [OF st pt [unfolded Inr] L]]
    have fold: "next_controls (snd (fold_sim sp ch todo (staged s ctl p2 bs L2))) = ctl"
      "next_controls (staged s ctl p2 bs L2) = ctl" for todo bs L2
      by (simp_all add: drawn_controls fold_sim_def fold_loop_controls staged_def)
    obtain ae L1 where ap: "log_append sp (tick_batch s cs es) L = (ae, L1)" by (cases "log_append sp (tick_batch s cs es) L")
    show ?thesis
    proof (cases ae)
      case (Some e)
      with ex ap show ?thesis by (auto intro: drawn_controls)
    next
      case None
      obtain ue todo L2 where un: "unprocessed_up_to sp (capacity ctl) L1 = Some (ue, todo, L2)"
        using ex ap None by (cases "unprocessed_up_to sp (capacity ctl) L1") auto
      obtain fe s1 where fo: "fold_sim sp ch todo (staged s ctl p2 (tick_batch s cs es) L2) = (fe, s1)"
        by (cases "fold_sim sp ch todo (staged s ctl p2 (tick_batch s cs es) L2)")
      have "next_controls s1 = ctl" using fold(1) [of todo "tick_batch s cs es" L2] fo by simp
      with ex ap None un fo fold(2) show ?thesis
        by (cases ue; cases fe) (auto dest: end_tick_next_controls [OF assms(1)])
    qed
  qed
  with ctl show ?thesis by simp
qed

lemma tick_run_next_controls:
  assumes "spine_laws sp disk" "tick_run sp ch now r = Some r'"
  shows "next_controls (lr_sim r') = next_controls (lr_sim r)" "lr_done r' = lr_done r"
proof -
  have "next_controls (lr_sim r') = next_controls (lr_sim r)" if adv: "advance sp ch now r = Some r'"
  proof (cases "lr_state r = state_running")
    case True
    obtain err s where st: "step_sim sp ch (lr_sim r) = Some (err, s)"
      using adv True by (auto simp: advance_def Let_def split: option.splits)
    note nc = step_next_controls [OF assms(1) st]
    show ?thesis
    proof (cases err)
      case (Some e)
      with adv True st
      have "finish sp ch now ((run_observe ObserveTick (r\<lparr>lr_updatedAt := now, lr_sim := s\<rparr>))\<lparr>lr_failure := Some e\<rparr>) = Some r'"
        by (simp add: advance_def Let_def)
      from finish_next_controls [OF assms(1) this] nc show ?thesis
        using quiet_next_controls [OF quiet_observe, of ObserveTick s] by simp
    next
      case None
      obtain p where p: "advance sp ch now r
          = (if rq_MaxTicks (lr_req r) > 0 \<and> s_tick s \<ge> rq_MaxTicks (lr_req r) then finish sp ch now p else Some p)"
        "quiet s (lr_sim p)"
        by (rule advance_running [OF True st [unfolded None], of now], rule that)
      with adv nc quiet_next_controls [OF p(2)] finish_next_controls [OF assms(1)]
      show ?thesis by (metis option.inject)
    qed
  qed (use adv in \<open>auto simp: advance_def Let_def\<close>)
  then show "next_controls (lr_sim r') = next_controls (lr_sim r)" "lr_done r' = lr_done r"
    using assms(2) advance_frame [of sp ch now r r'] by (auto simp: tick_run_def split: if_splits)
qed

text \<open>The run of a registry that will use given controls at its next tick.\<close>

definition wants :: "string \<Rightarrow> controls \<Rightarrow> ('l, 'r, 'c) registry \<Rightarrow> bool" where
  "wants runID c g \<longleftrightarrow> distinct (map fst (g_runs g)) \<and> \<not> g_closed g \<and>
     (\<exists>r. map_of (g_runs g) runID = Some r \<and> \<not> lr_done r \<and> next_controls (lr_sim r) = c)"

lemma put_run_keys [simp]: "map fst (g_runs (put_run runID r g)) = map fst (g_runs g)"
  by (simp add: put_run_def) (auto intro: map_cong)

lemma wants_put_run:
  "wants runID c g \<Longrightarrow> \<not> lr_done r \<Longrightarrow> wants runID (next_controls (lr_sim r)) (put_run runID r g)"
proof -
  assume "wants runID c g" "\<not> lr_done r"
  moreover have "g_closed (put_run runID r g) = g_closed g" by (simp add: put_run_def)
  ultimately show "wants runID (next_controls (lr_sim r)) (put_run runID r g)"
    unfolding wants_def put_run_keys by (metis map_of_put_run)
qed

lemma wants_on_run:
  assumes "wants runID c g" "on_run fn runID g = Some (x, g')"
    "\<And>r x r'. fn r = Some (x, r') \<Longrightarrow> lr_done r' = lr_done r \<and> next_controls (lr_sim r') = want x (next_controls (lr_sim r))"
  shows "wants runID (want x c) g'"
proof -
  obtain r where r: "\<not> g_closed g" "map_of (g_runs g) runID = Some r" "\<not> lr_done r" "next_controls (lr_sim r) = c"
    using assms(1) by (auto simp: wants_def)
  then obtain r' where r': "fn r = Some (x, r')" "g' = put_run runID r' g"
    using assms(2) by (auto simp: on_run_found)
  with assms(3) [OF r'(1)] r wants_put_run [OF assms(1), of r'] show ?thesis by simp
qed

lemma wants_tick:
  assumes "spine_laws sp disk" "wants runID c g" "tick_registry sp ch now runID g = Some g'"
  shows "wants runID c g'"
proof -
  obtain r where r: "map_of (g_runs g) runID = Some r" "\<not> lr_done r" "next_controls (lr_sim r) = c"
    using assms(2) by (auto simp: wants_def)
  then obtain r' where r': "tick_run sp ch now r = Some r'" "g' = put_run runID r' g"
    using assms(3) by (auto simp: tick_registry_def)
  with tick_run_next_controls [OF assms(1) r'(1)] r wants_put_run [OF assms(2), of r'] show ?thesis by simp
qed

text \<open>A command that the run refuses leaves it as it was, and so does the registry.\<close>

lemma on_run_refused:
  assumes "wants runID c g" "on_run fn runID g = Some (Inl e, g')" "\<And>r r'. fn r = Some (Inl e, r') \<Longrightarrow> r' = r"
  shows "g' = g"
proof -
  obtain r where r: "distinct (map fst (g_runs g))" "\<not> g_closed g" "map_of (g_runs g) runID = Some r" "\<not> lr_done r"
    using assms(1) by (auto simp: wants_def)
  then obtain r' where "fn r = Some (Inl e, r')" "g' = put_run runID r' g"
    using assms(2) by (auto simp: on_run_found)
  with assms(3) put_run_same [OF r(1,3)] show ?thesis by metis
qed

text \<open>
  What a line asks for, when it is \<^verbatim>\<open>rate\<close>, \<^verbatim>\<open>rain\<close>, \<^verbatim>\<open>growth\<close> or \<^verbatim>\<open>pest\<close> with one number: that one field, and no other.
\<close>

definition typed_change :: "string \<Rightarrow> controls \<Rightarrow> controls" where
  "typed_change line c =
     (case split_fields line of
        [verb, arg] \<Rightarrow>
          (case atoi arg of
             None \<Rightarrow> c
           | Some v \<Rightarrow>
               \<lparr>EventsPerTick = (if to_lower verb = ''rate'' then v else EventsPerTick c),
                RainWeight = (if to_lower verb = ''rain'' then v else RainWeight c),
                GrowthWeight = (if to_lower verb = ''growth'' then v else GrowthWeight c),
                PestWeight = (if to_lower verb = ''pest'' then v else PestWeight c),
                WorkerCount = WorkerCount c, BatchSize = BatchSize c, FailSnapshotEvery = FailSnapshotEvery c\<rparr>)
      | _ \<Rightarrow> c)"

lemma typed_change_other:
  "split_fields line = f # fs \<Longrightarrow> to_lower f \<notin> {''rate'', ''rain'', ''growth'', ''pest''} \<Longrightarrow> typed_change line c = c"
  by (auto simp: typed_change_def split: list.split option.split)

lemma typed_change_set:
  "split_fields line = [verb, arg] \<Longrightarrow> atoi arg = Some v \<Longrightarrow> set_field (to_lower verb) v c = typed_change line c"
  by (simp add: typed_change_def set_field_def)

lemma apply_command_cases:
  assumes "apply_command sp ch now runID desired line g = Some (x, g')"
  obtains
    (paused) p y where "set_paused sp ch now runID p g = Some (y, g')" "typed_change line desired = desired"
      "x = map_sum id (\<lambda>run. (desired, SaidState (vw_State run) (vw_Tick run))) y"
  | (finished) y where "finish_run sp ch now runID g = Some (y, g')" "typed_change line desired = desired"
      "x = map_sum id (\<lambda>_. (desired, Silent)) y"
  | (changed) y where "update_controls now runID (typed_change line desired) g = Some (y, g')"
      "x = map_sum id (\<lambda>cr. (typed_change line desired,
             SaidRevision (cr_Revision cr) (typed_change line desired) (cr_EffectiveTick cr))) y"
  | (refused) e where "x = Inl e" "g' = g"
proof -
  obtain f fs where f: "split_fields line = f # fs" using assms by (auto simp: apply_command_def split: list.splits)
  note unf = assms [unfolded apply_command_def f list.case Let_def]
  consider "to_lower f \<in> {''pause'', ''resume''}" | "to_lower f \<in> {''finish'', ''quit'', ''exit''}"
    | "to_lower f \<in> {''rate'', ''rain'', ''growth'', ''pest''}"
    | "to_lower f \<notin> {''pause'', ''resume''} \<union> {''finish'', ''quit'', ''exit''} \<union> {''rate'', ''rain'', ''growth'', ''pest''}"
    by blast
  then show ?thesis
  proof cases
    case 1
    then have "typed_change line desired = desired" by (intro typed_change_other [OF f]) auto
    with unf [unfolded if_P [OF 1] pause_run_def resume_run_def] show ?thesis
      by (cases "to_lower f = ''pause''") (auto intro: paused)
  next
    case 2
    then have no: "to_lower f \<notin> {''pause'', ''resume''}" by auto
    from 2 have "typed_change line desired = desired" by (intro typed_change_other [OF f]) auto
    with unf [unfolded if_not_P [OF no(1)] if_P [OF 2]] show ?thesis by (auto intro: finished)
  next
    case 3
    then have no: "to_lower f \<notin> {''pause'', ''resume''}" "to_lower f \<notin> {''finish'', ''quit'', ''exit''}" by auto
    note unf = unf [unfolded if_not_P [OF no(1)] if_not_P [OF no(2)] if_P [OF 3]]
    show ?thesis
    proof (cases "\<exists>arg v. fs = [arg] \<and> atoi arg = Some v")
      case True
      then obtain arg v where v: "fs = [arg]" "atoi arg = Some v" by blast
      with unf typed_change_set [OF f [unfolded v(1)] v(2), of desired] show ?thesis by (auto intro: changed)
    next
      case False
      with unf show ?thesis by (auto split: list.splits option.splits intro: refused)
    qed
  next
    case 4
    then have no: "to_lower f \<notin> {''pause'', ''resume''}" "to_lower f \<notin> {''finish'', ''quit'', ''exit''}"
      "to_lower f \<notin> {''rate'', ''rain'', ''growth'', ''pest''}" by blast+
    with unf [unfolded if_not_P [OF no(1)] if_not_P [OF no(2)] if_not_P [OF no(3)]] show ?thesis by (auto intro: refused)
  qed
qed

lemma apply_command_ok:
  assumes "spine_laws sp disk" "wants runID desired g" "apply_command sp ch now runID desired line g = Some (x, g')"
  shows "case x of Inl _ \<Rightarrow> g' = g | Inr (nxt, _) \<Rightarrow> nxt = typed_change line desired \<and> wants runID nxt g'"
  using assms(3)
proof (cases rule: apply_command_cases)
  case (paused p y)
  show ?thesis
  proof (cases y)
    case (Inl e)
    have "g' = g"
      by (rule on_run_refused [OF assms(2) paused(1) [unfolded set_paused_def Inl]])
         (auto simp: set_paused_cmd_def Let_def split: if_splits option.splits)
    with paused Inl show ?thesis by simp
  next
    case (Inr run)
    have "wants runID desired g'"
      by (rule wants_on_run [OF assms(2) paused(1) [unfolded set_paused_def], where want = "\<lambda>_ c. c"])
         (simp add: set_paused_next_controls [OF assms(1)])
    with paused Inr show ?thesis by simp
  qed
next
  case (finished y)
  have w: "wants runID desired g'"
    by (rule wants_on_run [OF assms(2) finished(1) [unfolded finish_run_def], where want = "\<lambda>_ c. c"])
       (auto simp: finish_cmd_def finish_next_controls [OF assms(1)] finish_done split: option.splits)
  have "y = Inl e \<Longrightarrow> g' = g" for e
    by (rule on_run_refused [OF assms(2)], use finished(1) in \<open>simp add: finish_run_def\<close>) auto
  with finished w show ?thesis by (cases y) simp_all
next
  case (changed y)
  let ?c = "typed_change line desired"
  have w: "wants runID (case y of Inl _ \<Rightarrow> desired | Inr _ \<Rightarrow> ?c) g'"
    by (rule wants_on_run [OF assms(2) changed(1) [unfolded update_controls_def],
          where want = "\<lambda>y d. case y of Inl _ \<Rightarrow> d | Inr _ \<Rightarrow> ?c"])
       (simp add: update_next_controls)
  have "y = Inl e \<Longrightarrow> g' = g" for e
    by (rule on_run_refused [OF assms(2)], use changed(1) in \<open>simp add: update_controls_def\<close>)
       (auto simp: update_controls_cmd_def set_controls_def Let_def split: if_splits option.splits)
  with changed w show ?thesis by (cases y) simp_all
qed simp

text \<open>
  The controls typed so far: every line that was accepted makes its change, in the order typed, and
  a refused line makes none.
\<close>

definition typed_lines :: "string list \<Rightarrow> string list" where
  "typed_lines lines = filter (\<lambda>l. \<not> list_all is_space l) lines"

definition accepted :: "string list \<Rightarrow> (go_error + said) list \<Rightarrow> controls \<Rightarrow> controls" where
  "accepted lines out c = fold (\<lambda>(line, x). case x of Inl _ \<Rightarrow> id | Inr _ \<Rightarrow> typed_change line) (zip lines out) c"

lemma accepted_simps [simp]:
  "accepted [] out c = c"
  "accepted (line # lines) (Inl e # out) c = accepted lines out c"
  "accepted (line # lines) (Inr s # out) c = accepted lines out (typed_change line c)"
  by (simp_all add: accepted_def)

lemma accepted_append:
  "length lines = length out \<Longrightarrow> accepted (lines @ lines') (out @ out') c = accepted lines' out' (accepted lines out c)"
  by (simp add: accepted_def)

lemma read_commands_ok:
  assumes "spine_laws sp disk" "wants runID desired g"
    "read_commands sp ch now runID lines desired g = Some (out, desired', g')"
  shows "wants runID desired' g' \<and> length (typed_lines lines) = length out \<and>
    desired' = accepted (typed_lines lines) out desired"
  using assms(2,3)
proof (induction lines arbitrary: desired g out desired' g')
  case (Cons line lines)
  show ?case
  proof (cases "list_all is_space line")
    case True
    with Cons show ?thesis by (simp add: typed_lines_def)
  next
    case False
    then have l: "typed_lines (line # lines) = line # typed_lines lines" by (simp add: typed_lines_def)
    obtain x h where c: "apply_command sp ch now runID desired line g = Some (x, h)"
      using Cons.prems(2) False by (auto split: option.splits)
    note ok = apply_command_ok [OF assms(1) Cons.prems(1) c]
    show ?thesis
    proof (cases x)
      case (Inl e)
      with False c Cons.prems ok Cons.IH [of desired h] show ?thesis by (auto simp: l)
    next
      case (Inr y)
      with False c Cons.prems ok Cons.IH [of "fst y" h] show ?thesis by (cases y) (auto simp: l)
    qed
  qed
qed (simp add: typed_lines_def)

text \<open>A session: the reader takes some lines, the clock ticks the run, and so on, in any order.\<close>

datatype session_move = Types int "string list" | Ticks int

fun session ::
  "('fs, 'l, 'r) spine \<Rightarrow> 'c chain_ops \<Rightarrow> string \<Rightarrow> session_move list \<Rightarrow> controls \<Rightarrow> ('l, 'r, 'c) registry \<Rightarrow>
   ((go_error + said) list \<times> controls \<times> ('l, 'r, 'c) registry) option" where
  "session sp ch runID [] desired g = Some ([], desired, g)"
| "session sp ch runID (Types now lines # moves) desired g =
     (case read_commands sp ch now runID lines desired g of
        None \<Rightarrow> None
      | Some (out, d, h) \<Rightarrow> map_option (\<lambda>(out', d, g). (out @ out', d, g)) (session sp ch runID moves d h))"
| "session sp ch runID (Ticks now # moves) desired g =
     (case tick_registry sp ch now runID g of None \<Rightarrow> None | Some h \<Rightarrow> session sp ch runID moves desired h)"

fun session_lines :: "session_move list \<Rightarrow> string list" where
  "session_lines [] = []"
| "session_lines (Types now lines # moves) = typed_lines lines @ session_lines moves"
| "session_lines (Ticks now # moves) = session_lines moves"

text \<open>
  C39. What the player types is what the run does next. Through any session of typed lines with
  ticks of the run in between: the controls the reader holds as desired are the ones the run applies
  at its next tick; they are the initial ones with the change of every accepted line made in order,
  where \<^verbatim>\<open>rate\<close>, \<^verbatim>\<open>rain\<close>, \<^verbatim>\<open>growth\<close> and \<^verbatim>\<open>pest\<close> set exactly their own field; and every line is
  answered. A line that is refused, for whatever reason, leaves both the desired controls and the
  whole registry as they were.
\<close>

theorem typed_controls_in_step:
  assumes "spine_laws sp disk" "wants runID desired g" "session sp ch runID moves desired g = Some (out, desired', g')"
  shows "wants runID desired' g' \<and> length (session_lines moves) = length out \<and>
    desired' = accepted (session_lines moves) out desired \<and>
    (\<forall>now line e d h. read_commands sp ch now runID [line] desired' g' = Some ([Inl e], d, h) \<longrightarrow> d = desired' \<and> h = g')"
proof -
  have ok: "wants runID desired' g' \<and> length (session_lines moves) = length out \<and>
      desired' = accepted (session_lines moves) out desired"
    using assms(2,3)
  proof (induction moves arbitrary: desired g out)
    case (Cons move moves)
    show ?case
    proof (cases move)
      case (Types now lines)
      obtain o1 d h o2 where r: "read_commands sp ch now runID lines desired g = Some (o1, d, h)"
        "session sp ch runID moves d h = Some (o2, desired', g')" "out = o1 @ o2"
        using Cons.prems(2) Types by (auto split: option.splits)
      note l = read_commands_ok [OF assms(1) Cons.prems(1) r(1)]
      from Cons.IH [OF conjunct1 [OF l] r(2)] l Types r(3) show ?thesis using accepted_append by auto
    next
      case (Ticks now)
      then obtain h where h: "tick_registry sp ch now runID g = Some h" "session sp ch runID moves desired h = Some (out, desired', g')"
        using Cons.prems(2) by (auto split: option.splits)
      from Cons.IH [OF wants_tick [OF assms(1) Cons.prems(1) h(1)] h(2)] Ticks show ?thesis by auto
    qed
  qed simp
  have "d = desired' \<and> h = g'" if "read_commands sp ch now runID [line] desired' g' = Some ([Inl e], d, h)" for now line e d h
  proof -
    have "apply_command sp ch now runID desired' line g' = Some (Inl e, h)" "d = desired'"
      using that by (auto split: if_splits option.splits sum.splits prod.splits)
    with apply_command_ok [OF assms(1) conjunct1 [OF ok]] show ?thesis by fastforce
  qed
  with ok show ?thesis by blast
qed

text \<open>The demonstration run after its first tick, and the lines of the demonstration.\<close>

lemma demo_ticked:
  obtains g :: mem_registry and r0 p where "wants ''run-0001'' default_controls g" "\<not> g_closed g"
    "map_of (g_runs g) ''run-0001'' = Some r0" "tick_run mem_spine list_chain 1 r0 = Some p" "s_tick (lr_sim p) = 1"
    "lr_state p = state_running" "\<not> lr_done p"
proof -
  obtain v g r0 L where st:
    "start_run mem_spine list_chain (ephemeral_logs mem_spine) 0 demo_request demo_registry = Some (Inr v, g)"
    "map_of (g_runs g) (vw_RunID v) = Some r0" "vw_RunID v = ''run-0001''" "\<not> g_closed g" by (rule demo_log)
  note s = started_live_ok [OF st(1,2)]
  have u: "utf8_ok (vw_RunID v)" using st(3) demo_request_fits(2) by simp
  obtain cfg s0 L0 where z: "new_sim mem_spine list_chain cfg (Some L0) = Inr s0" "config_fits cfg" "fresh_log mem_spine (\<lambda>l. l) L0"
    "sim_reach mem_spine list_chain s0 (lr_sim r0)" "rq_MaxTicks (lr_req r0) = rq_MaxTicks demo_request"
    "save_sim mem_spine list_chain (set_state state_running s0) = Some (None, lr_sim r0)" "c_Controls cfg = default_controls"
    by (rule started_sim [OF st(1,2) mem_opens_fresh demo_request_fits(1) u], rule that) (simp_all add: demo_request_def)
  have inv: "run_inv mem_spine (\<lambda>l. l) cfg (s_proc s0) (lr_sim r0)"
    by (rule mem.reach_inv [OF z(4) mem.start_inv [OF z(1-3)]])
  have "same_run (set_state state_running s0) (lr_sim r0)" using mem.save_sim_frame [OF z(6)] by metis
  then have z0: "s_tick (lr_sim r0) = 0" "room (lr_sim r0)"
    using new_sim_run_ok [OF z(1,2)] by (simp_all add: same_run_def set_state_def room_def max_events_per_tick_def)
  have "next_controls s0 = default_controls"
    using z(1,7) by (auto simp: new_sim_def next_controls_def split: option.splits sum.splits prod.splits)
  then have nc: "next_controls (lr_sim r0) = default_controls" using save_next_controls [OF mem_laws(1) z(6)] by simp
  have "distinct (map fst (g_runs g))"
    using start_run_reg_ok [OF st(1) demo_registry_ok(1)] by (simp add: reg_ok_def demo_registry_def new_registry_def)
  then have w: "wants ''run-0001'' default_controls g" using st s(3) nc by (auto simp: wants_def)
  obtain p where p: "tick_run mem_spine list_chain 1 r0 = Some p" "s_tick (lr_sim p) = 1" "lr_state p = state_running" "\<not> lr_done p"
    by (rule tick_running [OF mem_laws(2) mem_validates inv z0(2) s(4,5,3,2), where ch = list_chain and now = 1])
       (use z(5) z0(1) that in \<open>simp add: demo_request_def\<close>)
  from that [OF w st(4) st(2) [unfolded st(3)] p] show ?thesis .
qed

lemma demo_lines:
  "split_fields ''RAIN 9'' = [''RAIN'', ''9'']" "split_fields ''rain x'' = [''rain'', ''x'']" "split_fields ''huh'' = [''huh'']"
  "to_lower ''RAIN'' = ''rain''" "to_lower ''rain'' = ''rain''" "to_lower ''huh'' = ''huh''"
  "atoi ''9'' = Some 9" "atoi ''x'' = None"
  "list_all is_space ''  ''" "\<not> list_all is_space ''RAIN 9''" "\<not> list_all is_space ''rain x''" "\<not> list_all is_space ''huh''"
  by (simp_all add: split_fields.simps is_space_def to_lower_def lower_char_def char_of_eq_iff atoi_def parse_nat_def
      is_digit_def digit_val_def in_int64_def)

theorem typed_controls_in_step_witness:
  "\<exists>(g :: mem_registry) g' out r. wants ''run-0001'' default_controls g \<and>
     session mem_spine list_chain ''run-0001'' [Types 0 [''huh''], Ticks 1, Types 2 [''RAIN 9'', ''  '', ''rain x'']] default_controls g
       = Some (out, default_controls\<lparr>RainWeight := 9\<rparr>, g') \<and>
     wants ''run-0001'' (default_controls\<lparr>RainWeight := 9\<rparr>) g' \<and> length out = 3 \<and>
     map_of (g_runs g') ''run-0001'' = Some r \<and> s_tick (lr_sim r) = 1"
proof -
  obtain g :: mem_registry and r0 p where w: "wants ''run-0001'' default_controls g"
    and st: "\<not> g_closed g" "map_of (g_runs g) ''run-0001'' = Some r0"
    and p: "tick_run mem_spine list_chain 1 r0 = Some p" "s_tick (lr_sim p) = 1" "lr_state p = state_running" "\<not> lr_done p"
    by (rule demo_ticked)
  let ?c = "default_controls\<lparr>RainWeight := 9\<rparr>" and ?g1 = "put_run ''run-0001'' p g"
  have ok: "validate_controls ?c = None"
    by (simp add: validate_controls_None_iff controls_ok_def default_controls_def max_events_per_tick_def max_worker_count_def
        max_batch_size_def total_weight_def in_int64_def)
  obtain y r1 where y: "update_controls_cmd ?c 2 p = Some (Inr y, r1)" "s_tick (lr_sim r1) = 1"
    using p(2,3) ok by (auto simp: update_controls_cmd_def set_controls_def state_defs Let_def)
  let ?g2 = "put_run ''run-0001'' r1 ?g1"
  have huh: "\<exists>e. apply_command mem_spine list_chain 0 ''run-0001'' default_controls ''huh'' g = Some (Inl e, g)"
    by (simp add: apply_command_def demo_lines Let_def)
  have tick: "tick_registry mem_spine list_chain 1 ''run-0001'' g = Some ?g1" using p(1) st(2) by (simp add: tick_registry_def)
  have g1: "\<not> g_closed ?g1" "map_of (g_runs ?g1) ''run-0001'' = Some p" using st map_of_put_run by (simp_all add: put_run_def)
  have rain: "apply_command mem_spine list_chain 2 ''run-0001'' default_controls ''RAIN 9'' ?g1 =
      Some (Inr (?c, SaidRevision (cr_Revision y) ?c (cr_EffectiveTick y)), ?g2)"
    using y(1) by (simp add: apply_command_def demo_lines Let_def set_field_def update_controls_def on_run_found [OF g1 p(4)])
  have bad: "\<exists>e. apply_command mem_spine list_chain 2 ''run-0001'' ?c ''rain x'' ?g2 = Some (Inl e, ?g2)"
    by (simp add: apply_command_def demo_lines Let_def)
  have first: "\<exists>e. read_commands mem_spine list_chain 0 ''run-0001'' [''huh''] default_controls g = Some ([Inl e], default_controls, g)"
    using huh demo_lines(9-12) by auto
  have second: "\<exists>o2. read_commands mem_spine list_chain 2 ''run-0001'' [''RAIN 9'', ''  '', ''rain x''] default_controls ?g1 = Some (o2, ?c, ?g2)"
    using rain bad demo_lines(9-12) by auto
  obtain out where out: "session mem_spine list_chain ''run-0001'' [Types 0 [''huh''], Ticks 1, Types 2 [''RAIN 9'', ''  '', ''rain x'']]
      default_controls g = Some (out, ?c, ?g2)"
    using first second tick by (auto simp del: read_commands.simps)
  note t = typed_controls_in_step [OF mem_laws(1) w out]
  have "length out = 3" using t demo_lines(9-12) by (simp add: typed_lines_def)
  moreover have "map_of (g_runs ?g2) ''run-0001'' = Some r1" by (rule map_of_put_run [OF g1(2)])
  ultimately show ?thesis using w out t y(2) by (intro exI [of _ g] exI [of _ ?g2] exI [of _ out] exI [of _ r1]) blast
qed

subsection \<open>What is drawn and reported\<close>

lemma glyph_single: "organism_ok p \<Longrightarrow> length (glyph p) = 1 \<and> glyph p \<noteq> ''?''"
proof -
  assume ok: "organism_ok p"
  then have "0 \<le> Stage p" "Stage p \<le> 5" by (simp_all add: organism_ok_def rule_constants)
  then have "Stage p \<in> {0, 1, 2, 3, 4, 5}" by auto
  then show ?thesis by (auto simp: glyph_def stage_glyphs_def)
qed

lemma compact_grid_length: "list_all organism_ok os \<Longrightarrow> length (compact_grid os) = length os"
  by (induction os) (simp_all add: compact_grid_def glyph_single)

lemma peak_pending_bound: "ls_Pending s \<le> peak_pending (ss @ s # ts)" "0 \<le> peak_pending ss"
proof -
  have mono: "p \<le> fold (\<lambda>s peak. if ls_Pending s > peak then ls_Pending s else peak) ss p" for p ss
  proof (induction ss arbitrary: p)
    case (Cons a ss)
    show ?case using Cons.IH [of "ls_Pending a"] Cons.IH [of p] by simp
  qed simp
  show "0 \<le> peak_pending ss" using mono by (simp add: peak_pending_def)
  show "ls_Pending s \<le> peak_pending (ss @ s # ts)"
    using mono [of _ ts] by (simp add: peak_pending_def) (meson linorder_not_less order_trans)
qed

lemma processor_stats_wire: "processor_stats_from (Some (wire_processor_stats p)) = p"
  by (simp add: processor_stats_from_def wire_processor_stats_def)

lemma policy_roundtrip: "parse_corrupt_policy (policy_string p) = (None, p)"
  by (cases p) (simp_all add: parse_corrupt_policy_def policy_string_def)

lemma preflight_stops:
  assumes "origin \<noteq> ''''" "hq_Method r = ''OPTIONS''" "hq_Header r ''Access-Control-Request-Method'' \<noteq> ''''"
  shows "hs_Code (with_cors nxt origin r w) = 204" "with_cors nxt origin r w = with_cors nxt' origin r w"
  using assms by (simp_all add: with_cors_def Let_def)

end
