(* ===== verification/Load.thy ===== *)
theory Load
  imports Commands
begin

text \<open>
  \<^verbatim>\<open>cmd/signalgarden/load.go\<close>: the load burst against a daemon's gRPC surface. The daemon is the
  answers it gives (\<open>dial\<close>, \<open>start\<close>, the telemetry of each poll, \<open>fin\<close>); the \<^verbatim>\<open>select\<close> of the poll loop is the
  sequence of arms that were chosen, of which the last ends it. And the manual clock of
  \<^verbatim>\<open>internal/engine/clock.go\<close>, which decides when runs tick.
\<close>

subsection \<open>The burst\<close>

record load_config =
  lc_Daemon :: string
  lc_RunID :: string
  lc_Seed :: int
  lc_Organisms :: int
  lc_Controls :: controls
  lc_TickInterval :: int
  lc_DuplicateEvery :: int
  lc_Duration :: int
  lc_Poll :: int

record ('d, 't) load_result =
  ld_RunID :: string
  ld_Daemon :: string
  ld_Requested :: int
  ld_Elapsed :: int
  ld_Controls :: controls
  ld_Samples :: "load_sample list"
  ld_Summary :: "('d, 't) pb_run_summary option"

text \<open>An arm of the poll loop; a tick of the poll ticker carries its time and the daemon's answer.\<close>

datatype ('d, 't) load_arm = Deadline | Cancelled | Polled int "grpc_status + ('d, 't) pb_telemetry"

fun poll_loop :: "('d, 't) load_arm list \<Rightarrow> load_sample list" where
  "poll_loop [] = []"
| "poll_loop (Deadline # arms) = []"
| "poll_loop (Cancelled # arms) = []"
| "poll_loop (Polled elapsed (Inl err) # arms) = []"
| "poll_loop (Polled elapsed (Inr t) # arms) =
     \<lparr>ls_Elapsed = elapsed, ls_Tick = pm_Tick t, ls_Published = pm_Published t, ls_Pending = pm_Pending t\<rparr> # poll_loop arms"

definition load_request :: "('d, 't) pb_time \<Rightarrow> load_config \<Rightarrow> 'd pb_start_request" where
  "load_request pt cfg =
     \<lparr>ps_RunId = lc_RunID cfg, ps_Seed = lc_Seed cfg, ps_Organisms = go_int32 (lc_Organisms cfg),
      ps_Controls = Some
        \<lparr>pc_EventsPerTick = go_int32 (EventsPerTick (lc_Controls cfg)), pc_RainWeight = go_int32 (RainWeight (lc_Controls cfg)),
         pc_GrowthWeight = go_int32 (GrowthWeight (lc_Controls cfg)), pc_PestWeight = go_int32 (PestWeight (lc_Controls cfg)),
         pc_WorkerCount = go_int32 (WorkerCount (lc_Controls cfg)), pc_BatchSize = go_int32 (BatchSize (lc_Controls cfg)),
         pc_FailSnapshotEvery = 0\<rparr>,
      ps_TickInterval = Some (duration_new pt (lc_TickInterval cfg)), ps_MaxTicks = 0,
      ps_DuplicateEvery = go_int32 (lc_DuplicateEvery cfg)\<rparr>"

definition status_error :: "grpc_status \<Rightarrow> go_error" where
  "status_error st = (case st of Status c e \<Rightarrow> e)"

definition run_load ::
  "('d, 't) pb_time \<Rightarrow> go_error option \<Rightarrow> ('d pb_start_request \<Rightarrow> grpc_status + ('d, 't) pb_run) \<Rightarrow> ('d, 't) load_arm list \<Rightarrow>
   (string \<Rightarrow> grpc_status + ('d, 't) pb_run_summary) \<Rightarrow> int \<Rightarrow> load_config \<Rightarrow> go_error + ('d, 't) load_result" where
  "run_load pt dial start arms fin elapsed cfg =
     (if dial \<noteq> None then Inl (Errorf [T ''dial '', T (lc_Daemon cfg), T '': '', W (the dial)])
      else case start (load_request pt cfg) of
        Inl st \<Rightarrow>
          if status_code st = Unavailable
          then Inl (Errorf [T ''is a daemon running at '', T (lc_Daemon cfg), T ''? try `task serve` or `task up`: '',
                            W (status_error st)])
          else Inl (Errorf [T ''start run: '', W (status_error st)])
      | Inr run \<Rightarrow>
          (case fin (pr_RunId run) of
             Inl st \<Rightarrow> Inl (Errorf [T ''finish '', T (pr_RunId run), T '': '', W (status_error st)])
           | Inr summary \<Rightarrow>
               Inr \<lparr>ld_RunID = pr_RunId run, ld_Daemon = lc_Daemon cfg, ld_Requested = lc_Duration cfg, ld_Elapsed = elapsed,
                    ld_Controls = lc_Controls cfg, ld_Samples = poll_loop arms, ld_Summary = Some summary\<rparr>))"

text \<open>The request is well typed whatever the flags were, and asks for what the flags say when they fit.\<close>

lemma load_request_ok: "in_int64 (lc_Seed cfg) \<Longrightarrow> pb_request_ok (load_request pt cfg)"
  by (simp add: pb_request_ok_def load_request_def pb_controls_ok_def go_int32_range in_int64_def) (simp add: in_int32_def)

lemma load_request_controls:
  assumes "controls_fit32 (lc_Controls cfg)" "FailSnapshotEvery (lc_Controls cfg) = 0"
  shows "wire_controls_from (ps_Controls (load_request pt cfg)) = lc_Controls cfg"
  using assms by (cases "lc_Controls cfg") (simp add: load_request_def wire_controls_from_def controls_fit32_def)

text \<open>A burst that started always asks the daemon to finish its run, under the ID the daemon gave it.\<close>

lemma run_load_finishes:
  assumes "run_load pt dial start arms fin elapsed cfg = Inr res"
  shows "fin (ld_RunID res) = Inr (the (ld_Summary res))" "ld_Samples res = poll_loop arms"
  using assms by (auto simp: run_load_def split: sum.splits if_splits)

lemma poll_loop_peak:
  assumes "s \<in> set (poll_loop arms)"
  shows "ls_Pending s \<le> peak_pending (poll_loop arms)"
proof -
  obtain ss ts where "poll_loop arms = ss @ s # ts" using split_list [OF assms] by blast
  then show ?thesis using peak_pending_bound(1) [of s ss ts] by simp
qed

subsection \<open>The manual clock\<close>

text \<open>A ticker is whether it was stopped; a firing is the time sent and the ticker it went to.\<close>

record manual_clock =
  mc_now :: int
  mc_step :: int
  mc_tickers :: "bool list"

definition new_manual_clock :: "int \<Rightarrow> int \<Rightarrow> manual_clock" where
  "new_manual_clock start step = \<lparr>mc_now = start, mc_step = step, mc_tickers = []\<rparr>"

definition new_ticker :: "manual_clock \<Rightarrow> nat \<times> manual_clock" where
  "new_ticker m = (length (mc_tickers m), m\<lparr>mc_tickers := mc_tickers m @ [False]\<rparr>)"

definition stop_manual_ticker :: "nat \<Rightarrow> manual_clock \<Rightarrow> manual_clock" where
  "stop_manual_ticker i m = (if i < length (mc_tickers m) then m\<lparr>mc_tickers := (mc_tickers m)[i := True]\<rparr> else m)"

text \<open>
  \<^verbatim>\<open>Tick\<close>: \<open>deliver now i\<close> is what the owner of ticker \<open>i\<close> does with the tick, which may stop tickers
  and change the world \<open>'s\<close>. A stopped ticker is passed over. The tickers fired are those there were
  when the step began.
\<close>

fun fire_loop :: "(int \<Rightarrow> nat \<Rightarrow> manual_clock \<times> 's \<Rightarrow> manual_clock \<times> 's) \<Rightarrow> int \<Rightarrow> nat list \<Rightarrow> manual_clock \<times> 's \<Rightarrow> manual_clock \<times> 's" where
  "fire_loop deliver now [] ms = ms"
| "fire_loop deliver now (i # is) ms =
     fire_loop deliver now is (if mc_tickers (fst ms) ! i then ms else deliver now i ms)"

fun manual_tick :: "(int \<Rightarrow> nat \<Rightarrow> manual_clock \<times> 's \<Rightarrow> manual_clock \<times> 's) \<Rightarrow> nat \<Rightarrow> manual_clock \<times> 's \<Rightarrow> manual_clock \<times> 's" where
  "manual_tick deliver 0 ms = ms"
| "manual_tick deliver (Suc n) (m, s) =
     (let m = m\<lparr>mc_now := mc_now m + mc_step m\<rparr>
      in manual_tick deliver n (fire_loop deliver (mc_now m) [0..<length (mc_tickers m)] (m, s)))"

lemma fire_loop_keeps:
  assumes "\<And>now i ms. P ms \<Longrightarrow> P (deliver now i ms)" "P ms"
  shows "P (fire_loop deliver now is ms)"
  using assms(2)
proof (induction "is" arbitrary: ms)
  case (Cons i "is")
  have "P (if mc_tickers (fst ms) ! i then ms else deliver now i ms)" using Cons.prems assms(1) by simp
  from Cons.IH [OF this] show ?case by simp
qed simp

text \<open>Whatever the owners do, the clock has advanced by the number of ticks when \<^verbatim>\<open>Tick\<close> returns.\<close>

lemma manual_tick_now:
  assumes "\<And>now i ms. mc_now (fst (deliver now i ms)) = mc_now (fst ms) \<and> mc_step (fst (deliver now i ms)) = mc_step (fst ms)"
  shows "mc_now (fst (manual_tick deliver n ms)) = mc_now (fst ms) + int n * mc_step (fst ms) \<and>
    mc_step (fst (manual_tick deliver n ms)) = mc_step (fst ms)"
proof (induction n arbitrary: ms)
  case (Suc n)
  obtain m s where ms: "ms = (m, s)" by (cases ms)
  let ?m = "m\<lparr>mc_now := mc_now m + mc_step m\<rparr>"
  let ?f = "fire_loop deliver (mc_now ?m) [0..<length (mc_tickers ?m)] (?m, s)"
  have "mc_now (fst ?f) = mc_now ?m \<and> mc_step (fst ?f) = mc_step ?m"
    by (rule fire_loop_keeps [where P = "\<lambda>x. mc_now (fst x) = mc_now ?m \<and> mc_step (fst x) = mc_step ?m"]) (simp_all add: assms)
  with Suc.IH [of ?f] show ?case by (simp add: ms Let_def algebra_simps)
qed simp

text \<open>When every ticker is stopped, ticks reach nobody: a finished run cannot be woken by the clock.\<close>

lemma fire_loop_stopped:
  assumes "list_all (\<lambda>i. mc_tickers (fst ms) ! i) is"
  shows "fire_loop deliver now is ms = ms"
  using assms by (induction "is") auto

lemma manual_tick_stopped:
  assumes "list_all (\<lambda>b. b) (mc_tickers m)"
  shows "manual_tick deliver n (m, s) = (m\<lparr>mc_now := mc_now m + int n * mc_step m\<rparr>, s)"
  using assms
proof (induction n arbitrary: m)
  case (Suc n)
  have "list_all (\<lambda>i. mc_tickers m ! i) [0..<length (mc_tickers m)]" using Suc.prems by (simp add: list_all_length)
  with Suc show ?case by (simp add: Let_def fire_loop_stopped algebra_simps)
qed simp

end
