(* ===== verification/Float_Text.thy ===== *)
theory Float_Text
  imports Garden Go_Text
begin

text \<open>
  How a \<^verbatim>\<open>float64\<close> is printed with \<^verbatim>\<open>%.Nf\<close>, and how far what is printed can be from the quotient
  it stands for: the rounding of the division and the rounding to the last printed digit.
\<close>

definition fmt_fixed :: "nat \<Rightarrow> rat \<Rightarrow> string" where
  "fmt_fixed p x =
     (let d = nat (round_half_even (\<bar>x\<bar> * 10 ^ p))
      in (if x < 0 then ''-'' else '''') @ dec_nat (d div 10 ^ p) @ ''.'' @ zero_pad p (dec_nat (d mod 10 ^ p)))"

subsection \<open>Rounding\<close>

lemma round_half_even_close: "\<bar>of_int (round_half_even q) - q\<bar> \<le> 1 / 2"
proof -
  have "0 \<le> q - of_int \<lfloor>q\<rfloor>" "q - of_int \<lfloor>q\<rfloor> < 1" by linarith+
  then show ?thesis unfolding round_half_even_def Let_def abs_le_iff by (simp split: if_split; linarith)
qed

lemma round_half_even_int [simp]: "round_half_even (of_int k) = k"
  by (simp add: round_half_even_def)

lemma round_half_even_nonneg: "0 \<le> q \<Longrightarrow> 0 \<le> round_half_even q"
  by (auto simp: round_half_even_def Let_def)

lemma pow2_powi: "(if 0 \<le> e then 2 ^ nat e else 1 / 2 ^ nat (- e)) = (2 :: rat) powi e"
  by (simp add: power_int_def field_simps)

lemma f64_exp_bounds:
  assumes "0 < q"
  shows "2 powi (f64_exp q + 52) \<le> q"
proof -
  obtain a b where ab: "quotient_of q = (a, b)" by (cases "quotient_of q")
  have b: "0 < b" using quotient_of_denom_pos [OF ab] .
  have q: "q = of_int a / of_int b" by (rule quotient_of_div [OF ab])
  have a: "0 < a" using assms b unfolding q by (simp add: zero_less_divide_iff)
  have la: "1 \<le> bitlen a" using a bitlen_eq_zero_iff [of a] bitlen_nonneg [of a] by linarith
  have "(2 :: int) ^ nat (bitlen a - 1) \<le> a" using bitlen_bounds [OF a] by blast
  then have "(2 :: rat) ^ nat (bitlen a - 1) \<le> of_int a" by (metis of_int_le_iff of_int_numeral of_int_power)
  then have A: "(2 :: rat) powi (bitlen a - 1) \<le> of_int a" using la by (simp add: power_int_def)
  have "b < (2 :: int) ^ nat (bitlen b)" using bitlen_bounds [OF b] by blast
  then have "of_int b < (2 :: rat) ^ nat (bitlen b)" by (metis of_int_less_iff of_int_numeral of_int_power)
  then have B: "of_int b \<le> (2 :: rat) powi (bitlen b)" using bitlen_nonneg [of b] by (simp add: power_int_def)
  have "(2 :: rat) powi (bitlen a - bitlen b - 1) = 2 powi (bitlen a - 1) / 2 powi (bitlen b)"
    by (subst power_int_diff [symmetric]) (simp_all add: algebra_simps)
  also have "\<dots> \<le> of_int a / of_int b" using A B a b by (intro frac_le) simp_all
  finally have "(2 :: rat) powi (bitlen a - bitlen b - 1) \<le> q" unfolding q .
  then show ?thesis
    unfolding f64_exp_def ab Let_def prod.case pow2_powi by (auto simp: algebra_simps)
qed

lemma f64_round_close:
  assumes "0 \<le> q"
  shows "\<bar>f64_round q - q\<bar> \<le> q / 2 ^ 53"
proof (cases "q = 0")
  case False
  then have q: "0 < q" using assms by simp
  let ?u = "(2 :: rat) powi (f64_exp q)"
  have r: "f64_round q = of_int (round_half_even (q / ?u)) * ?u"
    using q unfolding f64_round_def Let_def pow2_powi by simp
  have "f64_round q - q = (of_int (round_half_even (q / ?u)) - q / ?u) * ?u"
    unfolding r by (simp add: left_diff_distrib)
  then have "\<bar>f64_round q - q\<bar> = \<bar>of_int (round_half_even (q / ?u)) - q / ?u\<bar> * ?u" by (simp add: abs_mult)
  also have "\<dots> \<le> 1 / 2 * ?u" using round_half_even_close by (intro mult_right_mono) simp_all
  also have "\<dots> \<le> q / 2 ^ 53"
    using f64_exp_bounds [OF q] by (simp add: power_int_add field_simps)
  finally show ?thesis .
qed (simp add: f64_round_def)

lemma f64_round_int:
  assumes "0 \<le> k" "k < 2 ^ 53"
  shows "f64_round (of_int k) = of_int k"
proof (cases "k = 0")
  case False
  then have k: "0 < k" using assms by simp
  let ?e = "f64_exp (of_int k)"
  have "(2 :: rat) powi (?e + 52) < 2 powi 53"
    using f64_exp_bounds [of "of_int k"] k assms(2) by (metis le_less_trans of_int_0_less_iff of_int_less_iff of_int_numeral of_int_power power_int_of_nat of_nat_numeral)
  then have e: "?e \<le> 0" using power_int_increasing [of 53 "?e + 52" "2 :: rat"] by (cases "?e \<le> 0") simp_all
  then have u: "(2 :: rat) powi ?e = 1 / of_int (2 ^ nat (- ?e))"
    by (simp add: power_int_def field_simps)
  have "f64_round (of_int k) = of_int (round_half_even (of_int k / 2 powi ?e)) * 2 powi ?e"
    using k unfolding f64_round_def Let_def pow2_powi by simp
  also have "\<dots> = of_int k"
    using round_half_even_int [of "k * 2 ^ nat (- ?e)"] unfolding u by simp
  finally show ?thesis .
qed (simp add: f64_round_def)

lemma f64_quot_close:
  assumes "0 \<le> a" "a < 2 ^ 53" "0 < b" "b < 2 ^ 53"
  shows "\<bar>f64_quot a b - of_int a / of_int b\<bar> \<le> of_int a / of_int b / 2 ^ 53" "0 \<le> f64_quot a b"
proof -
  have q: "f64_quot a b = f64_round (of_int a / of_int b)" using assms by (simp add: f64_quot_def f64_round_int)
  have nn: "(0 :: rat) \<le> of_int a / of_int b" using assms by simp
  show c: "\<bar>f64_quot a b - of_int a / of_int b\<bar> \<le> of_int a / of_int b / 2 ^ 53"
    unfolding q by (rule f64_round_close [OF nn])
  have "of_int a / of_int b / 2 ^ 53 \<le> (of_int a / of_int b :: rat)" using nn by (simp add: field_simps)
  with c show "0 \<le> f64_quot a b" by linarith
qed

subsection \<open>Reading what was printed\<close>

lemma read_digits_acc: "read_digits acc s = map_option (\<lambda>v. acc * 10 ^ length s + v) (read_digits 0 s)"
proof (induction s arbitrary: acc)
  case (Cons c cs)
  have "read_digits (10 * acc + digit_val c) cs = map_option (\<lambda>v. (10 * acc + digit_val c) * 10 ^ length cs + v) (read_digits 0 cs)"
    by (rule Cons.IH)
  moreover have "read_digits (digit_val c) cs = map_option (\<lambda>v. digit_val c * 10 ^ length cs + v) (read_digits 0 cs)"
    by (rule Cons.IH)
  ultimately show ?case by (simp add: option.map_comp comp_def algebra_simps)
qed simp

lemma length_dec_nat: "n < 10 ^ p \<Longrightarrow> 0 < p \<Longrightarrow> length (dec_nat n) \<le> p"
proof (induction p arbitrary: n)
  case (Suc p)
  show ?case
  proof (cases "n < 10")
    case True
    then show ?thesis by (subst dec_nat.simps) simp
  next
    case False
    then have "0 < p" using Suc.prems by (cases p) simp_all
    moreover have "n div 10 < 10 ^ p" using Suc.prems(1) by (simp add: less_mult_imp_div_less mult.commute)
    ultimately have "length (dec_nat (n div 10)) \<le> p" by (rule Suc.IH [rotated])
    with False show ?thesis by (subst dec_nat.simps) simp
  qed
qed simp

lemma read_zero_pad:
  assumes "n < 10 ^ p" "0 < p"
  shows "read_digits acc (zero_pad p (dec_nat n)) = Some (acc * 10 ^ p + n)"
  using length_dec_nat [OF assms]
  by (subst read_digits_acc) (simp add: zero_pad_def read_dec_nat)

lemma digit_not_point: "\<not> is_digit (CHR ''.'')" "is_digit (CHR ''0'')"
  by (simp_all add: is_digit_def)

lemma no_point: "\<forall>c \<in> set s. is_digit c \<Longrightarrow> filter (\<lambda>c. c \<noteq> CHR ''.'') s = s"
  by (rule filter_True) (use digit_not_point in metis)

lemma zero_pad_digits: "\<forall>c \<in> set (zero_pad p (dec_nat n)). is_digit c"
  using dec_nat_digits [of n] digit_not_point(2) by (auto simp: zero_pad_def)

text \<open>The digits printed, read as a number of units of the last place, are within half a unit.\<close>

definition printed_digits :: "string \<Rightarrow> nat option" where
  "printed_digits s = parse_nat (filter (\<lambda>c. c \<noteq> CHR ''.'') s)"

lemma fmt_fixed_close:
  assumes "0 \<le> x" "0 < p"
  obtains d where "printed_digits (fmt_fixed p x) = Some d" "\<bar>of_nat d / 10 ^ p - x\<bar> \<le> 1 / (2 * 10 ^ p)"
proof -
  let ?r = "round_half_even (x * 10 ^ p)" let ?d = "nat ?r"
  have "0 \<le> ?r" using assms by (intro round_half_even_nonneg) simp
  then have "\<bar>of_nat ?d - x * 10 ^ p\<bar> \<le> 1 / 2"
    using round_half_even_close [of "x * 10 ^ p"] by simp
  then have close: "\<bar>of_nat ?d / 10 ^ p - x\<bar> \<le> 1 / (2 * 10 ^ p)"
    by (simp add: abs_le_iff field_simps)
  have "read_digits 0 (dec_nat (?d div 10 ^ p) @ zero_pad p (dec_nat (?d mod 10 ^ p))) = Some (?d div 10 ^ p * 10 ^ p + ?d mod 10 ^ p)"
    by (simp add: read_digits_append read_dec_nat read_zero_pad [OF _ assms(2)])
  then have "printed_digits (fmt_fixed p x) = Some ?d"
    using assms(1) div_mult_mod_eq [of ?d "10 ^ p"]
    by (simp add: printed_digits_def fmt_fixed_def Let_def parse_nat_def no_point [OF dec_nat_digits] no_point [OF zero_pad_digits])
  from that [OF this close] show ?thesis .
qed

lemma fmt_quot_close:
  assumes "0 \<le> a" "a < 2 ^ 53" "0 < b" "b < 2 ^ 53" "a \<le> 100 * b" "0 < p"
  shows "\<exists>d. printed_digits (fmt_fixed p (f64_quot a b)) = Some d \<and>
    \<bar>of_nat d / 10 ^ p - of_int a / of_int b\<bar> \<le> 1 / (2 * 10 ^ p) + 1 / (2 ^ 46 :: rat)"
proof -
  note q = f64_quot_close [OF assms(1-4)]
  obtain d where d: "printed_digits (fmt_fixed p (f64_quot a b)) = Some d" "\<bar>of_nat d / 10 ^ p - f64_quot a b\<bar> \<le> 1 / (2 * 10 ^ p)"
    by (rule fmt_fixed_close [OF q(2) assms(6)])
  have "of_int a / of_int b \<le> (100 :: rat)" using assms(3,5) by (simp add: field_simps)
  then have "of_int a / of_int b / 2 ^ 53 \<le> (1 / 2 ^ 46 :: rat)" by simp
  with q(1) d show ?thesis by (intro exI [of _ d]) linarith
qed

end
