(* ===== verification/Report.thy ===== *)
theory Report
  imports Load Batch_Live Float_Text
begin

text \<open>
  \<^verbatim>\<open>internal/render\<close>: the text of the reports. The formatting verbs the reports use are written
  out: \<^verbatim>\<open>%d\<close> and \<^verbatim>\<open>%s\<close> with a width, \<^verbatim>\<open>%.1f\<close> and \<^verbatim>\<open>%.2f\<close> of a \<^verbatim>\<open>float64\<close> (correctly rounded, ties to
  even), and the printing and rounding of a \<^verbatim>\<open>time.Duration\<close>. Text is a string of bytes. The message
  of an error is a parameter.
\<close>

subsection \<open>Formatting\<close>

definition nl :: string where "nl = [char_of (10 :: nat)]"

definition str_repeat :: "string \<Rightarrow> nat \<Rightarrow> string" where
  "str_repeat s n = concat (replicate n s)"

definition pad_left :: "nat \<Rightarrow> string \<Rightarrow> string" where
  "pad_left w s = replicate (w - length s) (CHR '' '') @ s"

definition pad_right :: "nat \<Rightarrow> string \<Rightarrow> string" where
  "pad_right w s = s @ replicate (w - length s) (CHR '' '')"

text \<open>A fraction of \<open>p\<close> digits with its trailing zeros dropped, and with its point when any digit is left.\<close>

definition fmt_frac :: "nat \<Rightarrow> nat \<Rightarrow> string" where
  "fmt_frac p v =
     (let f = rev (dropWhile (\<lambda>c. c = CHR ''0'') (rev (zero_pad p (dec_nat (v mod 10 ^ p)))))
      in if f = '''' then '''' else CHR ''.'' # f)"

definition duration_string :: "int \<Rightarrow> string" where
  "duration_string d =
     (let u = nat \<bar>d\<bar>; secs = u div 10 ^ 9; mins = secs div 60; hours = mins div 60;
          s = dec_nat (secs mod 60) @ fmt_frac 9 u @ ''s'';
          body =
            (if u = 0 then ''0s''
             else if u < 10 ^ 3 then dec_nat u @ ''ns''
             else if u < 10 ^ 6 then dec_nat (u div 10 ^ 3) @ fmt_frac 3 u @ [char_of (194 :: nat), char_of (181 :: nat)] @ ''s''
             else if u < 10 ^ 9 then dec_nat (u div 10 ^ 6) @ fmt_frac 6 u @ ''ms''
             else if mins = 0 then s
             else if hours = 0 then dec_nat (mins mod 60) @ ''m'' @ s
             else dec_nat hours @ ''h'' @ dec_nat (mins mod 60) @ ''m'' @ s)
      in if d < 0 then CHR ''-'' # body else body)"

text \<open>\<^verbatim>\<open>Duration.Round\<close>: to the nearest multiple, halfway away from zero, clamped to the type.\<close>

definition duration_round :: "int \<Rightarrow> int \<Rightarrow> int" where
  "duration_round d m =
     (if m \<le> 0 then d
      else let r = \<bar>d\<bar> mod m in
        if d < 0 then (if r + r < m then d + r else max (- (2 ^ 63)) (d - m + r))
        else (if r + r < m then d - r else min max_int64 (d + m - r)))"

subsection \<open>The sections the reports share\<close>

definition rule_line :: "string \<Rightarrow> string" where
  "rule_line c = str_repeat c 52 @ nl"

definition garden_section :: "organism list \<Rightarrow> garden_stats \<Rightarrow> string" where
  "garden_section os g =
     nl @ ''Garden'' @ nl @ rule_line ''-'' @ garden_grid os @
     nl @ ''alive      '' @ fmt_d (gs_Alive g) @ ''/'' @ fmt_d (gs_Organisms g) @ nl @
     ''health     '' @ fmt_fixed 1 (gs_AverageHP g) @ '' avg'' @ nl @
     ''moisture   '' @ fmt_fixed 1 (gs_AverageMoist g) @ '' avg'' @ nl @
     ''stage      '' @ fmt_fixed 2 (gs_AverageStage g) @ '' avg ('' @ fmt_d (gs_TotalStage g) @ '' total)'' @ nl"

definition by_type_count :: "counts \<Rightarrow> string \<Rightarrow> int" where
  "by_type_count m k = (case map_of m k of None \<Rightarrow> 0 | Some n \<Rightarrow> n)"

fun by_type_loop :: "nat \<Rightarrow> counts \<Rightarrow> string list \<Rightarrow> string" where
  "by_type_loop i m [] = ''''"
| "by_type_loop i m (t # ts) =
     (if i > 0 then ''  '' else '''') @ t @ ''='' @ fmt_d (by_type_count m t) @ by_type_loop (i + 1) m ts"

definition events_section :: "int \<Rightarrow> proc_stats \<Rightarrow> string" where
  "events_section published p =
     nl @ ''Events'' @ nl @ rule_line ''-'' @
     ''published  '' @ fmt_d published @ nl @
     ''received   '' @ fmt_d (Received p) @ nl @
     ''applied    '' @ fmt_d (Applied p) @ nl @
     ''no effect  '' @ fmt_d (NoEffect p) @ nl @
     ''duplicates '' @ fmt_d (Duplicates p) @ '' (dropped by idempotency key)'' @ nl @
     ''rejected   '' @ fmt_d (Rejected p) @ nl @
     (if UnknownEntity p > 0 then ''unknown    '' @ fmt_d (UnknownEntity p) @ nl else '''') @
     ''by type    '' @ by_type_loop 0 (ByType p) [''rain'', ''growth'', ''pest'', ''control_changed''] @ nl"

definition controls_text :: "controls \<Rightarrow> string" where
  "controls_text c =
     ''controls   rate='' @ fmt_d (EventsPerTick c) @ '' rain='' @ fmt_d (RainWeight c) @
     '' growth='' @ fmt_d (GrowthWeight c) @ '' pest='' @ fmt_d (PestWeight c)"

subsection \<open>The reports\<close>

definition scorecard_text :: "run_result \<Rightarrow> string" where
  "scorecard_text r =
     nl @ ''Signal Garden run'' @ nl @ rule_line ''='' @
     ''run        '' @ rc_RunID (rr_Config r) @ nl @
     ''seed       '' @ fmt_d (rc_Seed (rr_Config r)) @ nl @
     ''ticks      '' @ fmt_d (rc_Ticks (rr_Config r)) @ nl @
     controls_text (rr_FinalCtrls r) @ nl @
     (if rr_Revisions r > 0 then ''revisions  '' @ fmt_d (rr_Revisions r) @ '' control changes applied'' @ nl else '''') @
     garden_section (rr_Organisms r) (rr_Garden r) @
     events_section (rr_Published r) (rr_Processor r) @
     nl @ ''snapshot   '' @ rr_Snapshot r @ nl @
     ''chain      '' @ rr_Chain r @ '' ('' @ fmt_d (rr_ChainSteps r) @ '' steps)'' @ nl @
     (if rr_Absorbed r
      then nl @ ''The garden stopped responding before the run ended, so this chain is'' @ nl @
           ''evidence about that state rather than about determinism.'' @ nl
      else nl @ ''Same seed, ticks, and controls reproduce this chain exactly. The chain folds'' @ nl @
           ''every event with the garden it produced; the snapshot alone would agree even'' @ nl @
           ''between runs that diverged and then died.'' @ nl)"

definition frame_line :: "garden_snapshot \<Rightarrow> string" where
  "frame_line s =
     ''tick '' @ pad_left 4 (fmt_d (fr_Tick s)) @ ''  '' @ pad_right 8 (fr_State s) @
     '' alive '' @ pad_left 2 (fmt_d (gs_Alive (fr_Stats s))) @ ''/'' @ pad_right 2 (fmt_d (gs_Organisms (fr_Stats s))) @
     ''  hp '' @ pad_left 5 (fmt_fixed 1 (gs_AverageHP (fr_Stats s))) @
     ''  moist '' @ pad_left 5 (fmt_fixed 1 (gs_AverageMoist (fr_Stats s))) @
     ''  stage '' @ pad_left 4 (fmt_fixed 2 (gs_AverageStage (fr_Stats s))) @
     ''  '' @ compact_grid (fr_Organisms s) @ nl"

definition summary_text :: "(go_error \<Rightarrow> string) \<Rightarrow> run_summary \<Rightarrow> string" where
  "summary_text msg summ =
     (let r = su_Run summ; snap = su_Snapshot summ; tel = su_Telemetry summ in
      nl @ ''Signal Garden live run'' @ nl @ rule_line ''='' @
      ''run        '' @ vw_RunID r @ nl @
      ''seed       '' @ fmt_d (vw_Seed r) @ nl @
      ''ticks      '' @ fmt_d (vw_Tick r) @ nl @
      ''interval   '' @ duration_string (vw_TickInterval r) @ nl @
      controls_text (vw_Controls r) @ nl @
      (if vw_Revision r > 0 then ''revisions  '' @ fmt_d (vw_Revision r) @ '' control changes applied'' @ nl else '''') @
      (case vw_Failure r of None \<Rightarrow> '''' | Some err \<Rightarrow> ''failure    '' @ msg err @ nl) @
      garden_section (fr_Organisms snap) (fr_Stats snap) @
      events_section (tm_Published tel) (tm_Processor tel) @
      nl @ ''Stream'' @ nl @ rule_line ''-'' @
      ''frames     '' @ fmt_d (tm_SnapshotsSent tel) @ '' sent, '' @ fmt_d (tm_SnapshotsDropped tel) @
        '' dropped to slow subscribers'' @ nl @
      ''pending    '' @ fmt_d (tm_Pending tel) @ '' events published but not processed'' @ nl @
      ''log        '' @ fmt_d (tm_LogOffset tel) @ '' records, committed through '' @ fmt_d (tm_CommittedOffset tel) @ nl @
      nl @ ''snapshot   '' @ fr_Hash snap @ nl @
      nl @ ''A batch run with the same seed and control ticks reaches this snapshot.'' @ nl)"

definition sample_line :: "load_sample \<Rightarrow> string" where
  "sample_line s =
     pad_right 10 (duration_string (duration_round (ls_Elapsed s) (10 * 10 ^ 6))) @ '' '' @
     pad_right 10 (fmt_d (ls_Tick s)) @ '' '' @ pad_right 10 (fmt_d (ls_Published s)) @ '' '' @ fmt_d (ls_Pending s) @ nl"

definition load_text :: "('d, 't) load_result \<Rightarrow> string" where
  "load_text r =
     (let tel = Option.bind (ld_Summary r) pu_Telemetry;
          peak = peak_pending (ld_Samples r);
          finalPending = (case tel of None \<Rightarrow> 0 | Some t \<Rightarrow> pm_Pending t) in
      nl @ ''Signal Garden load burst'' @ nl @ rule_line ''='' @
      ''run        '' @ ld_RunID r @ nl @
      ''daemon     '' @ ld_Daemon r @ nl @
      ''duration   '' @ duration_string (ld_Requested r) @ '' requested, '' @
        duration_string (duration_round (ld_Elapsed r) (10 ^ 6)) @ '' elapsed'' @ nl @
      controls_text (ld_Controls r) @ '' workers='' @ fmt_d (WorkerCount (ld_Controls r)) @
        '' batch='' @ fmt_d (BatchSize (ld_Controls r)) @ nl @
      nl @ ''Timeline'' @ nl @ rule_line ''-'' @
      ''elapsed    tick       published  pending'' @ nl @
      concat (map sample_line (ld_Samples r)) @
      (case tel of None \<Rightarrow> '''' | Some t \<Rightarrow> events_section (pm_Published t) (processor_stats_from (pm_Processor t))) @
      (if peak = 0
       then nl @ ''Pending never left zero: this capacity kept up with production for the whole burst.'' @ nl
       else nl @ ''Pending peaked at '' @ fmt_d peak @ '' during the burst and stood at '' @ fmt_d finalPending @
            '' when the run finished '' @ map char_of [226, 128, 148 :: nat] @ '' finishing'' @ nl @
            ''stops ticking, so a nonzero figure here is backlog the run stopped folding, not backlog'' @ nl @
            ''it cleared.'' @ nl))"

text \<open>The banner a live run prints before its frames.\<close>

definition print_banner :: "run_view \<Rightarrow> string" where
  "print_banner run =
     ''run '' @ vw_RunID run @ ''  seed '' @ fmt_d (vw_Seed run) @ ''  interval '' @ duration_string (vw_TickInterval run) @
     (if vw_MaxTicks run > 0 then ''  max ticks '' @ fmt_d (vw_MaxTicks run) else '''') @
     nl @ ''commands: rate N | rain N | growth N | pest N | pause | resume | finish'' @ nl @ nl"

subsection \<open>What the averages say\<close>

definition mean :: "int list \<Rightarrow> rat" where
  "mean xs = of_int (sum_list xs) / of_nat (length xs)"

lemma sum_list_bounds:
  fixes xs :: "int list"
  assumes "\<forall>x \<in> set xs. 0 \<le> x \<and> x \<le> m"
  shows "0 \<le> sum_list xs" "sum_list xs \<le> m * int (length xs)"
  using assms by (induction xs) (auto simp: algebra_simps)

lemma mean_printed:
  assumes "xs \<noteq> []" "\<forall>x \<in> set xs. 0 \<le> x \<and> x \<le> 100" "length xs < 2 ^ 46" "0 < p"
  shows "\<exists>d. printed_digits (fmt_fixed p (f64_quot (sum_list xs) (int (length xs)))) = Some d \<and>
    \<bar>of_nat d / 10 ^ p - mean xs\<bar> \<le> 1 / (2 * 10 ^ p) + 1 / 2 ^ 46"
proof -
  note b = sum_list_bounds [OF assms(2)]
  have "int (length xs) < 2 ^ 46" using assms(3) by (metis of_nat_less_iff of_nat_numeral of_nat_power)
  moreover have "0 < int (length xs)" using assms(1) by simp
  ultimately show ?thesis
    using fmt_quot_close [OF b(1) _ _ _ b(2) assms(4)] b(2) by (simp add: mean_def)
qed

text \<open>
  C40. The averages a report prints are the averages of the garden: in every well-formed garden the
  digits of the printed health and moisture are within half a tenth, and of the printed stage within
  half a hundredth, of the exact mean over all organisms, up to the rounding of one \<^verbatim>\<open>float64\<close> division.
\<close>

theorem printed_averages_are_close:
  assumes "garden_wf g" "length (organisms g) < 2 ^ 46"
  shows "(\<exists>d. printed_digits (fmt_fixed 1 (gs_AverageHP (stats g))) = Some d \<and>
      \<bar>of_nat d / 10 - mean (map Health (organisms g))\<bar> \<le> 1 / 20 + 1 / 2 ^ 46) \<and>
    (\<exists>d. printed_digits (fmt_fixed 1 (gs_AverageMoist (stats g))) = Some d \<and>
      \<bar>of_nat d / 10 - mean (map Moisture (organisms g))\<bar> \<le> 1 / 20 + 1 / 2 ^ 46) \<and>
    (\<exists>d. printed_digits (fmt_fixed 2 (gs_AverageStage (stats g))) = Some d \<and>
      \<bar>of_nat d / 100 - mean (map Stage (organisms g))\<bar> \<le> 1 / 200 + 1 / 2 ^ 46)"
proof -
  have ne: "organisms g \<noteq> []" and ok: "\<forall>o' \<in> set (organisms g). organism_ok o'"
    using assms(1) by (auto simp: garden_wf_def garden_shape_def list_all_iff)
  have r: "\<forall>x \<in> set (map Health (organisms g)). 0 \<le> x \<and> x \<le> 100" "\<forall>x \<in> set (map Moisture (organisms g)). 0 \<le> x \<and> x \<le> 100"
    "\<forall>x \<in> set (map Stage (organisms g)). 0 \<le> x \<and> x \<le> 100"
    using ok by (fastforce simp: organism_ok_def max_health_def max_moisture_def max_stage_def)+
  show ?thesis
    using mean_printed [OF _ r(1), of 1] mean_printed [OF _ r(2), of 1] mean_printed [OF _ r(3), of 2] ne assms(2)
    unfolding stats_counts(4-6) [OF ne] by simp
qed

theorem printed_averages_are_close_witness:
  "\<exists>d. printed_digits (fmt_fixed 1 (gs_AverageHP (stats two_plants))) = Some d \<and>
     \<bar>of_nat d / 10 - mean (map Health (organisms two_plants))\<bar> \<le> 1 / 20 + 1 / 2 ^ 46"
  using printed_averages_are_close [OF two_plants_wf(1)] two_plants_wf(2) by simp

end
