(* ===== verification/Rpc.thy ===== *)
theory Rpc
  imports Service Metrics
begin

text \<open>
  The unary gRPC calls of \<^verbatim>\<open>GardenService\<close>: the generated client and server glue of
  \<^verbatim>\<open>internal/gen/signal/garden/v1/garden_grpc.pb.go\<close>, the interceptor of
  \<^verbatim>\<open>internal/metrics/metrics.go\<close>, and the daemon's service behind them. A call takes the state of
  the process and answers a status or a message with the state after it; \<open>None\<close> is a panic. The
  connection itself, \<^verbatim>\<open>ClientConn.Invoke\<close>, is a parameter.
\<close>

type_synonym ('m, 'w) rpc = "'w \<Rightarrow> ((grpc_status + 'm) \<times> 'w) option"

text \<open>The request messages, and the response messages, of the service.\<close>

datatype 'd pb_request =
    StartRunRequest "'d pb_start_request"
  | GetRunRequest string
  | ListRunsRequest
  | UpdateControlsRequest string "pb_controls option"
  | PauseRunRequest string bool
  | FinishRunRequest string
  | GetSnapshotRequest string
  | GetTelemetryRequest string

datatype ('d, 't) pb_message =
    PbRun "('d, 't) pb_run"
  | PbRunList "('d, 't) pb_run list"
  | PbRevision pb_control_revision
  | PbSummary "('d, 't) pb_run_summary"
  | PbSnapshot "'t pb_garden_snapshot"
  | PbTelemetry "('d, 't) pb_telemetry"

text \<open>The methods of the interfaces \<^verbatim>\<open>GardenServiceClient\<close> and \<^verbatim>\<open>GardenServiceServer\<close>.\<close>

record ('d, 't, 'w) garden_api =
  api_StartRun :: "'d pb_start_request \<Rightarrow> (('d, 't) pb_run, 'w) rpc"
  api_GetRun :: "string \<Rightarrow> (('d, 't) pb_run, 'w) rpc"
  api_ListRuns :: "(('d, 't) pb_run list, 'w) rpc"
  api_UpdateControls :: "string \<Rightarrow> pb_controls option \<Rightarrow> (pb_control_revision, 'w) rpc"
  api_PauseRun :: "string \<Rightarrow> bool \<Rightarrow> (('d, 't) pb_run, 'w) rpc"
  api_FinishRun :: "string \<Rightarrow> (('d, 't) pb_run_summary, 'w) rpc"
  api_GetSnapshot :: "string \<Rightarrow> ('t pb_garden_snapshot, 'w) rpc"
  api_GetTelemetry :: "string \<Rightarrow> (('d, 't) pb_telemetry, 'w) rpc"

definition full_StartRun :: string where "full_StartRun = ''/signal.garden.v1.GardenService/StartRun''"
definition full_GetRun :: string where "full_GetRun = ''/signal.garden.v1.GardenService/GetRun''"
definition full_ListRuns :: string where "full_ListRuns = ''/signal.garden.v1.GardenService/ListRuns''"
definition full_UpdateControls :: string where "full_UpdateControls = ''/signal.garden.v1.GardenService/UpdateControls''"
definition full_PauseRun :: string where "full_PauseRun = ''/signal.garden.v1.GardenService/PauseRun''"
definition full_FinishRun :: string where "full_FinishRun = ''/signal.garden.v1.GardenService/FinishRun''"
definition full_GetSnapshot :: string where "full_GetSnapshot = ''/signal.garden.v1.GardenService/GetSnapshot''"
definition full_GetTelemetry :: string where "full_GetTelemetry = ''/signal.garden.v1.GardenService/GetTelemetry''"

lemmas full_names = full_StartRun_def full_GetRun_def full_ListRuns_def full_UpdateControls_def full_PauseRun_def
  full_FinishRun_def full_GetSnapshot_def full_GetTelemetry_def

definition message_of :: "('m \<Rightarrow> ('d, 't) pb_message) \<Rightarrow> ((grpc_status + 'm) \<times> 'w) option \<Rightarrow>
   ((grpc_status + ('d, 't) pb_message) \<times> 'w) option" where
  "message_of mk = map_option (map_prod (map_sum (\<lambda>st. st) mk) (\<lambda>w. w))"

subsection \<open>The generated client\<close>

text \<open>
  \<^verbatim>\<open>Invoke\<close> decodes the answer into the message the method returns; an answer of another kind does
  not decode and is an internal error.
\<close>

definition out_as :: "(('d, 't) pb_message \<Rightarrow> 'm option) \<Rightarrow> ((grpc_status + ('d, 't) pb_message) \<times> 'w) option \<Rightarrow>
   ((grpc_status + 'm) \<times> 'w) option" where
  "out_as out =
     map_option (map_prod (\<lambda>r. case r of
       Inl st \<Rightarrow> Inl st
     | Inr m \<Rightarrow> (case out m of None \<Rightarrow> Inl (Status Internal (Lib ''unmarshal'')) | Some v \<Rightarrow> Inr v)) (\<lambda>w. w))"

definition new_garden_service_client ::
  "(string \<Rightarrow> 'd pb_request \<Rightarrow> (('d, 't) pb_message, 'w) rpc) \<Rightarrow> ('d, 't, 'w) garden_api" where
  "new_garden_service_client invoke =
     \<lparr>api_StartRun = (\<lambda>req w. out_as (\<lambda>m. case m of PbRun v \<Rightarrow> Some v | _ \<Rightarrow> None)
                                (invoke full_StartRun (StartRunRequest req) w)),
      api_GetRun = (\<lambda>runID w. out_as (\<lambda>m. case m of PbRun v \<Rightarrow> Some v | _ \<Rightarrow> None)
                                (invoke full_GetRun (GetRunRequest runID) w)),
      api_ListRuns = (\<lambda>w. out_as (\<lambda>m. case m of PbRunList v \<Rightarrow> Some v | _ \<Rightarrow> None)
                                (invoke full_ListRuns ListRunsRequest w)),
      api_UpdateControls = (\<lambda>runID c w. out_as (\<lambda>m. case m of PbRevision v \<Rightarrow> Some v | _ \<Rightarrow> None)
                                (invoke full_UpdateControls (UpdateControlsRequest runID c) w)),
      api_PauseRun = (\<lambda>runID paused w. out_as (\<lambda>m. case m of PbRun v \<Rightarrow> Some v | _ \<Rightarrow> None)
                                (invoke full_PauseRun (PauseRunRequest runID paused) w)),
      api_FinishRun = (\<lambda>runID w. out_as (\<lambda>m. case m of PbSummary v \<Rightarrow> Some v | _ \<Rightarrow> None)
                                (invoke full_FinishRun (FinishRunRequest runID) w)),
      api_GetSnapshot = (\<lambda>runID w. out_as (\<lambda>m. case m of PbSnapshot v \<Rightarrow> Some v | _ \<Rightarrow> None)
                                (invoke full_GetSnapshot (GetSnapshotRequest runID) w)),
      api_GetTelemetry = (\<lambda>runID w. out_as (\<lambda>m. case m of PbTelemetry v \<Rightarrow> Some v | _ \<Rightarrow> None)
                                (invoke full_GetTelemetry (GetTelemetryRequest runID) w))\<rparr>"

subsection \<open>The generated server\<close>

text \<open>
  The method handlers of \<^verbatim>\<open>GardenService_ServiceDesc\<close>: the call each makes on the service once the
  request is decoded, \<open>None\<close> when the request is of another kind and does not decode.
\<close>

definition method_handlers ::
  "('d, 't, 'w) garden_api \<Rightarrow> (string \<times> ('d pb_request \<Rightarrow> (('d, 't) pb_message, 'w) rpc option)) list" where
  "method_handlers srv =
     [(full_StartRun, \<lambda>req. case req of StartRunRequest m \<Rightarrow> Some (\<lambda>w. message_of PbRun (api_StartRun srv m w)) | _ \<Rightarrow> None),
      (full_GetRun, \<lambda>req. case req of GetRunRequest runID \<Rightarrow> Some (\<lambda>w. message_of PbRun (api_GetRun srv runID w)) | _ \<Rightarrow> None),
      (full_ListRuns, \<lambda>req. case req of ListRunsRequest \<Rightarrow> Some (\<lambda>w. message_of PbRunList (api_ListRuns srv w)) | _ \<Rightarrow> None),
      (full_UpdateControls, \<lambda>req. case req of UpdateControlsRequest runID c \<Rightarrow>
         Some (\<lambda>w. message_of PbRevision (api_UpdateControls srv runID c w)) | _ \<Rightarrow> None),
      (full_PauseRun, \<lambda>req. case req of PauseRunRequest runID paused \<Rightarrow>
         Some (\<lambda>w. message_of PbRun (api_PauseRun srv runID paused w)) | _ \<Rightarrow> None),
      (full_FinishRun, \<lambda>req. case req of FinishRunRequest runID \<Rightarrow>
         Some (\<lambda>w. message_of PbSummary (api_FinishRun srv runID w)) | _ \<Rightarrow> None),
      (full_GetSnapshot, \<lambda>req. case req of GetSnapshotRequest runID \<Rightarrow>
         Some (\<lambda>w. message_of PbSnapshot (api_GetSnapshot srv runID w)) | _ \<Rightarrow> None),
      (full_GetTelemetry, \<lambda>req. case req of GetTelemetryRequest runID \<Rightarrow>
         Some (\<lambda>w. message_of PbTelemetry (api_GetTelemetry srv runID w)) | _ \<Rightarrow> None)]"

type_synonym ('d, 't, 'w) unary_interceptor =
  "string \<Rightarrow> (('d, 't) pb_message, 'w) rpc \<Rightarrow> (('d, 't) pb_message, 'w) rpc"

definition serve_rpc ::
  "('d, 't, 'w) garden_api \<Rightarrow> ('d, 't, 'w) unary_interceptor option \<Rightarrow> string \<Rightarrow> 'd pb_request \<Rightarrow>
   (('d, 't) pb_message, 'w) rpc" where
  "serve_rpc srv interceptor method req w =
     (case map_of (method_handlers srv) method of
        None \<Rightarrow> Some (Inl (Status Unimplemented (Lib ''unknown method'')), w)
      | Some dec \<Rightarrow>
          (case dec req of
             None \<Rightarrow> Some (Inl (Status Internal (Lib ''unmarshal'')), w)
           | Some handler \<Rightarrow> (case interceptor of None \<Rightarrow> handler w | Some i \<Rightarrow> i method handler w)))"

subsection \<open>The interceptor\<close>

definition code_name :: "grpc_status + 'm \<Rightarrow> string" where
  "code_name r =
     (case r of
        Inr _ \<Rightarrow> ''OK''
      | Inl st \<Rightarrow>
          (case status_code st of
             NotFound \<Rightarrow> ''NotFound'' | AlreadyExists \<Rightarrow> ''AlreadyExists'' | FailedPrecondition \<Rightarrow> ''FailedPrecondition''
           | DataLoss \<Rightarrow> ''DataLoss'' | Unavailable \<Rightarrow> ''Unavailable'' | InvalidArgument \<Rightarrow> ''InvalidArgument''
           | Unimplemented \<Rightarrow> ''Unimplemented'' | Internal \<Rightarrow> ''Internal''))"

text \<open>The state of the daemon a call works on: the registry, and the calls its recorder received.\<close>

type_synonym ('l, 'r, 'c) daemon_state = "('l, 'r, 'c) registry \<times> metric_call list"

definition unary_server_interceptor ::
  "bool \<Rightarrow> ('d, 't, ('l, 'r, 'c) daemon_state) unary_interceptor" where
  "unary_server_interceptor rec method handler w =
     (if \<not> rec then handler w
      else map_option (\<lambda>(resp, g, obs). (resp, g, observe rec (ObserveRPC method (code_name resp)) obs)) (handler w))"

subsection \<open>The service of the daemon\<close>

definition on_registry :: "('m, 'g) rpc \<Rightarrow> ('m, 'g \<times> metric_call list) rpc" where
  "on_registry f = (\<lambda>(g, obs). map_option (\<lambda>(r, g). (r, g, obs)) (f g))"

definition garden_service ::
  "('d, 't) pb_time \<Rightarrow> ('fs, 'l, 'r) spine \<Rightarrow> 'c chain_ops \<Rightarrow> ('l, 'r) log_opener \<Rightarrow> int \<Rightarrow>
   ('d, 't, ('l, 'r, 'c) daemon_state) garden_api" where
  "garden_service pt sp ch opn now =
     \<lparr>api_StartRun = (\<lambda>req. on_registry (svc_start_run pt sp ch opn now (Some req))),
      api_GetRun = (\<lambda>runID. on_registry (\<lambda>g. Some (svc_get_run pt runID g, g))),
      api_ListRuns = on_registry (\<lambda>g. Some (Inr (svc_list_runs pt g), g)),
      api_UpdateControls = (\<lambda>runID c. on_registry (svc_update_controls now runID c)),
      api_PauseRun = (\<lambda>runID paused. on_registry (svc_pause_run pt sp ch now runID paused)),
      api_FinishRun = (\<lambda>runID. on_registry (svc_finish_run pt sp ch now runID)),
      api_GetSnapshot = (\<lambda>runID. on_registry (\<lambda>g. Some (svc_get_snapshot pt sp now runID g, g))),
      api_GetTelemetry = (\<lambda>runID. on_registry (\<lambda>g. Some (svc_get_telemetry pt sp now runID g, g)))\<rparr>"

subsection \<open>A call through the stubs\<close>

text \<open>The method a request belongs to, and the call it makes on a service.\<close>

fun method_of :: "'d pb_request \<Rightarrow> string" where
  "method_of (StartRunRequest m) = full_StartRun"
| "method_of (GetRunRequest runID) = full_GetRun"
| "method_of ListRunsRequest = full_ListRuns"
| "method_of (UpdateControlsRequest runID c) = full_UpdateControls"
| "method_of (PauseRunRequest runID paused) = full_PauseRun"
| "method_of (FinishRunRequest runID) = full_FinishRun"
| "method_of (GetSnapshotRequest runID) = full_GetSnapshot"
| "method_of (GetTelemetryRequest runID) = full_GetTelemetry"

fun call_api :: "('d, 't, 'w) garden_api \<Rightarrow> 'd pb_request \<Rightarrow> (('d, 't) pb_message, 'w) rpc" where
  "call_api api (StartRunRequest m) = (\<lambda>w. message_of PbRun (api_StartRun api m w))"
| "call_api api (GetRunRequest runID) = (\<lambda>w. message_of PbRun (api_GetRun api runID w))"
| "call_api api ListRunsRequest = (\<lambda>w. message_of PbRunList (api_ListRuns api w))"
| "call_api api (UpdateControlsRequest runID c) = (\<lambda>w. message_of PbRevision (api_UpdateControls api runID c w))"
| "call_api api (PauseRunRequest runID paused) = (\<lambda>w. message_of PbRun (api_PauseRun api runID paused w))"
| "call_api api (FinishRunRequest runID) = (\<lambda>w. message_of PbSummary (api_FinishRun api runID w))"
| "call_api api (GetSnapshotRequest runID) = (\<lambda>w. message_of PbSnapshot (api_GetSnapshot api runID w))"
| "call_api api (GetTelemetryRequest runID) = (\<lambda>w. message_of PbTelemetry (api_GetTelemetry api runID w))"

lemma serve_rpc_call:
  "serve_rpc srv interceptor (method_of req) req w =
     (case interceptor of None \<Rightarrow> call_api srv req w | Some i \<Rightarrow> i (method_of req) (call_api srv req) w)"
  by (cases req; cases interceptor) (simp_all add: serve_rpc_def method_handlers_def full_names)

lemma handed_on:
  assumes "\<And>v. out (mk v) = Some v"
  shows "message_of mk (out_as out (message_of mk x)) = message_of mk x"
    "message_of mk (out_as out (map_option (\<lambda>(resp, w). (resp, h resp w)) (message_of mk x))) =
       map_option (\<lambda>(resp, w). (resp, h resp w)) (message_of mk x)"
  by (cases x; auto simp: message_of_def out_as_def assms map_sum_def split: sum.splits)+

text \<open>
  A connection to the daemon's server: what the client invokes is what the server serves. Then a
  call on the client is the call on the service, observed once when there is a recorder.
\<close>

definition connected :: "(string \<Rightarrow> 'd pb_request \<Rightarrow> (('d, 't) pb_message, 'w) rpc) \<Rightarrow> ('d, 't, 'w) garden_api \<Rightarrow>
   ('d, 't, 'w) unary_interceptor option \<Rightarrow> bool" where
  "connected invoke srv interceptor \<longleftrightarrow> (\<forall>method req w. invoke method req w = serve_rpc srv interceptor method req w)"

definition observed :: "bool \<Rightarrow> string \<Rightarrow> ((grpc_status + ('d, 't) pb_message) \<times> ('l, 'r, 'c) daemon_state) option \<Rightarrow>
   ((grpc_status + ('d, 't) pb_message) \<times> ('l, 'r, 'c) daemon_state) option" where
  "observed rec method = map_option (\<lambda>(resp, w). (resp, fst w, observe rec (ObserveRPC method (code_name resp)) (snd w)))"

lemma unary_server_interceptor_observed:
  "unary_server_interceptor rec method handler w = observed rec method (handler w)"
  by (auto simp: unary_server_interceptor_def observed_def observe_def option.map_comp comp_def case_prod_unfold option.map_ident
      intro!: option.map_cong)

lemma observed_handed_on:
  assumes "\<And>v. out (mk v) = Some v"
  shows "message_of mk (out_as out (observed rec method (message_of mk x))) = observed rec method (message_of mk x)"
  unfolding observed_def by (rule handed_on(2) [OF assms])

lemma client_call:
  assumes "connected invoke srv (Some (unary_server_interceptor rec))"
  shows "call_api (new_garden_service_client invoke) req w = observed rec (method_of req) (call_api srv req w)"
proof -
  have "invoke (method_of req) req w = serve_rpc srv (Some (unary_server_interceptor rec)) (method_of req) req w"
    using assms unfolding connected_def by blast
  then have "invoke (method_of req) req w = observed rec (method_of req) (call_api srv req w)"
    by (simp add: serve_rpc_call unary_server_interceptor_observed)
  then show ?thesis
    by (cases req) (simp_all add: new_garden_service_client_def observed_handed_on)
qed

end
