(* ===== verification/Gateway.thy ===== *)
theory Gateway
  imports Rpc Commands
begin

text \<open>
  The public HTTP surface of the daemon: the generated REST gateway,
  \<^verbatim>\<open>internal/gen/signal/garden/v1/garden.pb.gw.go\<close>, and the routes \<^verbatim>\<open>cmd/signalgardend/main.go\<close>
  puts it behind. The gateway's library is a parameter: how a body decodes, whether the context of a
  request can be annotated, what \<^verbatim>\<open>runtime.String\<close> makes of a path parameter (\<open>gw_runtime\<close>), and which
  pattern of the route table its mux picks for a method and a path (\<open>pick\<close>). What a handler answers is
  the library call it ends with: \<^verbatim>\<open>runtime.HTTPError\<close> with a status, or the forwarding of a message.
  Header and trailer metadata, of which the service sets none, are left out.
\<close>

record 'b rest_request = http_request +
  hq_Body :: 'b

type_synonym path_params = "string \<rightharpoonup> string"

text \<open>
  A decoder is given the request's body and the zero message; it returns the message it leaves and
  its error.
\<close>

record ('b, 'd) gw_runtime =
  decode_start :: "'b \<Rightarrow> 'd pb_start_request \<times> go_error option"
  decode_controls :: "'b \<Rightarrow> pb_controls option \<times> go_error option"
  decode_pause :: "'b \<Rightarrow> (string \<times> bool) \<times> go_error option"
  decode_finish :: "'b \<Rightarrow> string \<times> go_error option"
  rt_String :: "string \<Rightarrow> go_error + string"
  rt_AnnotateContext :: "'b rest_request \<Rightarrow> string \<Rightarrow> string \<Rightarrow> grpc_status option"
  rt_AnnotateIncomingContext :: "'b rest_request \<Rightarrow> string \<Rightarrow> string \<Rightarrow> grpc_status option"

definition io_EOF :: go_error where "io_EOF = Lib ''EOF''"

definition decoded :: "'m \<times> go_error option \<Rightarrow> grpc_status + 'm" where
  "decoded r =
     (case r of
        (m, None) \<Rightarrow> Inr m
      | (m, Some err) \<Rightarrow> if \<not> errors_is err io_EOF then Inl (Status InvalidArgument err) else Inr m)"

definition path_run_id :: "('b, 'd) gw_runtime \<Rightarrow> path_params \<Rightarrow> grpc_status + string" where
  "path_run_id rt pathParams =
     (case pathParams ''run_id'' of
        None \<Rightarrow> Inl (Status InvalidArgument (Errorf [T ''missing parameter '', T ''run_id'']))
      | Some val \<Rightarrow>
          (case rt_String rt val of
             Inl err \<Rightarrow> Inl (Status InvalidArgument (Errorf [T ''type mismatch, parameter: '', T ''run_id'', T '', error: '', W err]))
           | Inr runID \<Rightarrow> Inr runID))"

subsection \<open>A request of every method\<close>

text \<open>
  \<open>request_\<close> calls the gRPC client, \<open>local_request_\<close> the service in process. A body that is absent
  leaves the zero message; the run ID of the path replaces the one of the body.
\<close>

definition request_StartRun ::
  "('b, 'd) gw_runtime \<Rightarrow> ('d, 't, 'w) garden_api \<Rightarrow> 'b rest_request \<Rightarrow> path_params \<Rightarrow> (('d, 't) pb_run, 'w) rpc" where
  "request_StartRun rt client req pathParams w =
     (case decoded (decode_start rt (hq_Body req)) of
        Inl st \<Rightarrow> Some (Inl st, w)
      | Inr protoReq \<Rightarrow> api_StartRun client protoReq w)"

definition local_request_StartRun ::
  "('b, 'd) gw_runtime \<Rightarrow> ('d, 't, 'w) garden_api \<Rightarrow> 'b rest_request \<Rightarrow> path_params \<Rightarrow> (('d, 't) pb_run, 'w) rpc" where
  "local_request_StartRun rt server req pathParams w =
     (case decoded (decode_start rt (hq_Body req)) of
        Inl st \<Rightarrow> Some (Inl st, w)
      | Inr protoReq \<Rightarrow> api_StartRun server protoReq w)"

definition request_GetRun ::
  "('b, 'd) gw_runtime \<Rightarrow> ('d, 't, 'w) garden_api \<Rightarrow> 'b rest_request \<Rightarrow> path_params \<Rightarrow> (('d, 't) pb_run, 'w) rpc" where
  "request_GetRun rt client req pathParams w =
     (case path_run_id rt pathParams of
        Inl st \<Rightarrow> Some (Inl st, w)
      | Inr runID \<Rightarrow> api_GetRun client runID w)"

definition local_request_GetRun ::
  "('b, 'd) gw_runtime \<Rightarrow> ('d, 't, 'w) garden_api \<Rightarrow> 'b rest_request \<Rightarrow> path_params \<Rightarrow> (('d, 't) pb_run, 'w) rpc" where
  "local_request_GetRun rt server req pathParams w =
     (case path_run_id rt pathParams of
        Inl st \<Rightarrow> Some (Inl st, w)
      | Inr runID \<Rightarrow> api_GetRun server runID w)"

definition request_ListRuns ::
  "('b, 'd) gw_runtime \<Rightarrow> ('d, 't, 'w) garden_api \<Rightarrow> 'b rest_request \<Rightarrow> path_params \<Rightarrow> (('d, 't) pb_run list, 'w) rpc" where
  "request_ListRuns rt client req pathParams w =
     api_ListRuns client w"

definition local_request_ListRuns ::
  "('b, 'd) gw_runtime \<Rightarrow> ('d, 't, 'w) garden_api \<Rightarrow> 'b rest_request \<Rightarrow> path_params \<Rightarrow> (('d, 't) pb_run list, 'w) rpc" where
  "local_request_ListRuns rt server req pathParams w =
     api_ListRuns server w"

definition request_UpdateControls ::
  "('b, 'd) gw_runtime \<Rightarrow> ('d, 't, 'w) garden_api \<Rightarrow> 'b rest_request \<Rightarrow> path_params \<Rightarrow> (pb_control_revision, 'w) rpc" where
  "request_UpdateControls rt client req pathParams w =
     (case decoded (decode_controls rt (hq_Body req)) of
        Inl st \<Rightarrow> Some (Inl st, w)
      | Inr controls \<Rightarrow>
          (case path_run_id rt pathParams of
              Inl st \<Rightarrow> Some (Inl st, w)
            | Inr runID \<Rightarrow> api_UpdateControls client runID controls w))"

definition local_request_UpdateControls ::
  "('b, 'd) gw_runtime \<Rightarrow> ('d, 't, 'w) garden_api \<Rightarrow> 'b rest_request \<Rightarrow> path_params \<Rightarrow> (pb_control_revision, 'w) rpc" where
  "local_request_UpdateControls rt server req pathParams w =
     (case decoded (decode_controls rt (hq_Body req)) of
        Inl st \<Rightarrow> Some (Inl st, w)
      | Inr controls \<Rightarrow>
          (case path_run_id rt pathParams of
              Inl st \<Rightarrow> Some (Inl st, w)
            | Inr runID \<Rightarrow> api_UpdateControls server runID controls w))"

definition request_PauseRun ::
  "('b, 'd) gw_runtime \<Rightarrow> ('d, 't, 'w) garden_api \<Rightarrow> 'b rest_request \<Rightarrow> path_params \<Rightarrow> (('d, 't) pb_run, 'w) rpc" where
  "request_PauseRun rt client req pathParams w =
     (case decoded (decode_pause rt (hq_Body req)) of
        Inl st \<Rightarrow> Some (Inl st, w)
      | Inr (_, paused) \<Rightarrow>
          (case path_run_id rt pathParams of
              Inl st \<Rightarrow> Some (Inl st, w)
            | Inr runID \<Rightarrow> api_PauseRun client runID paused w))"

definition local_request_PauseRun ::
  "('b, 'd) gw_runtime \<Rightarrow> ('d, 't, 'w) garden_api \<Rightarrow> 'b rest_request \<Rightarrow> path_params \<Rightarrow> (('d, 't) pb_run, 'w) rpc" where
  "local_request_PauseRun rt server req pathParams w =
     (case decoded (decode_pause rt (hq_Body req)) of
        Inl st \<Rightarrow> Some (Inl st, w)
      | Inr (_, paused) \<Rightarrow>
          (case path_run_id rt pathParams of
              Inl st \<Rightarrow> Some (Inl st, w)
            | Inr runID \<Rightarrow> api_PauseRun server runID paused w))"

definition request_FinishRun ::
  "('b, 'd) gw_runtime \<Rightarrow> ('d, 't, 'w) garden_api \<Rightarrow> 'b rest_request \<Rightarrow> path_params \<Rightarrow> (('d, 't) pb_run_summary, 'w) rpc" where
  "request_FinishRun rt client req pathParams w =
     (case decoded (decode_finish rt (hq_Body req)) of
        Inl st \<Rightarrow> Some (Inl st, w)
      | Inr _ \<Rightarrow>
          (case path_run_id rt pathParams of
              Inl st \<Rightarrow> Some (Inl st, w)
            | Inr runID \<Rightarrow> api_FinishRun client runID w))"

definition local_request_FinishRun ::
  "('b, 'd) gw_runtime \<Rightarrow> ('d, 't, 'w) garden_api \<Rightarrow> 'b rest_request \<Rightarrow> path_params \<Rightarrow> (('d, 't) pb_run_summary, 'w) rpc" where
  "local_request_FinishRun rt server req pathParams w =
     (case decoded (decode_finish rt (hq_Body req)) of
        Inl st \<Rightarrow> Some (Inl st, w)
      | Inr _ \<Rightarrow>
          (case path_run_id rt pathParams of
              Inl st \<Rightarrow> Some (Inl st, w)
            | Inr runID \<Rightarrow> api_FinishRun server runID w))"

definition request_GetSnapshot ::
  "('b, 'd) gw_runtime \<Rightarrow> ('d, 't, 'w) garden_api \<Rightarrow> 'b rest_request \<Rightarrow> path_params \<Rightarrow> ('t pb_garden_snapshot, 'w) rpc" where
  "request_GetSnapshot rt client req pathParams w =
     (case path_run_id rt pathParams of
        Inl st \<Rightarrow> Some (Inl st, w)
      | Inr runID \<Rightarrow> api_GetSnapshot client runID w)"

definition local_request_GetSnapshot ::
  "('b, 'd) gw_runtime \<Rightarrow> ('d, 't, 'w) garden_api \<Rightarrow> 'b rest_request \<Rightarrow> path_params \<Rightarrow> ('t pb_garden_snapshot, 'w) rpc" where
  "local_request_GetSnapshot rt server req pathParams w =
     (case path_run_id rt pathParams of
        Inl st \<Rightarrow> Some (Inl st, w)
      | Inr runID \<Rightarrow> api_GetSnapshot server runID w)"

definition request_GetTelemetry ::
  "('b, 'd) gw_runtime \<Rightarrow> ('d, 't, 'w) garden_api \<Rightarrow> 'b rest_request \<Rightarrow> path_params \<Rightarrow> (('d, 't) pb_telemetry, 'w) rpc" where
  "request_GetTelemetry rt client req pathParams w =
     (case path_run_id rt pathParams of
        Inl st \<Rightarrow> Some (Inl st, w)
      | Inr runID \<Rightarrow> api_GetTelemetry client runID w)"

definition local_request_GetTelemetry ::
  "('b, 'd) gw_runtime \<Rightarrow> ('d, 't, 'w) garden_api \<Rightarrow> 'b rest_request \<Rightarrow> path_params \<Rightarrow> (('d, 't) pb_telemetry, 'w) rpc" where
  "local_request_GetTelemetry rt server req pathParams w =
     (case path_run_id rt pathParams of
        Inl st \<Rightarrow> Some (Inl st, w)
      | Inr runID \<Rightarrow> api_GetTelemetry server runID w)"

subsection \<open>The route table\<close>

record rest_pattern =
  pat_Version :: int
  pat_Ops :: "int list"
  pat_Pool :: "string list"
  pat_Verb :: string

definition pattern_StartRun :: rest_pattern where
  "pattern_StartRun = \<lparr>pat_Version = 1, pat_Ops = [2, 0, 2, 1], pat_Pool = [''v1'', ''runs''], pat_Verb = ''''\<rparr>"

definition pattern_GetRun :: rest_pattern where
  "pattern_GetRun =
     \<lparr>pat_Version = 1, pat_Ops = [2, 0, 2, 1, 1, 0, 4, 1, 5, 2], pat_Pool = [''v1'', ''runs'', ''run_id''], pat_Verb = ''''\<rparr>"

definition pattern_ListRuns :: rest_pattern where
  "pattern_ListRuns = \<lparr>pat_Version = 1, pat_Ops = [2, 0, 2, 1], pat_Pool = [''v1'', ''runs''], pat_Verb = ''''\<rparr>"

definition pattern_UpdateControls :: rest_pattern where
  "pattern_UpdateControls =
     \<lparr>pat_Version = 1, pat_Ops = [2, 0, 2, 1, 1, 0, 4, 1, 5, 2, 2, 3], pat_Pool = [''v1'', ''runs'', ''run_id'', ''controls''],
      pat_Verb = ''''\<rparr>"

definition pattern_PauseRun :: rest_pattern where
  "pattern_PauseRun =
     \<lparr>pat_Version = 1, pat_Ops = [2, 0, 2, 1, 1, 0, 4, 1, 5, 2], pat_Pool = [''v1'', ''runs'', ''run_id''], pat_Verb = ''pause''\<rparr>"

definition pattern_FinishRun :: rest_pattern where
  "pattern_FinishRun =
     \<lparr>pat_Version = 1, pat_Ops = [2, 0, 2, 1, 1, 0, 4, 1, 5, 2], pat_Pool = [''v1'', ''runs'', ''run_id''], pat_Verb = ''finish''\<rparr>"

definition pattern_GetSnapshot :: rest_pattern where
  "pattern_GetSnapshot =
     \<lparr>pat_Version = 1, pat_Ops = [2, 0, 2, 1, 1, 0, 4, 1, 5, 2, 2, 3], pat_Pool = [''v1'', ''runs'', ''run_id'', ''snapshot''],
      pat_Verb = ''''\<rparr>"

definition pattern_GetTelemetry :: rest_pattern where
  "pattern_GetTelemetry =
     \<lparr>pat_Version = 1, pat_Ops = [2, 0, 2, 1, 1, 0, 4, 1, 5, 2, 2, 3], pat_Pool = [''v1'', ''runs'', ''run_id'', ''telemetry''],
      pat_Verb = ''''\<rparr>"

datatype ('d, 't) rest_answer = HTTPError grpc_status | Forward "('d, 't) pb_message" | NoRoute

type_synonym ('b, 'd, 't, 'w) rest_handler =
  "'b rest_request \<Rightarrow> path_params \<Rightarrow> 'w \<Rightarrow> (('d, 't) rest_answer \<times> 'w) option"

definition rest_reply ::
  "((grpc_status + ('d, 't) pb_message) \<times> 'w) option \<Rightarrow> (('d, 't) rest_answer \<times> 'w) option" where
  "rest_reply = map_option (map_prod (case_sum HTTPError Forward) (\<lambda>w. w))"

text \<open>The body of every closure that is registered, over the connection and in process.\<close>

definition client_handler ::
  "('b, 'd) gw_runtime \<Rightarrow> string \<Rightarrow> string \<Rightarrow> ('b rest_request \<Rightarrow> path_params \<Rightarrow> (('d, 't) pb_message, 'w) rpc) \<Rightarrow>
   ('b, 'd, 't, 'w) rest_handler" where
  "client_handler rt method template request req pathParams w =
     (case rt_AnnotateContext rt req method template of
        Some st \<Rightarrow> Some (HTTPError st, w)
      | None \<Rightarrow> rest_reply (request req pathParams w))"

definition server_handler ::
  "('b, 'd) gw_runtime \<Rightarrow> string \<Rightarrow> string \<Rightarrow> ('b rest_request \<Rightarrow> path_params \<Rightarrow> (('d, 't) pb_message, 'w) rpc) \<Rightarrow>
   ('b, 'd, 't, 'w) rest_handler" where
  "server_handler rt method template request req pathParams w =
     (case rt_AnnotateIncomingContext rt req method template of
        Some st \<Rightarrow> Some (HTTPError st, w)
      | None \<Rightarrow> rest_reply (request req pathParams w))"

definition register_handler_client ::
  "('b, 'd) gw_runtime \<Rightarrow> ('d, 't, 'w) garden_api \<Rightarrow> (string \<times> rest_pattern \<times> ('b, 'd, 't, 'w) rest_handler) list" where
  "register_handler_client rt client =
     [(''POST'', pattern_StartRun, client_handler rt full_StartRun ''/v1/runs''
         (\<lambda>req ps w. message_of PbRun (request_StartRun rt client req ps w))),
      (''GET'', pattern_GetRun, client_handler rt full_GetRun ''/v1/runs/{run_id}''
         (\<lambda>req ps w. message_of PbRun (request_GetRun rt client req ps w))),
      (''GET'', pattern_ListRuns, client_handler rt full_ListRuns ''/v1/runs''
         (\<lambda>req ps w. message_of PbRunList (request_ListRuns rt client req ps w))),
      (''PATCH'', pattern_UpdateControls, client_handler rt full_UpdateControls ''/v1/runs/{run_id}/controls''
         (\<lambda>req ps w. message_of PbRevision (request_UpdateControls rt client req ps w))),
      (''POST'', pattern_PauseRun, client_handler rt full_PauseRun ''/v1/runs/{run_id}:pause''
         (\<lambda>req ps w. message_of PbRun (request_PauseRun rt client req ps w))),
      (''POST'', pattern_FinishRun, client_handler rt full_FinishRun ''/v1/runs/{run_id}:finish''
         (\<lambda>req ps w. message_of PbSummary (request_FinishRun rt client req ps w))),
      (''GET'', pattern_GetSnapshot, client_handler rt full_GetSnapshot ''/v1/runs/{run_id}/snapshot''
         (\<lambda>req ps w. message_of PbSnapshot (request_GetSnapshot rt client req ps w))),
      (''GET'', pattern_GetTelemetry, client_handler rt full_GetTelemetry ''/v1/runs/{run_id}/telemetry''
         (\<lambda>req ps w. message_of PbTelemetry (request_GetTelemetry rt client req ps w)))]"

definition register_handler_server ::
  "('b, 'd) gw_runtime \<Rightarrow> ('d, 't, 'w) garden_api \<Rightarrow> (string \<times> rest_pattern \<times> ('b, 'd, 't, 'w) rest_handler) list" where
  "register_handler_server rt server =
     [(''POST'', pattern_StartRun, server_handler rt full_StartRun ''/v1/runs''
         (\<lambda>req ps w. message_of PbRun (local_request_StartRun rt server req ps w))),
      (''GET'', pattern_GetRun, server_handler rt full_GetRun ''/v1/runs/{run_id}''
         (\<lambda>req ps w. message_of PbRun (local_request_GetRun rt server req ps w))),
      (''GET'', pattern_ListRuns, server_handler rt full_ListRuns ''/v1/runs''
         (\<lambda>req ps w. message_of PbRunList (local_request_ListRuns rt server req ps w))),
      (''PATCH'', pattern_UpdateControls, server_handler rt full_UpdateControls ''/v1/runs/{run_id}/controls''
         (\<lambda>req ps w. message_of PbRevision (local_request_UpdateControls rt server req ps w))),
      (''POST'', pattern_PauseRun, server_handler rt full_PauseRun ''/v1/runs/{run_id}:pause''
         (\<lambda>req ps w. message_of PbRun (local_request_PauseRun rt server req ps w))),
      (''POST'', pattern_FinishRun, server_handler rt full_FinishRun ''/v1/runs/{run_id}:finish''
         (\<lambda>req ps w. message_of PbSummary (local_request_FinishRun rt server req ps w))),
      (''GET'', pattern_GetSnapshot, server_handler rt full_GetSnapshot ''/v1/runs/{run_id}/snapshot''
         (\<lambda>req ps w. message_of PbSnapshot (local_request_GetSnapshot rt server req ps w))),
      (''GET'', pattern_GetTelemetry, server_handler rt full_GetTelemetry ''/v1/runs/{run_id}/telemetry''
         (\<lambda>req ps w. message_of PbTelemetry (local_request_GetTelemetry rt server req ps w)))]"

text \<open>Registration against an endpoint: only the dialling can fail.\<close>

definition register_handler_from_endpoint ::
  "('b, 'd) gw_runtime \<Rightarrow> (string \<Rightarrow> go_error + (string \<Rightarrow> 'd pb_request \<Rightarrow> (('d, 't) pb_message, 'w) rpc)) \<Rightarrow> string \<Rightarrow>
   go_error + (string \<times> rest_pattern \<times> ('b, 'd, 't, 'w) rest_handler) list" where
  "register_handler_from_endpoint rt dial endpoint =
     (case dial endpoint of
        Inl err \<Rightarrow> Inl err
      | Inr conn \<Rightarrow> Inr (register_handler_client rt (new_garden_service_client conn)))"

definition new_gateway ::
  "('b, 'd) gw_runtime \<Rightarrow> (string \<Rightarrow> go_error + (string \<Rightarrow> 'd pb_request \<Rightarrow> (('d, 't) pb_message, 'w) rpc)) \<Rightarrow> string \<Rightarrow>
   go_error + (string \<times> rest_pattern \<times> ('b, 'd, 't, 'w) rest_handler) list" where
  "new_gateway rt dial target =
     (case register_handler_from_endpoint rt dial target of
        Inl err \<Rightarrow> Inl (Errorf [T ''register gateway against '', T target, T '': '', W err])
      | Inr table \<Rightarrow> Inr table)"

text \<open>The mux of the library: the handler of the pattern it picks.\<close>

type_synonym mux_pick = "(string \<times> rest_pattern) list \<Rightarrow> string \<Rightarrow> string \<Rightarrow> (nat \<times> path_params) option"

definition route_keys :: "(string \<times> rest_pattern \<times> 'h) list \<Rightarrow> (string \<times> rest_pattern) list" where
  "route_keys table = map (\<lambda>(m, p, h). (m, p)) table"

definition serve_gateway ::
  "mux_pick \<Rightarrow> (string \<times> rest_pattern \<times> ('b, 'd, 't, 'w) rest_handler) list \<Rightarrow> 'b rest_request \<Rightarrow>
   'w \<Rightarrow> (('d, 't) rest_answer \<times> 'w) option" where
  "serve_gateway pick table req w =
     (case pick (route_keys table) (hq_Method req) (hq_Path req) of
        None \<Rightarrow> Some (NoRoute, w)
      | Some (i, pathParams) \<Rightarrow> (case table ! i of (m, p, handler) \<Rightarrow> handler req pathParams w))"

subsection \<open>The daemon's routes\<close>

text \<open>
  \<^verbatim>\<open>http.ServeMux\<close> on a clean path: the more specific pattern wins, a \<^verbatim>\<open>GET\<close> pattern also serves
  \<^verbatim>\<open>HEAD\<close>, a path known under other methods only is refused with 405.
\<close>

fun split_slash :: "string \<Rightarrow> string list" where
  "split_slash [] = [[]]"
| "split_slash (c # cs) =
     (if c = CHR ''/'' then [] # split_slash cs
      else case split_slash cs of [] \<Rightarrow> [[c]] | s # ss \<Rightarrow> (c # s) # ss)"

definition stream_run :: "string \<Rightarrow> string option" where
  "stream_run path =
     (case split_slash path of
        [a, b, c, runID, e] \<Rightarrow>
          if a = '''' \<and> b = ''v1'' \<and> c = ''runs'' \<and> runID \<noteq> '''' \<and> e = ''stream'' then Some runID else None
      | _ \<Rightarrow> None)"

datatype route = ToGateway | ToStream string | ToMetrics | ToHealthz | ToReadyz | Redirect string | MethodNotAllowed | RouteNotFound

definition routes :: "string \<Rightarrow> string \<Rightarrow> route" where
  "routes method path =
     (let get = (\<lambda>r. if method \<in> {''GET'', ''HEAD''} then r else MethodNotAllowed) in
      case stream_run path of
        Some runID \<Rightarrow> if method \<in> {''GET'', ''HEAD''} then ToStream runID else ToGateway
      | None \<Rightarrow>
          if take 4 path = ''/v1/'' then ToGateway
          else if path = ''/v1'' then Redirect ''/v1/''
          else if path = ''/metrics'' then get ToMetrics
          else if path = ''/healthz'' then get ToHealthz
          else if path = ''/readyz'' then get ToReadyz
          else RouteNotFound)"

datatype ('d, 't) public_answer =
  Rest "('d, 't) rest_answer" | Plain http_response | StreamOf string | MetricsPage | Moved string | MuxCode int

definition serve_public ::
  "mux_pick \<Rightarrow> (string \<times> rest_pattern \<times> ('b, 'd, 't, ('l, 'r, 'c) daemon_state) rest_handler) list \<Rightarrow> bool \<Rightarrow> http_response \<Rightarrow>
   'b rest_request \<Rightarrow> ('l, 'r, 'c) daemon_state \<Rightarrow> (('d, 't) public_answer \<times> ('l, 'r, 'c) daemon_state) option" where
  "serve_public pick gateway ready rw req w =
     (case routes (hq_Method req) (hq_Path req) of
        ToGateway \<Rightarrow> map_option (map_prod Rest (\<lambda>w. w)) (serve_gateway pick gateway req w)
      | ToStream runID \<Rightarrow> Some (StreamOf runID, w)
      | ToMetrics \<Rightarrow> Some (MetricsPage, w)
      | ToHealthz \<Rightarrow> Some (Plain (healthz rw), w)
      | ToReadyz \<Rightarrow> Some (Plain (readyz ready rw), w)
      | Redirect target \<Rightarrow> Some (Moved target, w)
      | MethodNotAllowed \<Rightarrow> Some (MuxCode 405, w)
      | RouteNotFound \<Rightarrow> Some (MuxCode 404, w))"

subsection \<open>The contract of the REST surface\<close>

text \<open>
  The routes as the contract states them, in the order of registration, and the request each makes
  of the service for the run its path names. A run ID is plain when no character of it has a meaning
  in a path.
\<close>

definition rest_routes :: "(string \<times> string) list" where
  "rest_routes =
     [(''POST'', ''/v1/runs''), (''GET'', ''/v1/runs/{run_id}''), (''GET'', ''/v1/runs''),
      (''PATCH'', ''/v1/runs/{run_id}/controls''), (''POST'', ''/v1/runs/{run_id}:pause''),
      (''POST'', ''/v1/runs/{run_id}:finish''), (''GET'', ''/v1/runs/{run_id}/snapshot''),
      (''GET'', ''/v1/runs/{run_id}/telemetry'')]"

function (sequential) expand :: "string \<Rightarrow> string \<Rightarrow> string" where
  "expand runID [] = []"
| "expand runID (c # cs) =
     (if take 8 (c # cs) = ''{run_id}'' then runID @ expand runID (drop 7 cs) else c # expand runID cs)"
  by pat_completeness auto
termination expand by (relation "measure (length \<circ> snd)") auto

definition plain_char :: "char \<Rightarrow> bool" where
  "plain_char c \<longleftrightarrow> (let n = of_char c :: nat in 48 \<le> n \<and> n \<le> 57 \<or> 65 \<le> n \<and> n \<le> 90 \<or> 97 \<le> n \<and> n \<le> 122 \<or> n \<in> {45, 95})"

definition plain_id :: "string \<Rightarrow> bool" where
  "plain_id s \<longleftrightarrow> s \<noteq> [] \<and> list_all plain_char s"

definition rest_contract ::
  "('b, 'd) gw_runtime \<Rightarrow> string \<Rightarrow> string \<Rightarrow> string \<Rightarrow> 'b \<Rightarrow> grpc_status + 'd pb_request" where
  "rest_contract rt method template runID body =
     (if method = ''POST'' \<and> template = ''/v1/runs'' then map_sum (\<lambda>st. st) StartRunRequest (decoded (decode_start rt body))
      else if template = ''/v1/runs'' then Inr ListRunsRequest
      else if template = ''/v1/runs/{run_id}'' then Inr (GetRunRequest runID)
      else if template = ''/v1/runs/{run_id}/controls''
        then map_sum (\<lambda>st. st) (UpdateControlsRequest runID) (decoded (decode_controls rt body))
      else if template = ''/v1/runs/{run_id}:pause''
        then map_sum (\<lambda>st. st) (\<lambda>m. PauseRunRequest runID (snd m)) (decoded (decode_pause rt body))
      else if template = ''/v1/runs/{run_id}:finish''
        then map_sum (\<lambda>st. st) (\<lambda>_. FinishRunRequest runID) (decoded (decode_finish rt body))
      else if template = ''/v1/runs/{run_id}/snapshot'' then Inr (GetSnapshotRequest runID)
      else Inr (GetTelemetryRequest runID))"

text \<open>The handler of the service behind a request.\<close>

fun call_service ::
  "('d, 't) pb_time \<Rightarrow> ('fs, 'l, 'r) spine \<Rightarrow> 'c chain_ops \<Rightarrow> ('l, 'r) log_opener \<Rightarrow> int \<Rightarrow> 'd pb_request \<Rightarrow>
   (('d, 't) pb_message, ('l, 'r, 'c) registry) rpc" where
  "call_service pt sp ch opn now (StartRunRequest m) g = message_of PbRun (svc_start_run pt sp ch opn now (Some m) g)"
| "call_service pt sp ch opn now (GetRunRequest runID) g = message_of PbRun (Some (svc_get_run pt runID g, g))"
| "call_service pt sp ch opn now ListRunsRequest g = Some (Inr (PbRunList (svc_list_runs pt g)), g)"
| "call_service pt sp ch opn now (UpdateControlsRequest runID c) g = message_of PbRevision (svc_update_controls now runID c g)"
| "call_service pt sp ch opn now (PauseRunRequest runID paused) g =
     message_of PbRun (svc_pause_run pt sp ch now runID paused g)"
| "call_service pt sp ch opn now (FinishRunRequest runID) g = message_of PbSummary (svc_finish_run pt sp ch now runID g)"
| "call_service pt sp ch opn now (GetSnapshotRequest runID) g = message_of PbSnapshot (Some (svc_get_snapshot pt sp now runID g, g))"
| "call_service pt sp ch opn now (GetTelemetryRequest runID) g =
     message_of PbTelemetry (Some (svc_get_telemetry pt sp now runID g, g))"

lemma garden_service_call:
  "call_api (garden_service pt sp ch opn now) q (g, obs) =
     map_option (\<lambda>(r, g'). (r, g', obs)) (call_service pt sp ch opn now q g)"
  by (cases q)
     (simp_all add: garden_service_def on_registry_def message_of_def option.map_comp comp_def case_prod_unfold map_prod_def)

text \<open>
  The library's documented part: a plain run ID in the place of a template's parameter reaches the
  pattern of that template with the parameter bound; \<^verbatim>\<open>runtime.String\<close> returns its argument; and the
  context of the request at hand is accepted.
\<close>

definition route_params :: "string \<Rightarrow> string \<Rightarrow> path_params" where
  "route_params template runID = (if template = ''/v1/runs'' then Map.empty else [''run_id'' \<mapsto> runID])"

definition garden_keys :: "(string \<times> rest_pattern) list" where
  "garden_keys =
     [(''POST'', pattern_StartRun), (''GET'', pattern_GetRun), (''GET'', pattern_ListRuns), (''PATCH'', pattern_UpdateControls),
      (''POST'', pattern_PauseRun), (''POST'', pattern_FinishRun), (''GET'', pattern_GetSnapshot), (''GET'', pattern_GetTelemetry)]"

definition mux_by_template :: "mux_pick \<Rightarrow> bool" where
  "mux_by_template pick \<longleftrightarrow>
     (\<forall>i runID. i < length rest_routes \<longrightarrow> plain_id runID \<longrightarrow>
        pick garden_keys (fst (rest_routes ! i)) (expand runID (snd (rest_routes ! i)))
          = Some (i, route_params (snd (rest_routes ! i)) runID))"

definition runtime_accepts :: "('b, 'd) gw_runtime \<Rightarrow> 'b rest_request \<Rightarrow> bool" where
  "runtime_accepts rt req \<longleftrightarrow>
     (\<forall>s. rt_String rt s = Inr s) \<and> (\<forall>method template. rt_AnnotateContext rt req method template = None) \<and>
     (\<forall>method template. rt_AnnotateIncomingContext rt req method template = None)"

lemma register_keys [simp]:
  "route_keys (register_handler_client rt client) = garden_keys"
  "route_keys (register_handler_server rt server) = garden_keys"
  by (simp_all add: route_keys_def register_handler_client_def register_handler_server_def garden_keys_def)

lemmas request_defs = request_StartRun_def request_GetRun_def request_ListRuns_def request_UpdateControls_def
  request_PauseRun_def request_FinishRun_def request_GetSnapshot_def request_GetTelemetry_def
lemmas local_request_defs = local_request_StartRun_def local_request_GetRun_def local_request_ListRuns_def
  local_request_UpdateControls_def local_request_PauseRun_def local_request_FinishRun_def local_request_GetSnapshot_def
  local_request_GetTelemetry_def

lemma less_8_cases: "i < 8 \<Longrightarrow> i \<in> {0, 1, 2, 3, 4, 5, 6, 7 :: nat}"
  by (auto simp: less_Suc_eq numeral_eq_Suc)

lemma message_of_Inl: "message_of mk (Some (Inl st, w)) = Some (Inl st, w)"
  by (simp add: message_of_def)

text \<open>Every registered closure makes the request of its route, over either registration.\<close>

definition asked :: "('d, 't, 'w) garden_api \<Rightarrow> grpc_status + 'd pb_request \<Rightarrow> 'w \<Rightarrow> (('d, 't) rest_answer \<times> 'w) option" where
  "asked api want w = (case want of Inl st \<Rightarrow> Some (HTTPError st, w) | Inr q \<Rightarrow> rest_reply (call_api api q w))"

lemma registered_handlers:
  assumes "i < length rest_routes" "runtime_accepts rt req"
  shows "snd (snd (register_handler_client rt client ! i)) req (route_params (snd (rest_routes ! i)) runID) w =
      asked client (rest_contract rt (fst (rest_routes ! i)) (snd (rest_routes ! i)) runID (hq_Body req)) w"
    "snd (snd (register_handler_server rt server ! i)) req (route_params (snd (rest_routes ! i)) runID) w =
      asked server (rest_contract rt (fst (rest_routes ! i)) (snd (rest_routes ! i)) runID (hq_Body req)) w"
proof -
  have i: "i \<in> {0, 1, 2, 3, 4, 5, 6, 7}" using assms(1) less_8_cases by (simp add: rest_routes_def)
  note rt = assms(2) [unfolded runtime_accepts_def]
  show "snd (snd (register_handler_client rt client ! i)) req (route_params (snd (rest_routes ! i)) runID) w =
      asked client (rest_contract rt (fst (rest_routes ! i)) (snd (rest_routes ! i)) runID (hq_Body req)) w"
    using i rt
    by (elim insertE emptyE)
       (auto simp: asked_def register_handler_client_def client_handler_def request_defs rest_routes_def rest_contract_def
        path_run_id_def route_params_def message_of_Inl rest_reply_def split: sum.split)
  show "snd (snd (register_handler_server rt server ! i)) req (route_params (snd (rest_routes ! i)) runID) w =
      asked server (rest_contract rt (fst (rest_routes ! i)) (snd (rest_routes ! i)) runID (hq_Body req)) w"
    using i rt
    by (elim insertE emptyE)
       (auto simp: asked_def register_handler_server_def server_handler_def local_request_defs rest_routes_def rest_contract_def
        path_run_id_def route_params_def message_of_Inl rest_reply_def split: sum.split)
qed

text \<open>No route of the contract is shadowed by the stream's.\<close>

lemma plain_no_slash: "plain_id s \<Longrightarrow> CHR ''/'' \<notin> set s"
  by (auto simp: plain_id_def list_all_iff plain_char_def)

lemma split_slash_append: "CHR ''/'' \<notin> set s \<Longrightarrow> split_slash (s @ t) = (s @ hd (split_slash t)) # tl (split_slash t)"
proof (induction s)
  case Nil
  have "split_slash t \<noteq> []" by (cases t) (simp_all split: list.split)
  then show ?case by simp
qed auto

lemma expand_runs:
  "expand runID ''/v1/runs'' = ''/v1/runs''"
  "expand runID ''/v1/runs/{run_id}'' = ''/v1/runs/'' @ runID @ ''''"
  "expand runID ''/v1/runs/{run_id}/controls'' = ''/v1/runs/'' @ runID @ ''/controls''"
  "expand runID ''/v1/runs/{run_id}:pause'' = ''/v1/runs/'' @ runID @ '':pause''"
  "expand runID ''/v1/runs/{run_id}:finish'' = ''/v1/runs/'' @ runID @ '':finish''"
  "expand runID ''/v1/runs/{run_id}/snapshot'' = ''/v1/runs/'' @ runID @ ''/snapshot''"
  "expand runID ''/v1/runs/{run_id}/telemetry'' = ''/v1/runs/'' @ runID @ ''/telemetry''"
  by simp_all

lemma split_runs:
  "plain_id runID \<Longrightarrow>
   split_slash (''/v1/runs/'' @ runID @ t) = '''' # ''v1'' # ''runs'' # (runID @ hd (split_slash t)) # tl (split_slash t)"
  by (simp add: split_slash_append plain_no_slash)

definition contract_suffixes :: "string list" where
  "contract_suffixes = ['''', ''/controls'', '':pause'', '':finish'', ''/snapshot'', ''/telemetry'']"

lemma run_path_to_gateway:
  assumes "plain_id runID" "t \<in> set contract_suffixes"
  shows "routes method (''/v1/runs/'' @ runID @ t) = ToGateway"
proof -
  have "tl (split_slash t) \<noteq> [''stream'']" using assms(2) by (auto simp: contract_suffixes_def)
  then have "stream_run (''/v1/runs/'' @ runID @ t) = None"
    unfolding stream_run_def split_runs [OF assms(1)] by (auto split: list.split)
  then show ?thesis by (simp add: routes_def)
qed

lemma rest_routes_cases:
  assumes "i < length rest_routes"
  obtains "snd (rest_routes ! i) = ''/v1/runs''" |
    t where "t \<in> set contract_suffixes" "\<And>runID. expand runID (snd (rest_routes ! i)) = ''/v1/runs/'' @ runID @ t"
proof -
  have "list_all (\<lambda>(m, p). p = ''/v1/runs'' \<or> (\<exists>t \<in> set contract_suffixes. \<forall>runID. expand runID p = ''/v1/runs/'' @ runID @ t))
      rest_routes"
    unfolding rest_routes_def list.pred_inject case_prod_conv expand_runs contract_suffixes_def by simp
  then show thesis using assms that by (fastforce simp: list_all_length case_prod_unfold)
qed

lemma contract_path_to_gateway:
  assumes "i < length rest_routes" "plain_id runID"
  shows "routes (fst (rest_routes ! i)) (expand runID (snd (rest_routes ! i))) = ToGateway"
proof (rule rest_routes_cases [OF assms(1)])
  assume "snd (rest_routes ! i) = ''/v1/runs''"
  then show ?thesis by (simp add: expand_runs routes_def stream_run_def)
next
  fix t
  assume "t \<in> set contract_suffixes" "\<And>runID. expand runID (snd (rest_routes ! i)) = ''/v1/runs/'' @ runID @ t"
  then show ?thesis using run_path_to_gateway [OF assms(2)] by simp
qed

subsection \<open>REST is the service\<close>

lemma serve_gateway_picked:
  assumes "mux_by_template pick" "i < length rest_routes" "plain_id runID" "route_keys table = garden_keys"
    "hq_Method req = fst (rest_routes ! i)" "hq_Path req = expand runID (snd (rest_routes ! i))"
  shows "serve_gateway pick table req w = snd (snd (table ! i)) req (route_params (snd (rest_routes ! i)) runID) w"
  using assms by (simp add: serve_gateway_def mux_by_template_def case_prod_unfold)

text \<open>
  C34. A REST call is the gRPC call of the contract: a request whose method and path are those of a
  route of the contract, for a plain run ID, goes through the daemon's routes, the gateway, the gRPC
  connection and the interceptor to the service and comes back as the service answered it, measured
  exactly once under its method and code; a body that does not decode is refused before the service
  and changes nothing.
\<close>

theorem rest_is_the_service:
  assumes "mux_by_template pick" "runtime_accepts rt req"
    "connected conn (garden_service pt sp ch opn now) (Some (unary_server_interceptor rec))"
    "dial target = Inr conn" "new_gateway rt dial target = Inr gateway"
    "(method, template) \<in> set rest_routes" "plain_id runID" "hq_Method req = method" "hq_Path req = expand runID template"
  shows "serve_public pick gateway ready rw req (g, obs) =
    (case rest_contract rt method template runID (hq_Body req) of
       Inl st \<Rightarrow> Some (Rest (HTTPError st), g, obs)
     | Inr q \<Rightarrow>
         map_option (\<lambda>(r, g'). (Rest (case_sum HTTPError Forward r), g', observe rec (ObserveRPC (method_of q) (code_name r)) obs))
           (call_service pt sp ch opn now q g))"
proof -
  obtain i where i: "i < length rest_routes" "rest_routes ! i = (method, template)"
    using assms(6) by (auto simp: in_set_conv_nth)
  let ?client = "new_garden_service_client conn" and ?want = "rest_contract rt method template runID (hq_Body req)"
  have gw: "gateway = register_handler_client rt ?client"
    using assms(4,5) by (simp add: new_gateway_def register_handler_from_endpoint_def)
  have "serve_gateway pick gateway req (g, obs) = asked ?client ?want (g, obs)"
    using serve_gateway_picked [OF assms(1) i(1) assms(7), of gateway req] registered_handlers(1) [OF i(1) assms(2)]
      assms(8,9) i(2) by (simp add: gw)
  moreover have "routes (hq_Method req) (hq_Path req) = ToGateway"
    using contract_path_to_gateway [OF i(1) assms(7)] i(2) assms(8,9) by simp
  ultimately show ?thesis
    by (auto simp: serve_public_def asked_def client_call [OF assms(3)] garden_service_call rest_reply_def observed_def
        option.map_comp comp_def case_prod_unfold split: sum.split)
qed

text \<open>
  Requests without a body: the decoder reports the end of the input and leaves the zero message, so
  a \<^verbatim>\<open>POST\<close> to \<^verbatim>\<open>:pause\<close> asks to resume, and a \<^verbatim>\<open>PATCH\<close> of the controls is refused by the service.
\<close>

lemma empty_bodies:
  assumes "decode_pause rt body = ((r, False), Some io_EOF)" "decode_controls rt body = (None, Some io_EOF)"
  shows "rest_contract rt ''POST'' ''/v1/runs/{run_id}:pause'' runID body = Inr (PauseRunRequest runID False)"
    "rest_contract rt ''PATCH'' ''/v1/runs/{run_id}/controls'' runID body = Inr (UpdateControlsRequest runID None)"
    "call_service pt sp ch opn now (UpdateControlsRequest runID None) g =
       Some (Inl (Status InvalidArgument (Errorf [T ''controls are required''])), g)"
  using assms by (simp_all add: rest_contract_def decoded_def io_EOF_def svc_update_controls_def message_of_Inl)

text \<open>
  Calling the service in process, the other registration the generator offers, answers the same; only
  the recorder does not see the call.
\<close>

lemma in_process_gateway:
  assumes "mux_by_template pick" "runtime_accepts rt req"
    "connected conn srv (Some (unary_server_interceptor rec))" "i < length rest_routes" "plain_id runID"
    "hq_Method req = fst (rest_routes ! i)" "hq_Path req = expand runID (snd (rest_routes ! i))"
  shows "map_option (\<lambda>(a, g, obs). (a, g)) (serve_gateway pick (register_handler_client rt (new_garden_service_client conn)) req w)
    = map_option (\<lambda>(a, g, obs). (a, g)) (serve_gateway pick (register_handler_server rt srv) req w)"
  by (simp add: serve_gateway_picked [OF assms(1,4,5) _ assms(6,7)] registered_handlers [OF assms(4,2)] asked_def client_call [OF assms(3)] rest_reply_def observed_def
      option.map_comp comp_def case_prod_unfold split: sum.split)

text \<open>
  A mux that keeps the library's law: it runs the operations of a pattern on the segments of the
  path, in the order of the table.
\<close>

fun run_ops :: "string list \<Rightarrow> int list \<Rightarrow> string list \<Rightarrow> string list \<Rightarrow> path_params \<Rightarrow> path_params option" where
  "run_ops pool [] segs st ps = (if segs = [] then Some ps else None)"
| "run_ops pool [oper] segs st ps = None"
| "run_ops pool (oper # k # ops) segs st ps =
     (if oper = 1 \<or> oper = 2 then
        (case segs of
           [] \<Rightarrow> None
         | s # ss \<Rightarrow> if oper = 1 \<or> s = pool ! nat k then run_ops pool ops ss (s # st) ps else None)
      else if oper = 4 \<and> k = 1 then run_ops pool ops segs st ps
      else if oper = 5 then run_ops pool ops segs (tl st) (ps(pool ! nat k \<mapsto> hd st))
      else None)"

definition strip_verb :: "string \<Rightarrow> string list \<Rightarrow> string list option" where
  "strip_verb verb segs =
     (let s = last segs; n = length s - length verb - 1 in
      if verb = '''' then Some segs
      else if drop n s = CHR '':'' # verb then Some (butlast segs @ [take n s]) else None)"

fun op_pick :: "nat \<Rightarrow> mux_pick" where
  "op_pick i [] method path = None"
| "op_pick i ((m, p) # keys) method path =
     (case (if m = method then strip_verb (pat_Verb p) (tl (split_slash path)) else None) of
        None \<Rightarrow> op_pick (Suc i) keys method path
      | Some segs \<Rightarrow>
          (case run_ops (pat_Pool p) (pat_Ops p) segs [] Map.empty of
             None \<Rightarrow> op_pick (Suc i) keys method path
           | Some ps \<Rightarrow> Some (i, ps)))"

lemmas pattern_defs = pattern_StartRun_def pattern_GetRun_def pattern_ListRuns_def pattern_UpdateControls_def
  pattern_PauseRun_def pattern_FinishRun_def pattern_GetSnapshot_def pattern_GetTelemetry_def

lemma op_pick_run:
  assumes "plain_id runID"
  shows "op_pick 0 garden_keys ''GET'' (''/v1/runs/'' @ runID @ '''') = Some (1, [''run_id'' \<mapsto> runID])"
    "op_pick 0 garden_keys ''PATCH'' (''/v1/runs/'' @ runID @ ''/controls'') = Some (3, [''run_id'' \<mapsto> runID])"
    "op_pick 0 garden_keys ''POST'' (''/v1/runs/'' @ runID @ '':pause'') = Some (4, [''run_id'' \<mapsto> runID])"
    "op_pick 0 garden_keys ''POST'' (''/v1/runs/'' @ runID @ '':finish'') = Some (5, [''run_id'' \<mapsto> runID])"
    "op_pick 0 garden_keys ''GET'' (''/v1/runs/'' @ runID @ ''/snapshot'') = Some (6, [''run_id'' \<mapsto> runID])"
    "op_pick 0 garden_keys ''GET'' (''/v1/runs/'' @ runID @ ''/telemetry'') = Some (7, [''run_id'' \<mapsto> runID])"
  unfolding garden_keys_def pattern_defs op_pick.simps split_runs [OF assms]
  by (simp_all add: strip_verb_def)

lemma rest_routes_nth:
  "rest_routes ! 0 = (''POST'', ''/v1/runs'')" "rest_routes ! 1 = (''GET'', ''/v1/runs/{run_id}'')"
  "rest_routes ! 2 = (''GET'', ''/v1/runs'')" "rest_routes ! 3 = (''PATCH'', ''/v1/runs/{run_id}/controls'')"
  "rest_routes ! 4 = (''POST'', ''/v1/runs/{run_id}:pause'')" "rest_routes ! 5 = (''POST'', ''/v1/runs/{run_id}:finish'')"
  "rest_routes ! 6 = (''GET'', ''/v1/runs/{run_id}/snapshot'')" "rest_routes ! 7 = (''GET'', ''/v1/runs/{run_id}/telemetry'')"
  by (simp_all add: rest_routes_def)

lemma op_pick_by_template: "mux_by_template (op_pick 0)"
  unfolding mux_by_template_def
proof (intro allI impI)
  fix i :: nat and runID
  assume "i < length rest_routes" and p: "plain_id runID"
  then have i: "i \<in> {0, 1, 2, 3, 4, 5, 6, 7}" using less_8_cases by (simp add: rest_routes_def)
  have runs: "op_pick 0 garden_keys ''POST'' ''/v1/runs'' = Some (0, Map.empty)"
    "op_pick 0 garden_keys ''GET'' ''/v1/runs'' = Some (2, Map.empty)"
    by (simp_all add: garden_keys_def pattern_defs strip_verb_def)
  from i show "op_pick 0 garden_keys (fst (rest_routes ! i)) (expand runID (snd (rest_routes ! i))) =
      Some (i, route_params (snd (rest_routes ! i)) runID)"
    by (elim insertE emptyE)
       (simp_all only: rest_routes_nth fst_conv snd_conv expand_runs op_pick_run [OF p] runs, simp_all add: route_params_def)
qed

text \<open>A runtime whose bodies are the messages themselves, with no body for an empty one.\<close>

definition zero_start :: "'d pb_start_request" where
  "zero_start = \<lparr>ps_RunId = '''', ps_Seed = 0, ps_Organisms = 0, ps_Controls = None, ps_TickInterval = None, ps_MaxTicks = 0,
     ps_DuplicateEvery = 0\<rparr>"

definition message_runtime :: "('d pb_request option, 'd) gw_runtime" where
  "message_runtime =
     \<lparr>decode_start = (\<lambda>b. case b of None \<Rightarrow> (zero_start, Some io_EOF) | Some (StartRunRequest m) \<Rightarrow> (m, None)
                       | _ \<Rightarrow> (zero_start, Some (Lib ''syntax''))),
      decode_controls = (\<lambda>b. case b of None \<Rightarrow> (None, Some io_EOF) | Some (UpdateControlsRequest _ c) \<Rightarrow> (c, None)
                       | _ \<Rightarrow> (None, Some (Lib ''syntax''))),
      decode_pause = (\<lambda>b. case b of None \<Rightarrow> (('''', False), Some io_EOF) | Some (PauseRunRequest r p) \<Rightarrow> ((r, p), None)
                       | _ \<Rightarrow> (('''', False), Some (Lib ''syntax''))),
      decode_finish = (\<lambda>b. case b of None \<Rightarrow> ('''', Some io_EOF) | Some (FinishRunRequest r) \<Rightarrow> (r, None)
                       | _ \<Rightarrow> ('''', Some (Lib ''syntax''))),
      rt_String = Inr, rt_AnnotateContext = (\<lambda>_ _ _. None), rt_AnnotateIncomingContext = (\<lambda>_ _ _. None)\<rparr>"

lemma message_runtime_accepts: "runtime_accepts message_runtime req"
  by (simp add: runtime_accepts_def message_runtime_def)

lemma connected_self: "connected (serve_rpc srv interceptor) srv interceptor"
  by (simp add: connected_def)

theorem rest_is_the_service_witness:
  "\<exists>(gateway :: (string \<times> rest_pattern \<times>
        ((int \<times> int) pb_request option, int \<times> int, int \<times> int, mem_registry \<times> metric_call list) rest_handler) list) st.
     new_gateway message_runtime
       (\<lambda>_. Inr (serve_rpc (garden_service split_time mem_spine list_chain (ephemeral_logs mem_spine) 0)
          (Some (unary_server_interceptor True)))) '':9090'' = Inr gateway \<and>
     serve_public (op_pick 0) gateway True \<lparr>hs_Code = 0, hs_Header = [], hs_Body = ''''\<rparr>
       \<lparr>hq_Method = ''POST'', hq_Path = ''/v1/runs/run-0009:finish'', hq_Header = (\<lambda>_. ''''), hq_Body = None\<rparr> (demo_registry, []) =
       Some (Rest (HTTPError st), demo_registry, [ObserveRPC ''/signal.garden.v1.GardenService/FinishRun'' ''NotFound'']) \<and>
     status_code st = NotFound"
proof -
  let ?srv = "garden_service split_time mem_spine list_chain (ephemeral_logs mem_spine) 0"
  let ?dial = "\<lambda>_ :: string. Inr (serve_rpc ?srv (Some (unary_server_interceptor True)))"
  let ?req = "\<lparr>hq_Method = ''POST'', hq_Path = ''/v1/runs/run-0009:finish'', hq_Header = (\<lambda>_. ''''), hq_Body = None\<rparr>
    :: (int \<times> int) pb_request option rest_request"
  obtain gateway where gw: "new_gateway message_runtime ?dial '':9090'' = Inr gateway"
    by (simp add: new_gateway_def register_handler_from_endpoint_def)
  have id: "plain_id ''run-0009''" by (simp add: plain_id_def plain_char_def)
  have rt: "(''POST'', ''/v1/runs/{run_id}:finish'') \<in> set rest_routes" by (simp add: rest_routes_def)
  have path: "hq_Path ?req = expand ''run-0009'' ''/v1/runs/{run_id}:finish''" by simp
  have want: "rest_contract message_runtime ''POST'' ''/v1/runs/{run_id}:finish'' ''run-0009'' (hq_Body ?req)
      = Inr (FinishRunRequest ''run-0009'')"
    by (simp add: rest_contract_def message_runtime_def decoded_def io_EOF_def)
  have fin: "svc_finish_run split_time mem_spine list_chain 0 ''run-0009'' demo_registry =
      Some (Inl (Status NotFound (Errorf [W (Sentinel ErrRunNotFound), T '': '', T ''run-0009''])), demo_registry)"
    using demo_registry_ok by (simp add: svc_finish_run_def finish_run_def on_run_def lookup_run_def reply_def to_status_def)
  from rest_is_the_service [OF op_pick_by_template message_runtime_accepts connected_self refl gw rt id _ path,
      of True "\<lparr>hs_Code = 0, hs_Header = [], hs_Body = ''''\<rparr>" demo_registry "[]"]
  have "serve_public (op_pick 0) gateway True \<lparr>hs_Code = 0, hs_Header = [], hs_Body = ''''\<rparr> ?req (demo_registry, []) =
      Some (Rest (HTTPError (Status NotFound (Errorf [W (Sentinel ErrRunNotFound), T '': '', T ''run-0009'']))),
        demo_registry, [ObserveRPC ''/signal.garden.v1.GardenService/FinishRun'' ''NotFound''])"
    unfolding want by (simp add: fin message_of_Inl code_name_def observe_def full_names)
  with gw show ?thesis by auto
qed

end
