(* ===== verification/Programs.thy ===== *)
theory Programs
  imports Report Gateway
begin

text \<open>
  The two entry points: \<^verbatim>\<open>realMain\<close> of \<^verbatim>\<open>cmd/signalgarden/main.go\<close> with the live loop of \<^verbatim>\<open>live.go\<close>,
  and \<^verbatim>\<open>realMain\<close> of \<^verbatim>\<open>cmd/signalgardend/main.go\<close> with the set-up of \<^verbatim>\<open>internal/tracing/tracing.go\<close>.
  The command line is the flags after \<^verbatim>\<open>flag.Parse\<close>; the environment, the network and the signals are
  parameters. What goes to standard error is left out.
\<close>

subsection \<open>The command line\<close>

record cli_flags =
  fl_run :: string
  fl_runSet :: bool
  fl_seed :: int
  fl_ticks :: int
  fl_organisms :: int
  fl_rate :: int
  fl_rain :: int
  fl_growth :: int
  fl_pest :: int
  fl_duplicate :: int
  fl_live :: bool
  fl_interval :: int
  fl_dataDir :: string
  fl_replay :: bool
  fl_workers :: int
  fl_batch :: int
  fl_load :: bool
  fl_daemon :: string
  fl_duration :: int
  fl_poll :: int

text \<open>The flags of a command line that sets none.\<close>

definition default_flags :: cli_flags where
  "default_flags =
     \<lparr>fl_run = ''run-local'', fl_runSet = False, fl_seed = 1, fl_ticks = 30, fl_organisms = 20,
      fl_rate = EventsPerTick default_controls, fl_rain = RainWeight default_controls,
      fl_growth = GrowthWeight default_controls, fl_pest = PestWeight default_controls, fl_duplicate = 0, fl_live = False,
      fl_interval = default_tick_interval, fl_dataDir = '''', fl_replay = False, fl_workers = 0, fl_batch = 0, fl_load = False,
      fl_daemon = ''localhost:9090'', fl_duration = 10 * 10 ^ 9, fl_poll = 500 * 10 ^ 6\<rparr>"

definition flag_controls :: "cli_flags \<Rightarrow> controls" where
  "flag_controls f =
     \<lparr>EventsPerTick = fl_rate f, RainWeight = fl_rain f, GrowthWeight = fl_growth f, PestWeight = fl_pest f,
      WorkerCount = fl_workers f, BatchSize = fl_batch f, FailSnapshotEvery = 0\<rparr>"

record live_config =
  lv_RunID :: string
  lv_Seed :: int
  lv_MaxTicks :: int
  lv_Organisms :: int
  lv_Controls :: controls
  lv_TickInterval :: int
  lv_DuplicateEvery :: int
  lv_DataDir :: string

datatype cli_mode =
    RefuseMode go_error
  | ReplayMode string string
  | LoadMode load_config
  | LiveMode live_config
  | BatchMode run_config

definition choose_mode :: "cli_flags \<Rightarrow> cli_mode" where
  "choose_mode f =
     (if fl_replay f then
        (if fl_dataDir f = '''' then RefuseMode (Errorf [T ''-replay needs -data to say where the run's history is''])
         else ReplayMode (fl_dataDir f) (fl_run f))
      else if fl_load f then
        LoadMode \<lparr>lc_Daemon = fl_daemon f, lc_RunID = (if fl_runSet f then fl_run f else ''''), lc_Seed = fl_seed f,
              lc_Organisms = fl_organisms f, lc_Controls = flag_controls f, lc_TickInterval = fl_interval f,
              lc_DuplicateEvery = fl_duplicate f, lc_Duration = fl_duration f, lc_Poll = fl_poll f\<rparr>
      else if fl_live f then
        LiveMode \<lparr>lv_RunID = fl_run f, lv_Seed = fl_seed f, lv_MaxTicks = fl_ticks f, lv_Organisms = fl_organisms f,
              lv_Controls = flag_controls f, lv_TickInterval = fl_interval f, lv_DuplicateEvery = fl_duplicate f,
              lv_DataDir = fl_dataDir f\<rparr>
      else
        BatchMode \<lparr>rc_RunID = fl_run f, rc_Seed = fl_seed f, rc_Ticks = fl_ticks f, rc_Organisms = fl_organisms f,
               rc_Controls = flag_controls f, rc_ControlChanges = [], rc_DuplicateEvery = fl_duplicate f\<rparr>)"

subsection \<open>The live loop\<close>

text \<open>
  An arm of the \<^verbatim>\<open>select\<close>: a frame, the closed channel, the interrupt; and the registry as the
  engine and the reader of typed commands leave it in between.
\<close>

datatype ('l, 'r, 'c) live_arm = Frame garden_snapshot | Closed | Interrupt | Others "('l, 'r, 'c) registry"

datatype live_end = Waiting | Returned "go_error option"

text \<open>\<open>quit\<close> is whether the interrupt is still selected on; \<open>wr\<close> is the writer's answer to a text.\<close>

fun live_select ::
  "('fs, 'l, 'r) spine \<Rightarrow> 'c chain_ops \<Rightarrow> int \<Rightarrow> (go_error \<Rightarrow> string) \<Rightarrow> (string \<Rightarrow> go_error option) \<Rightarrow> string \<Rightarrow> bool \<Rightarrow>
   ('l, 'r, 'c) live_arm list \<Rightarrow> ('l, 'r, 'c) registry \<Rightarrow> (live_end \<times> string list \<times> ('l, 'r, 'c) registry) option" where
  "live_select sp ch now msg wr runID quit [] g = Some (Waiting, [], g)"
| "live_select sp ch now msg wr runID quit (Others g' # arms) g = live_select sp ch now msg wr runID quit arms g'"
| "live_select sp ch now msg wr runID quit (Frame frame # arms) g =
     (case wr (frame_line frame) of
        Some err \<Rightarrow> Some (Returned (Some err), [], g)
      | None \<Rightarrow> map_option (\<lambda>(e, out, g). (e, frame_line frame # out, g)) (live_select sp ch now msg wr runID quit arms g))"
| "live_select sp ch now msg wr runID quit (Closed # arms) g =
     (case finish_run sp ch now runID g of
        None \<Rightarrow> None
      | Some (Inl err, g) \<Rightarrow> Some (Returned (Some err), [], g)
      | Some (Inr summary, g) \<Rightarrow> Some (Returned (wr (summary_text msg summary)), [summary_text msg summary], g))"
| "live_select sp ch now msg wr runID quit (Interrupt # arms) g =
     (if \<not> quit then live_select sp ch now msg wr runID quit arms g
      else case finish_run sp ch now runID g of
        None \<Rightarrow> None
      | Some (Inl err, g) \<Rightarrow> Some (Returned (Some err), [], g)
      | Some (Inr summary, g) \<Rightarrow> live_select sp ch now msg wr runID False arms g)"

definition live_opener :: "('fs, 'l, 'r) spine \<Rightarrow> live_config \<Rightarrow> ('l, 'r) log_opener" where
  "live_opener sp cfg = (if lv_DataDir cfg \<noteq> '''' then directory_logs sp (lv_DataDir cfg) else ephemeral_logs sp)"

definition live_request :: "live_config \<Rightarrow> start_request" where
  "live_request cfg =
     \<lparr>rq_RunID = lv_RunID cfg, rq_Seed = lv_Seed cfg, rq_Organisms = lv_Organisms cfg, rq_Controls = lv_Controls cfg,
      rq_TickInterval = lv_TickInterval cfg, rq_MaxTicks = lv_MaxTicks cfg, rq_DuplicateEvery = lv_DuplicateEvery cfg,
      rq_SnapshotEvery = 0\<rparr>"

text \<open>The deferred calls close the subscription and then the registry, whatever the loop returned.\<close>

definition run_live ::
  "('fs, 'l, 'r) spine \<Rightarrow> 'c chain_ops \<Rightarrow> int \<Rightarrow> (go_error \<Rightarrow> string) \<Rightarrow> (string \<Rightarrow> go_error option) \<Rightarrow>
   ('l, 'r, 'c) live_arm list \<Rightarrow> live_config \<Rightarrow> (live_end \<times> string list \<times> ('l, 'r, 'c) registry) option" where
  "run_live sp ch now msg wr arms cfg =
     (case start_run sp ch (live_opener sp cfg) now (live_request cfg) (new_registry [WithTickInterval (lv_TickInterval cfg)]) of
        None \<Rightarrow> None
      | Some (Inl err, g) \<Rightarrow> Some (Returned (Some err), [], snd (close_registry sp g))
      | Some (Inr run, g) \<Rightarrow>
          (case subscribe sp now (vw_RunID run) 32 g of
             None \<Rightarrow> None
           | Some (Inl err, g) \<Rightarrow> Some (Returned (Some err), [], snd (close_registry sp g))
           | Some (Inr sub, g) \<Rightarrow>
               map_option (\<lambda>(e, out, g).
                   (e, out, if e = Waiting then g else snd (close_registry sp (detach (vw_RunID run) (sub_id sub) g))))
                 (live_select sp ch now msg wr (vw_RunID run) True arms g)))"

subsection \<open>The program\<close>

datatype ('l, 'r, 'c) cli_outcome =
    Failed go_error
  | Printed string
  | Replayed "go_error + replay_report"
  | Lived live_end "string list" "('l, 'r, 'c) registry"

definition real_main ::
  "('d, 't) pb_time \<Rightarrow> ('fs, 'l, 'r) spine \<Rightarrow> 'c chain_ops \<Rightarrow> int \<Rightarrow> (go_error \<Rightarrow> string) \<Rightarrow> (string \<Rightarrow> go_error option) \<Rightarrow>
   ('l, 'r, 'c) live_arm list \<Rightarrow> go_error option \<Rightarrow> ('d pb_start_request \<Rightarrow> grpc_status + ('d, 't) pb_run) \<Rightarrow>
   ('d, 't) load_arm list \<Rightarrow> (string \<Rightarrow> grpc_status + ('d, 't) pb_run_summary) \<Rightarrow> int \<Rightarrow> cli_flags \<Rightarrow>
   ('l, 'r, 'c) cli_outcome option" where
  "real_main pt sp ch now msg wr arms dial start polls fin elapsed f =
     (case choose_mode f of
        RefuseMode err \<Rightarrow> Some (Failed err)
      | ReplayMode dir runID \<Rightarrow> map_option Replayed (run_replay sp dir runID)
      | LoadMode cfg \<Rightarrow>
          Some (case run_load pt dial start polls fin elapsed cfg of
             Inl err \<Rightarrow> Failed err
           | Inr result \<Rightarrow> (case wr (load_text result) of None \<Rightarrow> Printed (load_text result) | Some err \<Rightarrow> Failed err))
      | LiveMode cfg \<Rightarrow> map_option (\<lambda>(e, out, g). Lived e out g) (run_live sp ch now msg wr arms cfg)
      | BatchMode cfg \<Rightarrow>
          map_option (\<lambda>r. case r of
             Inl err \<Rightarrow> Failed err
           | Inr result \<Rightarrow>
               (case wr (scorecard_text result) of None \<Rightarrow> Printed (scorecard_text result) | Some err \<Rightarrow> Failed err))
            (execute sp ch cfg))"

subsection \<open>The daemon\<close>

datatype tracer = NoopTracer | OtlpTracer string

text \<open>The exporter and the resource are the OpenTelemetry library's: their errors are parameters.\<close>

definition tracing_new :: "go_error option \<Rightarrow> go_error option \<Rightarrow> string \<Rightarrow> go_error + tracer" where
  "tracing_new exporter resource endpoint =
     (if endpoint = '''' then Inr NoopTracer
      else case exporter of
        Some err \<Rightarrow> Inl (Errorf [T ''build OTLP exporter for '', T endpoint, T '': '', W err])
      | None \<Rightarrow>
          (case resource of
             Some err \<Rightarrow> Inl (Errorf [T ''build trace resource: '', W err])
           | None \<Rightarrow> Inr (OtlpTracer endpoint)))"

definition flag_duration :: "(string \<Rightarrow> string) \<Rightarrow> (string \<Rightarrow> int option) \<Rightarrow> string \<Rightarrow> int \<Rightarrow> int" where
  "flag_duration getenv parse key fallback =
     (if getenv key = '''' then fallback
      else case parse (getenv key) of None \<Rightarrow> fallback | Some d \<Rightarrow> d)"

text \<open>How serving ended: a server failed, or a signal arrived and the HTTP server was shut down.\<close>

datatype daemon_stop = ServeFailed go_error | Signalled "go_error option"

text \<open>
  What the process meets: the environment, the listing of the data directory, the listener, the
  gateway's registration, what serving made of the registry, and how serving ended.
\<close>

record ('l, 'r, 'c) daemon_env =
  de_getenv :: "string \<Rightarrow> string"
  de_parseDuration :: "string \<Rightarrow> int option"
  de_exporter :: "go_error option"
  de_resource :: "go_error option"
  de_entries :: "string \<Rightarrow> (go_error \<times> bool) + (string \<times> bool) list"
  de_listen :: "string \<Rightarrow> go_error + string"
  de_gateway :: "string \<Rightarrow> go_error option"
  de_serve :: "('l, 'r, 'c) registry \<Rightarrow> ('l, 'r, 'c) registry"
  de_stop :: daemon_stop

datatype daemon_phase =
    RegistryMade | Recovered "go_error option" | GrpcServing string | Ready | HttpServing string
  | NotReady | HealthDown | HttpShutdown "go_error option" | GrpcStopped | GrpcDrained | TracingFlushed | RegistryClosed

definition daemon_main ::
  "('fs, 'l, 'r) spine \<Rightarrow> 'c chain_ops \<Rightarrow> int \<Rightarrow> ('l, 'r, 'c) daemon_env \<Rightarrow>
   (go_error option \<times> daemon_phase list \<times> ('l, 'r, 'c) registry option) option" where
  "daemon_main sp ch now env =
     (let getenv = de_getenv env;
          grpcAddr = flag_string getenv ''SIGNAL_GARDEN_GRPC_ADDR'' '':9090'';
          httpAddr = flag_string getenv ''SIGNAL_GARDEN_HTTP_ADDR'' '':8080'';
          dataDir = flag_string getenv ''SIGNAL_GARDEN_DATA_DIR'' ''data'';
          tickInterval = flag_duration getenv (de_parseDuration env) ''SIGNAL_GARDEN_TICK_INTERVAL'' default_tick_interval;
          otelEndpoint = flag_string getenv ''SIGNAL_GARDEN_OTEL_ENDPOINT'' ''''
      in case parse_corrupt_policy (flag_string getenv ''SIGNAL_GARDEN_ON_CORRUPT'' ''refuse'') of
           (Some err, _) \<Rightarrow> Some (Some err, [], None)
         | (None, corrupt) \<Rightarrow>
             (case tracing_new (de_exporter env) (de_resource env) otelEndpoint of
                Inl err \<Rightarrow> Some (Some (Errorf [T ''tracing: '', W err]), [], None)
              | Inr tp \<Rightarrow>
                  (case recover_data_dir sp ch (directory_logs sp dataDir) now dataDir (de_entries env dataDir)
                          (new_registry [WithTickInterval tickInterval, WithCorruptPolicy corrupt, WithMetrics True]) of
                     None \<Rightarrow> None
                   | Some (recoverErr, revived, skipped, g) \<Rightarrow>
                       (let started = [RegistryMade, Recovered recoverErr];
                            close = (\<lambda>g. Some (snd (close_registry sp g))) in
                        case de_listen env grpcAddr of
                          Inl err \<Rightarrow>
                            Some (Some (Errorf [T ''listen on '', T grpcAddr, T '': '', W err]), started @ [RegistryClosed], close g)
                        | Inr addr \<Rightarrow>
                            (case de_gateway env addr of
                               Some err \<Rightarrow> Some (Some err, started @ [GrpcServing addr, GrpcStopped, RegistryClosed], close g)
                             | None \<Rightarrow>
                                 (let g = de_serve env g;
                                      serving = started @ [GrpcServing addr, Ready, HttpServing httpAddr] in
                                  case de_stop env of
                                    ServeFailed err \<Rightarrow> Some (Some err, serving @ [NotReady, GrpcStopped, RegistryClosed], close g)
                                  | Signalled (Some err) \<Rightarrow>
                                      Some (Some (Errorf [T ''http shutdown: '', W err]),
                                            serving @ [NotReady, HealthDown, HttpShutdown (Some err), RegistryClosed], close g)
                                  | Signalled None \<Rightarrow>
                                      Some (None, serving @ [NotReady, HealthDown, HttpShutdown None, GrpcDrained, TracingFlushed,
                                                            RegistryClosed], close g)))))))"

text \<open>What the readiness check answers after the phases so far.\<close>

definition ready_after :: "daemon_phase list \<Rightarrow> bool" where
  "ready_after ps = fold (\<lambda>p r. if p = Ready then True else if p = NotReady then False else r) ps False"

text \<open>Ready means recovered, and nothing taken down yet.\<close>

definition ready_is_safe :: "daemon_phase list \<Rightarrow> bool" where
  "ready_is_safe ps \<longleftrightarrow> ready_after ps \<longrightarrow>
     list_ex (\<lambda>p. \<exists>e. p = Recovered e) ps \<and>
     list_all (\<lambda>p. p \<notin> {GrpcStopped, GrpcDrained, TracingFlushed, RegistryClosed} \<and> (\<forall>e. p \<noteq> HttpShutdown e)) ps"

lemma all_prefixes: "list_all P (prefixes ps) \<Longrightarrow> P (take n ps)"
  by (simp add: list_all_iff take_is_prefix)

lemma close_registry_closed: "g_closed (snd (close_registry sp g))"
  by (simp add: close_registry_def)

text \<open>
  The daemon's life: whatever the environment, at every moment it reports ready it has attempted
  recovery and taken nothing down, and once it has made a registry it closes it as its last act; a
  misspelt corruption policy stops it before a registry is made.
\<close>

lemma daemon_lifecycle:
  assumes "daemon_main sp ch now env = Some (err, ps, g)"
  shows "(\<forall>n. ready_is_safe (take n ps)) \<and>
    (ps = [] \<longrightarrow> err \<noteq> None \<and> g = None) \<and>
    (ps \<noteq> [] \<longrightarrow> hd ps = RegistryMade \<and> last ps = RegistryClosed \<and> (\<exists>g'. g = Some g' \<and> g_closed g')) \<and>
    (de_getenv env ''SIGNAL_GARDEN_ON_CORRUPT'' \<notin> {'''', ''refuse'', ''continue''} \<longrightarrow> ps = [])"
proof -
  have "list_all ready_is_safe (prefixes ps) \<and> (ps = [] \<longrightarrow> err \<noteq> None \<and> g = None) \<and>
    (ps \<noteq> [] \<longrightarrow> hd ps = RegistryMade \<and> last ps = RegistryClosed \<and> (\<exists>g'. g = Some g' \<and> g_closed g'))"
    using assms
    by (auto simp: daemon_main_def Let_def ready_is_safe_def ready_after_def close_registry_closed
        split: prod.splits option.splits sum.splits daemon_stop.splits)
  moreover have "ps = []" if "de_getenv env ''SIGNAL_GARDEN_ON_CORRUPT'' \<notin> {'''', ''refuse'', ''continue''}"
    using assms that by (simp add: daemon_main_def Let_def flag_string_def parse_corrupt_policy_def)
  ultimately show ?thesis using all_prefixes by blast
qed

definition quiet_env :: "(contents, int, (core_event \<times> int list) list) daemon_env" where
  "quiet_env =
     \<lparr>de_getenv = (\<lambda>_. ''''), de_parseDuration = (\<lambda>_. None), de_exporter = None, de_resource = None, de_entries = (\<lambda>_. Inr []),
      de_listen = Inr, de_gateway = (\<lambda>_. None), de_serve = (\<lambda>g. g), de_stop = Signalled None\<rparr>"

lemma quiet_env_main:
  "daemon_main mem_spine list_chain 0 quiet_env =
     Some (None, [RegistryMade, Recovered None, GrpcServing '':9090'', Ready, HttpServing '':8080'', NotReady, HealthDown,
       HttpShutdown None, GrpcDrained, TracingFlushed, RegistryClosed],
       Some (snd (close_registry mem_spine
         (new_registry [WithTickInterval default_tick_interval, WithCorruptPolicy RefuseCorrupt, WithMetrics True]))))"
  by (simp add: daemon_main_def quiet_env_def Let_def flag_string_def flag_duration_def parse_corrupt_policy_def
      tracing_new_def recover_data_dir_def run_ids_def)

subsection \<open>The end of a live command\<close>

text \<open>The frames among the arms.\<close>

fun frames_in :: "('l, 'r, 'c) live_arm list \<Rightarrow> garden_snapshot list" where
  "frames_in [] = []"
| "frames_in (Frame f # arms) = f # frames_in arms"
| "frames_in (_ # arms) = frames_in arms"

definition own_arm :: "('l, 'r, 'c) live_arm \<Rightarrow> bool" where
  "own_arm a \<longleftrightarrow> (\<exists>f. a = Frame f) \<or> a = Interrupt"

text \<open>A run that can be finished, in a registry that is up.\<close>

definition can_finish :: "string \<Rightarrow> ('l, 'r, 'c) registry \<Rightarrow> bool" where
  "can_finish runID g \<longleftrightarrow> \<not> g_closed g \<and>
     (\<exists>r. map_of (g_runs g) runID = Some r \<and> \<not> lr_done r \<and> s_log (lr_sim r) \<noteq> None \<and> lr_failure r = None)"

lemma finish_run_again:
  assumes "reliable_spine sp disk" "can_finish runID g"
  obtains summary g' where "finish_run sp ch now runID g = Some (Inr summary, g')" "can_finish runID g'"
    "vw_State (su_Run summary) = state_finished" "vw_Failure (su_Run summary) = None"
proof -
  obtain r where r: "\<not> g_closed g" "map_of (g_runs g) runID = Some r" "\<not> lr_done r" "s_log (lr_sim r) \<noteq> None" "lr_failure r = None"
    using assms(2) by (auto simp: can_finish_def)
  obtain r' where f: "finish sp ch now r = Some r'" "lr_failure r' = None" by (rule finish_total [OF assms(1) r(4,5)])
  have log: "s_log (lr_sim r') \<noteq> None"
  proof (cases "lr_state r = state_finished")
    case True
    then show ?thesis using f(1) r(4) by (simp add: finish_def)
  next
    case False
    obtain err s where "save_sim sp ch (set_state state_finished (lr_sim r)) = Some (err, s)" "quiet s (lr_sim r')"
      by (rule finish_spec [OF f(1) False], rule that)
    then show ?thesis using save_sim_keeps r(4) quiet_sels(1) by (fastforce simp: keeps_def set_state_def)
  qed
  let ?sum = "\<lparr>su_Run = view_of r', su_Snapshot = frame_of sp now r', su_Telemetry = telemetry_of sp now r'\<rparr>"
  have "finish_run sp ch now runID g = Some (Inr ?sum, put_run runID r' g)"
    using r(1-3) f(1) by (simp add: finish_run_def on_run_found finish_cmd_def)
  moreover have "can_finish runID (put_run runID r' g)"
    using r(1,3) f log finish_done [OF f(1)] map_of_put_run [OF r(2), of r'] by (auto simp: can_finish_def)
  ultimately show ?thesis
    using f(2) finish_state [OF f(1)] by (intro that [of ?sum]) (simp_all add: view_of_def)
qed

text \<open>
  However often it is interrupted, the command prints every frame it was given and ends with the
  summary of the finished run when its channel closes.
\<close>

lemma live_select_returns:
  assumes "reliable_spine sp disk" "can_finish runID g" "list_all own_arm arms"
  shows "\<exists>summary g'. live_select sp ch now msg (\<lambda>_. None) runID quit (arms @ [Closed]) g =
      Some (Returned None, map frame_line (frames_in arms) @ [summary_text msg summary], g') \<and>
    vw_State (su_Run summary) = state_finished \<and> vw_Failure (su_Run summary) = None"
  using assms(2,3)
proof (induction arms arbitrary: g quit)
  case Nil
  obtain summary g' where "finish_run sp ch now runID g = Some (Inr summary, g')"
    "vw_State (su_Run summary) = state_finished" "vw_Failure (su_Run summary) = None"
    by (rule finish_run_again [OF assms(1) Nil.prems(1)], rule that)
  then show ?case by auto
next
  case (Cons a arms)
  from Cons.prems(2) consider f where "a = Frame f" | "a = Interrupt" by (auto simp: own_arm_def)
  then show ?case
  proof cases
    case (1 f)
    from Cons.IH [OF Cons.prems(1), of quit] Cons.prems(2) show ?thesis by (auto simp: 1)
  next
    case 2
    obtain summary g' where f: "finish_run sp ch now runID g = Some (Inr summary, g')" "can_finish runID g'"
      by (rule finish_run_again [OF assms(1) Cons.prems(1)], rule that)
    from Cons.IH [OF f(2), of False] Cons.IH [OF Cons.prems(1), of False] Cons.prems(2) f(1) show ?thesis
      by (cases quit) (auto simp: 2)
  qed
qed

end
