(* ===== verification/Spec2Isabelle.thy ===== *)
theory Spec2Isabelle
  imports Crash Backlog Batch_Live Programs
begin

text \<open>
  \<^bold>\<open>Signal Garden, verified.\<close>

  Signal Garden is a deterministic garden simulation. A seeded producer makes events each tick,
  an append-only log keeps them, a processor validates, deduplicates and folds them into a garden
  of organisms, and snapshots let a restarted daemon go on where it stopped. A registry runs many
  such simulations from a clock and takes commands while they run; a gRPC service, a REST gateway in
  front of it and a WebSocket stream show them to clients. This development models that program file by file and proves what
  makes it correct.

  \<^bold>\<open>The theories and the code they model\<close> (paths under \<^verbatim>\<open>src/\<close>)

  \<^item> \<open>Prelude\<close>, \<open>Go_Errors\<close>, \<open>Go_Text\<close>: Go's integers, errors (\<^verbatim>\<open>%w\<close>, \<^verbatim>\<open>errors.Is\<close>, \<^verbatim>\<open>errors.Join\<close>) and
    decimal text. \<open>Lcg\<close>, \<open>Go_Rand\<close>: \<^verbatim>\<open>math/rand/v2\<close>'s PCG and \<^verbatim>\<open>IntN\<close>. \<open>Sha256\<close>: \<^verbatim>\<open>crypto/sha256\<close>.
    \<open>Json_Text\<close>, \<open>Json\<close>: \<^verbatim>\<open>encoding/json\<close> as the code uses it, with its round trip.
  \<^item> \<open>Controls\<close>, \<open>Garden\<close> (\<^verbatim>\<open>internal/domain\<close>): controls and their validation; organisms, the rules
    for rain, growth and pest, \<^verbatim>\<open>Apply\<close>, \<^verbatim>\<open>Restore\<close>, the summary and the fingerprint.
  \<^item> \<open>Events\<close>, \<open>Codec\<close> (\<^verbatim>\<open>internal/event\<close>): the envelope, its validation, the idempotency key, and the
    record of the log an event becomes and is read back from.
  \<^item> \<open>Metrics\<close> (\<^verbatim>\<open>internal/metrics\<close>): the recorder as the sequence of calls it received.
  \<^item> \<open>Processor\<close> (\<^verbatim>\<open>internal/processor\<close>), \<open>Producer\<close> (\<^verbatim>\<open>internal/producer\<close>).
  \<^item> \<open>Spine\<close>: the event-spine log, a separate module and a parameter here. The locale \<open>spine_laws\<close>
    is what its documentation promises, \<open>reliable_spine\<close> adds that no call fails; \<open>mem_spine\<close> is an
    in-memory log that satisfies both, which the witnesses use. \<open>Eventlog\<close> (\<^verbatim>\<open>internal/eventlog\<close>):
    the run's log over it, with its consumer cursor, commits and snapshots.
  \<^item> \<open>Snapshot\<close>, \<open>Sim\<close>, \<open>Recovery\<close> (\<^verbatim>\<open>internal/sim\<close>): the simulation's \<^verbatim>\<open>Step\<close>, \<^verbatim>\<open>Save\<close> with its retries,
    \<^verbatim>\<open>Rebuild\<close> and \<^verbatim>\<open>Resume\<close>. \<open>Sim_Proofs\<close>, \<open>Sim_Runs\<close>, \<open>Sim_Keys\<close> hold the
    reachable states of a simulation (\<open>sim_move\<close>, \<open>sim_reach\<close>) and their invariants; \<open>Crash\<close> what is on
    disk at every moment, after failed ticks and saves too; \<open>Restart\<close>, \<open>Restart_Runs\<close> what a restart without a backlog
    preserves, and \<open>Backlog\<close> what one with a backlog does not.
  \<^item> \<open>Run\<close> (\<^verbatim>\<open>internal/run\<close>): the batch mode. \<open>Batch_Live\<close>: a batch run beside a live run of the engine,
    tick by tick.
  \<^item> \<open>Engine\<close>, \<open>Registry\<close> (\<^verbatim>\<open>internal/engine\<close>): a live run as the state its goroutine owns, every handler
    a function of it; the registry of runs, their logs, starting, recovery and shutdown. \<open>Live_Run\<close>,
    \<open>Engine_Runs\<close>, \<open>Registry_Runs\<close> hold the step relations (\<open>run_move\<close>, \<open>reg_move\<close>) and their invariants.
  \<^item> \<open>Wire\<close> (\<^verbatim>\<open>internal/wire\<close>), \<open>Service\<close> (\<^verbatim>\<open>internal/service\<close>), \<open>Projection\<close> (\<^verbatim>\<open>internal/projection\<close>): the
    messages of the contract, the gRPC handlers with their status codes, and the stream with its
    catch-up, frame pump and close codes.
  \<^item> \<open>Rpc\<close> (\<^verbatim>\<open>garden_grpc.pb.go\<close>, the interceptor of \<^verbatim>\<open>internal/metrics\<close>): the generated client and server
    of the service, a call through them, and its measurement. \<open>Gateway\<close> (\<^verbatim>\<open>garden.pb.gw.go\<close>, the routes of
    \<^verbatim>\<open>cmd/signalgardend\<close>): every REST request, the route table, both registrations, and the public
    surface in front of them. \<open>rest_contract\<close> is what the contract says a route asks for.
  \<^item> \<open>Commands\<close> (\<^verbatim>\<open>cmd\<close>, \<^verbatim>\<open>internal/render\<close>): typed commands, replay, recovery at startup, readiness and
    cross-origin answers, glyphs and grids. \<open>Load\<close>: the load burst, and the manual clock of
    \<^verbatim>\<open>internal/engine/clock.go\<close>.
  \<^item> \<open>Float_Text\<close>, \<open>Report\<close> (\<^verbatim>\<open>internal/render\<close>): the printing of a \<^verbatim>\<open>float64\<close> and of a duration, and the text
    of the scorecard, the frame line, the summary, the load report and the banner.
  \<^item> \<open>Programs\<close> (\<^verbatim>\<open>cmd\<close>, \<^verbatim>\<open>internal/tracing\<close>): the mode a command line selects and its run, the live loop,
    and the life of the daemon as the phases it goes through.

  \<^bold>\<open>How state and effects are modelled.\<close> A struct is a record with the source's fields, a method a
  function that returns the record it leaves. A call that can fail returns the error and the state
  it leaves behind, since the code goes on from there; \<open>None\<close> in front of that is a panic or a call
  that does not return. A goroutine that owns its state runs one handler at a time, so a history is
  a sequence of handlers; the step relations put no order on them. A Go map is the association list
  of its entries, and where the code ranges over one its order is shown not to matter. Go's \<^verbatim>\<open>int\<close>
  and \<^verbatim>\<open>int64\<close> are integers with \<open>go_int\<close> at every operation whose operands the code does not bound;
  the random generator and the hash use machine words; the wire's \<^verbatim>\<open>int32\<close> is \<open>go_int32\<close>.

  \<^bold>\<open>What is shown.\<close>

  \<^item> The garden: ranges and identities of organisms hold through any events; outcomes report what
    changed; an event touches one organism; the fingerprint identifies the garden up to a collision.
  \<^item> Folding: a batch applies the first valid occurrence of each key; redeliveries are absorbed; the
    counters account for every event.
  \<^item> A simulation: replaying the log gives the live garden; records are folded or pending; every tick
    completes; what a tick leaves pending; saves are durable, and every commit is backed by a snapshot
    that is the fold of the records below its offset.
  \<^item> Restart: when nothing is pending at the snapshot and at the end, \<^verbatim>\<open>Rebuild\<close> and \<^verbatim>\<open>Resume\<close> give the
    interrupted run back; when a save leaves a redelivery pending, \<^verbatim>\<open>Rebuild\<close> applies it a second time,
    for any such run, and the witness is a run that gets there.
  \<^item> The engine: the invariant of a live run and of the registry; a finished run is final, its log
    included; every frame of a run that has not failed is a fold of the log; a run ends at its limit; a live run and a batch run of the same configuration
    reach the same garden, counters and hash; recovery of one run does not disturb another;
    shutdown; what a reconnecting client receives; refusals and their errors.
  \<^item> The surface: which controls survive the wire; weights from the wire never overflow; status codes;
    a retried finish is harmless; a started run matches its request; frame messages are exact; a
    stream tells how it ended; typed controls and the run stay in step; a REST request is answered as
    the service answers the call of its route, measured once.
  \<^item> The programs: printed averages are within half a unit of the last digit of the mean; an interrupted
    live command still prints its summary; the daemon is ready only between recovery and shutdown,
    and closes its registry whatever happened.

  \<^bold>\<open>Fuel, bounds and hypotheses.\<close> Loops over data recurse over it. \<^verbatim>\<open>IntN\<close>'s rejection loop is a \<open>function\<close>
  with its termination proof; the log reader and the search for a run ID are \<open>partial_function\<close>s, with
  theorems that they return. Retries
  and the attempts at a run ID have the bounds of the source. Properties of runs assume that the
  weights fit an \<^verbatim>\<open>int64\<close> (\<open>weights_fit\<close>; always true over the wire), that run IDs are UTF-8, and, where a
  call must succeed, \<open>reliable_spine\<close>. The record validator of the log's module (\<open>sp_validate\<close>,
  \<^verbatim>\<open>core.Event.Validate\<close>) may refuse records, and \<^verbatim>\<open>ToCore\<close>'s answer to that is modelled; the properties in
  which ticks must succeed (\<open>tick_completes\<close>, \<open>execute_scores_a_run\<close>, \<open>live_run_equals_batch\<close>,
  \<open>run_finishes_at_max_ticks\<close>) assume \<open>validates_loggable\<close>: it accepts the record of an event the code has
  validated, keyed by the event's own run, which is what \<^verbatim>\<open>internal/event/codec_test.go\<close> checks of it. Ticks of a
  simulation are taken while its sequence numbers have \<open>room\<close> in an \<^verbatim>\<open>int64\<close>. Averages are quotients rounded as \<^verbatim>\<open>float64\<close> rounds them. The
  determinism chain, the protobuf library's time messages, the WebSocket connection, the gRPC
  connection and the gateway's library are parameters. Of the last two the REST property assumes what
  they document: an invocation is served by the server it is connected to (\<open>connected\<close>), a path that is
  a template with a plain run ID in it reaches that template's pattern (\<open>mux_by_template\<close>), and a path
  parameter is returned as it is (\<open>runtime_accepts\<close>); \<open>op_pick\<close> is a mux that satisfies it on the
  generated patterns.

  \<^bold>\<open>Not modelled.\<close> The Prometheus collectors behind the recorder and their exposition; the message
  descriptors and encodings of the protobuf library; header and trailer metadata of REST calls; the
  parsing of flags; what is logged to standard error; trace spans; the read side of a stream, which
  discards what a client sends; the system clock, whose reading is an argument. Durations that elapse
  in wall-clock time have no meaning here, and neither has a data race: the code's mutexes and owner
  goroutines are taken to serialize as they do.
\<close>

end
